(* ===== verification/Prelude.thy ===== *)
theory Prelude
  imports Main "HOL-Library.Word" "HOL-Library.List_Lexorder" "HOL-Library.Char_ord"
begin

text \<open>
  What every component shares: the names of the machine integers, the result of code that may
  panic or run out of fuel, iteration orders of hash maps, and the list lemmas the components
  use. The collections \<open>wf_intros\<close> and \<open>outcome_simps\<close> carry the component proofs.
\<close>

named_theorems wf_intros \<comment> \<open>operations preserve a component's invariant\<close>
named_theorems outcome_simps \<comment> \<open>evaluation of code that may panic or run out of fuel\<close>

subsection \<open>Machine integers\<close>

type_synonym u8 = "8 word"
type_synonym u16 = "16 word"
type_synonym u32 = "32 word"
type_synonym u64 = "64 word"
type_synonym i64 = "64 word"
type_synonym usize = nat

text \<open>
  A \<open>usize\<close> counts elements of collections that are in memory, so it is a \<open>nat\<close>: the code
  never adds two of them in a way that can wrap. The conversions to 64 bits saturate, as
  \<open>try_from(..).unwrap_or(MAX)\<close> does; an \<open>i64\<close> is the word read by \<open>sint\<close>.
\<close>

definition u64_of_usize :: "usize \<Rightarrow> u64" where
  "u64_of_usize n = (if n < 2 ^ 64 then of_nat n else - 1)"

definition i64_of_usize :: "usize \<Rightarrow> i64" where
  "i64_of_usize n = (if n < 2 ^ 63 then of_nat n else of_nat (2 ^ 63 - 1))"

lemma unat_u64_of_usize: "unat (u64_of_usize n) = min n (2 ^ 64 - 1)"
proof (cases "n < 2 ^ 64")
  case True
  then show ?thesis
    by (simp add: u64_of_usize_def unat_of_nat take_bit_nat_eq_self_iff)
next
  case False
  then show ?thesis
    by (simp add: u64_of_usize_def unsigned_minus_1_eq_mask mask_eq_exp_minus_1)
qed

lemma u64_of_usize_less: "n < 2 ^ 64 \<Longrightarrow> unat (u64_of_usize n) = n"
  by (simp add: unat_u64_of_usize)

lemma word_bits_eq:
  "(x :: 'a::len word) = y \<longleftrightarrow> (\<forall>n < LENGTH('a). bit x n = bit y n)"
  by (auto intro: bit_word_eqI)

subsection \<open>Code that may panic, or loop\<close>

text \<open>
  A computation returns, panics with a message, or has not returned within the fuel it was
  given. Errors the code reports as values are a sum inside \<open>Ret\<close>.
\<close>

datatype 'a outcome = Ret 'a | Panic string | NoFuel

primrec obind :: "'a outcome \<Rightarrow> ('a \<Rightarrow> 'b outcome) \<Rightarrow> 'b outcome" where
  "obind (Ret x) f = f x"
| "obind (Panic m) f = Panic m"
| "obind NoFuel f = NoFuel"

lemma obind_eq_Ret:
  "obind m f = Ret y \<longleftrightarrow> (\<exists>x. m = Ret x \<and> f x = Ret y)"
  by (cases m) auto

lemma obind_eq_NoFuel:
  "obind m f = NoFuel \<longleftrightarrow> m = NoFuel \<or> (\<exists>x. m = Ret x \<and> f x = NoFuel)"
  by (cases m) auto

lemma obind_cong [fundef_cong]:
  "m = m' \<Longrightarrow> (\<And>x. m' = Ret x \<Longrightarrow> f x = g x) \<Longrightarrow> obind m f = obind m' g"
  by (cases m') auto

declare obind.simps [outcome_simps]

subsection \<open>Hash maps\<close>

text \<open>
  A \<open>HashMap\<close> is a partial function. Code that iterates over one takes the order as an
  argument: any list of the map's keys without repetition.
\<close>

definition is_order :: "'k list \<Rightarrow> ('k \<rightharpoonup> 'v) \<Rightarrow> bool" where
  "is_order ks m \<longleftrightarrow> distinct ks \<and> set ks = dom m"

lemma is_order_set [simp]: "is_order ks m \<Longrightarrow> set ks = dom m"
  by (simp add: is_order_def)

lemma is_order_finite: "is_order ks m \<Longrightarrow> finite (dom m)"
  by (metis List.finite_set is_order_def)

lemma is_order_length: "is_order ks m \<Longrightarrow> length ks = card (dom m)"
  by (metis distinct_card is_order_def)

subsection \<open>Lists\<close>

text \<open>The first position whose element satisfies \<open>P\<close>: \<open>Iterator::position\<close>.\<close>

fun position :: "('a \<Rightarrow> bool) \<Rightarrow> 'a list \<Rightarrow> nat option" where
  "position P [] = None"
| "position P (x # xs) = (if P x then Some 0 else map_option Suc (position P xs))"

text \<open>\<open>Vec::remove\<close> at an index in range.\<close>

definition vec_remove :: "nat \<Rightarrow> 'a list \<Rightarrow> 'a list" where
  "vec_remove i xs = take i xs @ drop (Suc i) xs"

lemma position_None: "position P xs = None \<longleftrightarrow> (\<forall>x \<in> set xs. \<not> P x)"
  by (induction xs) auto

lemma position_SomeD:
  "position P xs = Some i \<Longrightarrow> i < length xs \<and> P (xs ! i) \<and> (\<forall>j < i. \<not> P (xs ! j))"
proof (induction xs arbitrary: i)
  case Nil
  then show ?case by simp
next
  case (Cons x xs)
  then show ?case
    by (cases i) (auto split: if_splits simp: less_Suc_eq_0_disj)
qed

lemma position_Some_split:
  assumes "position P xs = Some i"
  obtains ys zs where "xs = ys @ xs ! i # zs" "length ys = i" "P (xs ! i)" "\<forall>y \<in> set ys. \<not> P y"
proof -
  from position_SomeD [OF assms] have i: "i < length xs" "P (xs ! i)" "\<forall>j < i. \<not> P (xs ! j)"
    by auto
  show thesis
  proof (rule that [of "take i xs" "drop (Suc i) xs"])
    show "xs = take i xs @ xs ! i # drop (Suc i) xs"
      by (rule id_take_nth_drop [OF i(1)])
    show "\<forall>y \<in> set (take i xs). \<not> P y"
      using i by (auto simp: in_set_conv_nth)
  qed (use i in simp_all)
qed

lemma vec_remove_append [simp]: "length ys = i \<Longrightarrow> vec_remove i (ys @ x # zs) = ys @ zs"
  by (auto simp: vec_remove_def)

lemma position_map: "position P (map f xs) = position (P \<circ> f) xs"
  by (induction xs) auto

text \<open>Removing the first match commutes with a projection of the matching sublist.\<close>

lemma filter_vec_remove_first:
  assumes "position (\<lambda>x. Q x \<and> P x) xs = Some i"
  shows "\<exists>j. position P (filter Q xs) = Some j \<and> vec_remove j (filter Q xs) = filter Q (vec_remove i xs)"
proof -
  obtain ys zs where s: "xs = ys @ xs ! i # zs" "length ys = i" "Q (xs ! i) \<and> P (xs ! i)"
      "\<forall>y \<in> set ys. \<not> (Q y \<and> P y)"
    using position_Some_split [OF assms] by metis
  have "position P (filter Q ys @ xs ! i # filter Q zs) = Some (length (filter Q ys))"
    using s(3,4) by (induction ys) auto
  moreover have "filter Q xs = filter Q ys @ xs ! i # filter Q zs"
    using s(3) by (subst s(1)) simp
  moreover have "filter Q (vec_remove i xs) = filter Q ys @ filter Q zs"
    by (subst s(1)) (simp add: s(2))
  ultimately show ?thesis by auto
qed

lemma filter_vec_remove_other:
  assumes "position P xs = Some i" and "\<And>x. P x \<Longrightarrow> \<not> Q x"
  shows "filter Q (vec_remove i xs) = filter Q xs"
proof -
  obtain ys zs where s: "xs = ys @ xs ! i # zs" "length ys = i" "P (xs ! i)"
    using position_Some_split [OF assms(1)] by metis
  have "filter Q xs = filter Q (ys @ xs ! i # zs)"
    using s(1) by simp
  moreover have "filter Q (vec_remove i xs) = filter Q (ys @ zs)"
    by (subst s(1)) (simp add: s(2))
  ultimately show ?thesis
    using assms(2) [OF s(3)] by simp
qed

lemma vec_remove_map: "vec_remove i (map f xs) = map f (vec_remove i xs)"
  by (simp add: vec_remove_def take_map drop_map)

lemma set_vec_remove: "set (vec_remove i xs) \<subseteq> set xs"
  by (auto simp: vec_remove_def dest: in_set_takeD in_set_dropD)

lemma find_Some_split:
  assumes "find P xs = Some x"
  obtains ys zs where "xs = ys @ x # zs" "P x" "\<forall>y \<in> set ys. \<not> P y"
proof -
  from assms obtain i where i: "i < length xs" "P (xs ! i)" "x = xs ! i" "\<forall>j < i. \<not> P (xs ! j)"
    by (auto simp: find_Some_iff)
  show thesis
  proof (rule that [of "take i xs" "drop (Suc i) xs"])
    show "xs = take i xs @ x # drop (Suc i) xs"
      using i(1,3) by (simp add: id_take_nth_drop)
    show "\<forall>y \<in> set (take i xs). \<not> P y"
      using i by (auto simp: in_set_conv_nth)
  qed (use i in simp)
qed

subsection \<open>Decimal text\<close>

text \<open>
  \<open>Display\<close> of an unsigned integer, and \<open>str::parse\<close> of one: an optional plus sign, at
  least one digit, nothing else, and the value has to fit the type's bound.
\<close>

definition digit_char :: "nat \<Rightarrow> char" where
  "digit_char d = char_of (48 + d)"

definition digit_val :: "char \<Rightarrow> nat option" where
  "digit_val c = (let n = of_char c in if 48 \<le> n \<and> n \<le> 57 then Some (n - 48) else None)"

fun show_nat :: "nat \<Rightarrow> string" where
  "show_nat n = (if n < 10 then [digit_char n] else show_nat (n div 10) @ [digit_char (n mod 10)])"

declare show_nat.simps [simp del]

fun parse_digits :: "nat \<Rightarrow> string \<Rightarrow> nat option" where
  "parse_digits acc [] = Some acc"
| "parse_digits acc (c # cs) =
     (case digit_val c of None \<Rightarrow> None | Some d \<Rightarrow> parse_digits (acc * 10 + d) cs)"

definition parse_uint :: "nat \<Rightarrow> string \<Rightarrow> nat option" where
  "parse_uint bound s =
     (let ds = (case s of c # cs \<Rightarrow> if c = CHR ''+'' then cs else s | [] \<Rightarrow> s)
      in if ds = [] then None
         else case parse_digits 0 ds of
                None \<Rightarrow> None
              | Some n \<Rightarrow> if n < bound then Some n else None)"

lemma digit_val_char [simp]: "d < 10 \<Longrightarrow> digit_val (digit_char d) = Some d"
  by (simp add: digit_val_def digit_char_def Let_def)

lemma parse_digits_append:
  "parse_digits acc (xs @ ys) = Option.bind (parse_digits acc xs) (\<lambda>a. parse_digits a ys)"
  by (induction xs arbitrary: acc) (auto split: option.splits)

lemma show_nat_not_Nil [simp]: "show_nat n \<noteq> []"
  by (subst show_nat.simps) simp

lemma parse_digits_show_nat: "parse_digits 0 (show_nat n) = Some n"
proof (induction n rule: show_nat.induct)
  case (1 n)
  show ?case
  proof (cases "n < 10")
    case True
    then show ?thesis by (simp add: show_nat.simps [of n])
  next
    case False
    with 1 show ?thesis
      by (simp add: show_nat.simps [of n] parse_digits_append)
  qed
qed

lemma show_nat_chars: "c \<in> set (show_nat n) \<Longrightarrow> digit_val c \<noteq> None"
proof (induction n rule: show_nat.induct)
  case (1 n)
  then show ?case
    by (cases "n < 10") (auto simp: show_nat.simps [of n])
qed

lemma show_nat_no: "digit_val c = None \<Longrightarrow> c \<notin> set (show_nat n)"
  using show_nat_chars by blast

lemma parse_uint_show_nat: "n < bound \<Longrightarrow> parse_uint bound (show_nat n) = Some n"
proof -
  assume n: "n < bound"
  have "CHR ''+'' \<notin> set (show_nat n)"
    by (rule show_nat_no) (simp add: digit_val_def)
  then have "(case show_nat n of c # cs \<Rightarrow> if c = CHR ''+'' then cs else show_nat n | [] \<Rightarrow> show_nat n) = show_nat n"
    by (auto split: list.splits)
  with n show ?thesis
    by (simp add: parse_uint_def parse_digits_show_nat)
qed

subsection \<open>Sequences of operations\<close>

text \<open>The answers of a list of commands, run one after the other, and the last state.\<close>

fun run_cmds :: "('c \<Rightarrow> 's \<Rightarrow> 'r \<times> 's) \<Rightarrow> 'c list \<Rightarrow> 's \<Rightarrow> 'r list \<times> 's" where
  "run_cmds step [] s = ([], s)"
| "run_cmds step (c # cs) s =
     (let (r, s1) = step c s; (rs, s2) = run_cmds step cs s1 in (r # rs, s2))"

text \<open>Two machines that answer alike and keep a relation answer every sequence alike.\<close>

lemma run_cmds_refines:
  assumes "\<And>c s t. R s t \<Longrightarrow> fst (f c s) = fst (g c t) \<and> R (snd (f c s)) (snd (g c t))" "R s t"
  shows "fst (run_cmds f cs s) = fst (run_cmds g cs t) \<and> R (snd (run_cmds f cs s)) (snd (run_cmds g cs t))"
  using assms(2)
proof (induction cs arbitrary: s t)
  case (Cons c cs)
  then show ?case
    using assms(1) [of s t c] by (fastforce simp: Let_def split_beta)
qed simp

end
