(* ===== verification/Core_Types.thy ===== *)
theory Core_Types
  imports Prelude
begin

text \<open>
  The types shared by every crate (\<open>crates/nyarix-core/src\<close>): identifiers, which wrap a UUID in
  a type of their own per domain, semantic versions with their derived order, and platforms.
  A UUID is a 128-bit value; making a fresh one (\<open>Uuid::now_v7\<close>) and printing one are code of
  the \<open>uuid\<close> package, so the operations that make an identifier take it as an argument.
\<close>

type_synonym uuid = "128 word"

datatype session_id = SessionId uuid
datatype flow_id = FlowId uuid
datatype stream_id = StreamId uuid
datatype packet_id = PacketId uuid
datatype module_id = ModuleId uuid
datatype node_id = NodeId uuid
datatype route_id = RouteId uuid

fun node_uuid :: "node_id \<Rightarrow> uuid" where
  "node_uuid (NodeId u) = u"

definition route_id_nil :: route_id where
  "route_id_nil = RouteId 0"

definition node_id_is_nil :: "node_id \<Rightarrow> bool" where
  "node_id_is_nil n \<longleftrightarrow> node_uuid n = 0"

subsection \<open>Semantic versions\<close>

datatype sem_ver = SemVer (sv_major: u32) (sv_minor: u32) (sv_patch: u32)

definition sem_ver_is_compatible_with :: "sem_ver \<Rightarrow> sem_ver \<Rightarrow> bool" where
  "sem_ver_is_compatible_with self required \<longleftrightarrow>
     sv_major self = sv_major required \<and> sv_minor required \<le> sv_minor self"

definition sem_ver_display :: "sem_ver \<Rightarrow> string" where
  "sem_ver_display v =
     show_nat (unat (sv_major v)) @ ''.'' @ show_nat (unat (sv_minor v)) @ ''.'' @
     show_nat (unat (sv_patch v))"

text \<open>The derived order compares the fields in declaration order.\<close>

instantiation sem_ver :: linorder
begin

definition less_eq_sem_ver :: "sem_ver \<Rightarrow> sem_ver \<Rightarrow> bool" where
  "less_eq_sem_ver a b \<longleftrightarrow>
     sv_major a < sv_major b \<or> (sv_major a = sv_major b \<and>
       (sv_minor a < sv_minor b \<or> (sv_minor a = sv_minor b \<and> sv_patch a \<le> sv_patch b)))"

definition less_sem_ver :: "sem_ver \<Rightarrow> sem_ver \<Rightarrow> bool" where
  "less_sem_ver a b \<longleftrightarrow> a \<le> b \<and> a \<noteq> b"

instance
proof
  fix x y z :: sem_ver
  show "x < y \<longleftrightarrow> x \<le> y \<and> \<not> y \<le> x"
    by (cases x; cases y) (auto simp: less_sem_ver_def less_eq_sem_ver_def)
  show "x \<le> x"
    by (simp add: less_eq_sem_ver_def)
  show "x \<le> y \<Longrightarrow> y \<le> z \<Longrightarrow> x \<le> z"
    by (auto simp: less_eq_sem_ver_def)
  show "x \<le> y \<Longrightarrow> y \<le> x \<Longrightarrow> x = y"
    by (cases x; cases y) (auto simp: less_eq_sem_ver_def)
  show "x \<le> y \<or> y \<le> x"
    by (auto simp: less_eq_sem_ver_def)
qed

end

lemma sem_ver_compatible_refl: "sem_ver_is_compatible_with v v"
  by (simp add: sem_ver_is_compatible_with_def)

lemma sem_ver_compatible_trans:
  "sem_ver_is_compatible_with a b \<Longrightarrow> sem_ver_is_compatible_with b c \<Longrightarrow>
   sem_ver_is_compatible_with a c"
  by (auto simp: sem_ver_is_compatible_with_def)

text \<open>
  The API version of \<open>nyarix-core\<close> (one version per domain). The module API has a type of the
  same name with another shape (theory \<open>Versioning\<close>), hence the prefix.
\<close>

datatype core_api_version = CoreApiVersion (cav_domain: string) (cav_version: sem_ver)

definition core_api_satisfies :: "core_api_version \<Rightarrow> core_api_version \<Rightarrow> bool" where
  "core_api_satisfies self required \<longleftrightarrow>
     cav_domain self = cav_domain required \<and>
     sem_ver_is_compatible_with (cav_version self) (cav_version required)"

subsection \<open>Platforms\<close>

datatype core_platform =
  CoreLinux | CoreWindows | CoreMacOs | CoreIos | CoreAndroid | CoreUnknown

fun core_platform_is_mobile :: "core_platform \<Rightarrow> bool" where
  "core_platform_is_mobile p = (p = CoreIos \<or> p = CoreAndroid)"

fun core_platform_is_desktop :: "core_platform \<Rightarrow> bool" where
  "core_platform_is_desktop p = (p = CoreLinux \<or> p = CoreWindows \<or> p = CoreMacOs)"

text \<open>The build's target operating system selects the platform; it is given by its name.\<close>

definition core_platform_current :: "string \<Rightarrow> core_platform" where
  "core_platform_current target_os =
     (if target_os = ''linux'' then CoreLinux
      else if target_os = ''windows'' then CoreWindows
      else if target_os = ''macos'' then CoreMacOs
      else if target_os = ''ios'' then CoreIos
      else if target_os = ''android'' then CoreAndroid
      else CoreUnknown)"

end
