(* ===== verification/Errors.thy ===== *)
theory Errors
  imports Prelude
begin

text \<open>
  The layered error types of \<open>crates/nyarix-error/src/lib.rs\<close>, one datatype per enum, and the
  messages their \<open>Display\<close> implementations print. An I/O error of the standard library is its
  kind and its message; the boxed source of a parse error is a type parameter.
\<close>

datatype io_error_kind = NotFoundKind | InvalidDataKind | OtherKind

datatype io_error = IoError (io_kind: io_error_kind) (io_message: string)

datatype 'src config_error =
    ConfigParse string 'src
  | MissingKey string
  | InvalidValue string string
  | IncompatibleConfig string

datatype package_error =
    PackageIo string io_error
  | InvalidManifest string
  | SignatureFailure string
  | UnsupportedVersion string
  | PackageNotFound string
  | MissingMember string

datatype module_error =
    InitFailed string string
  | Crashed string string
  | ApiMismatch string string string
  | MissingDependencyError string string
  | CircularDependency string
  | QuotaExceeded string string
  | NotExclusivelyOwned string

datatype graph_error =
    Cycle string
  | MissingNode string
  | IncompatibleEdge string string string
  | Disconnected
  | BuildFailed string

datatype runtime_error =
    AlreadyRunning
  | ShuttingDown
  | SchedulerError string
  | EventBusError string
  | ResourceExhausted string

datatype transport_error =
    ConnectionFailed string io_error
  | ConnectionReset string
  | Timeout u64
  | ResolutionFailed string
  | TransportNotSupported string

datatype crypto_error =
    KeyExchange string
  | OperationFailed string
  | InvalidKey string
  | UnsupportedAlgorithm string

datatype security_error =
    CapabilityDenied string string
  | SignatureFailed string
  | InsufficientTrust string string string
  | SandboxViolation string string

datatype internal_error =
    InvariantViolation string
  | UnexpectedState string
  | Bug string

datatype 'src nyarix_error =
    ConfigE "'src config_error"
  | PackageE package_error
  | ModuleE module_error
  | GraphE graph_error
  | RuntimeE runtime_error
  | TransportE transport_error
  | CryptoE crypto_error
  | SecurityE security_error
  | InternalE internal_error

subsection \<open>Messages\<close>

text \<open>A single quote, which a string literal of the logic cannot hold.\<close>

abbreviation quot :: string where
  "quot \<equiv> [CHR 0x27]"

fun config_error_message :: "('src \<Rightarrow> string) \<Rightarrow> 'src config_error \<Rightarrow> string" where
  "config_error_message show_src (ConfigParse path src) =
     ''failed to parse config at '' @ path @ '': '' @ show_src src"
| "config_error_message show_src (MissingKey key) = ''missing required key: '' @ key"
| "config_error_message show_src (InvalidValue key r) = ''invalid value for '' @ key @ '': '' @ r"
| "config_error_message show_src (IncompatibleConfig m) = ''incompatible config: '' @ m"

fun package_error_message :: "package_error \<Rightarrow> string" where
  "package_error_message (PackageIo path e) =
     ''failed to read package at '' @ path @ '': '' @ io_message e"
| "package_error_message (InvalidManifest r) = ''invalid manifest: '' @ r"
| "package_error_message (SignatureFailure p) = ''signature verification failed for '' @ p"
| "package_error_message (UnsupportedVersion v) = ''unsupported package format version: '' @ v"
| "package_error_message (PackageNotFound n) = ''package not found: '' @ n"
| "package_error_message (MissingMember path) = ''package is missing required member: '' @ path"

fun module_error_message :: "module_error \<Rightarrow> string" where
  "module_error_message (InitFailed n r) =
     ''module '' @ quot @ n @ quot @ '' failed to initialize: '' @ r"
| "module_error_message (Crashed n r) = ''module '' @ quot @ n @ quot @ '' crashed: '' @ r"
| "module_error_message (ApiMismatch n r a) =
     ''module '' @ quot @ n @ quot @ '' requires API '' @ r @ '', but Runtime provides '' @ a"
| "module_error_message (MissingDependencyError n d) =
     ''module '' @ quot @ n @ quot @ '' depends on '' @ quot @ d @ quot @ '' which is not available''"
| "module_error_message (CircularDependency c) = ''circular dependency detected involving: '' @ c"
| "module_error_message (QuotaExceeded n r) =
     ''module '' @ quot @ n @ quot @ '' exceeded '' @ r @ '' limit''"
| "module_error_message (NotExclusivelyOwned n) =
     ''module '' @ quot @ n @ quot @ '' is not exclusively owned; cannot get mutable access''"

fun graph_error_message :: "graph_error \<Rightarrow> string" where
  "graph_error_message (Cycle c) = ''cycle detected in graph: '' @ c"
| "graph_error_message (MissingNode n) = ''missing node: '' @ n"
| "graph_error_message (IncompatibleEdge f t r) =
     ''incompatible edge: '' @ f @ '' -> '' @ t @ '': '' @ r"
| "graph_error_message Disconnected = ''graph is disconnected''"
| "graph_error_message (BuildFailed r) = ''graph build failed: '' @ r"

fun runtime_error_message :: "runtime_error \<Rightarrow> string" where
  "runtime_error_message AlreadyRunning = ''runtime is already running''"
| "runtime_error_message ShuttingDown = ''runtime is shutting down''"
| "runtime_error_message (SchedulerError r) = ''scheduler error: '' @ r"
| "runtime_error_message (EventBusError r) = ''event bus error: '' @ r"
| "runtime_error_message (ResourceExhausted r) = ''resource exhausted: '' @ r"

fun transport_error_message :: "transport_error \<Rightarrow> string" where
  "transport_error_message (ConnectionFailed addr e) =
     ''connection to '' @ addr @ '' failed: '' @ io_message e"
| "transport_error_message (ConnectionReset r) = ''connection reset: '' @ r"
| "transport_error_message (Timeout ms) = ''transport timeout after '' @ show_nat (unat ms) @ ''ms''"
| "transport_error_message (ResolutionFailed addr) = ''failed to resolve address: '' @ addr"
| "transport_error_message (TransportNotSupported t) = ''transport not supported: '' @ t"

fun crypto_error_message :: "crypto_error \<Rightarrow> string" where
  "crypto_error_message (KeyExchange r) = ''key exchange failed: '' @ r"
| "crypto_error_message (OperationFailed r) = ''crypto operation failed: '' @ r"
| "crypto_error_message (InvalidKey r) = ''invalid key: '' @ r"
| "crypto_error_message (UnsupportedAlgorithm a) = ''crypto algorithm not supported: '' @ a"

fun security_error_message :: "security_error \<Rightarrow> string" where
  "security_error_message (CapabilityDenied m c) =
     ''module '' @ quot @ m @ quot @ '' denied capability '' @ quot @ c @ quot"
| "security_error_message (SignatureFailed r) = ''signature verification failed: '' @ r"
| "security_error_message (InsufficientTrust m l r) =
     ''module '' @ quot @ m @ quot @ '' has trust level '' @ l @ '', requires '' @ r"
| "security_error_message (SandboxViolation m v) =
     ''sandbox violation by '' @ quot @ m @ quot @ '': '' @ v"

fun internal_error_message :: "internal_error \<Rightarrow> string" where
  "internal_error_message (InvariantViolation m) = ''invariant violated: '' @ m"
| "internal_error_message (UnexpectedState m) = ''unexpected state: '' @ m"
| "internal_error_message (Bug m) = ''bug: '' @ m"

text \<open>The message of any error names the layer it comes from before its own.\<close>

fun nyarix_error_message :: "('src \<Rightarrow> string) \<Rightarrow> 'src nyarix_error \<Rightarrow> string" where
  "nyarix_error_message show_src (ConfigE e) = ''configuration error: '' @ config_error_message show_src e"
| "nyarix_error_message show_src (PackageE e) = ''package error: '' @ package_error_message e"
| "nyarix_error_message show_src (ModuleE e) = ''module error: '' @ module_error_message e"
| "nyarix_error_message show_src (GraphE e) = ''graph error: '' @ graph_error_message e"
| "nyarix_error_message show_src (RuntimeE e) = ''runtime error: '' @ runtime_error_message e"
| "nyarix_error_message show_src (TransportE e) = ''transport error: '' @ transport_error_message e"
| "nyarix_error_message show_src (CryptoE e) = ''crypto error: '' @ crypto_error_message e"
| "nyarix_error_message show_src (SecurityE e) = ''security error: '' @ security_error_message e"
| "nyarix_error_message show_src (InternalE e) = ''internal error: '' @ internal_error_message e"

end
