(* ===== verification/Versioning.thy ===== *)
theory Versioning
  imports Prelude
begin

text \<open>
  Module API versions and the choice of a module for a load request
  (\<open>crates/nyarix-module-api/src/versioning.rs\<close>, \<open>fallback.rs\<close>).
\<close>

subsection \<open>API versions\<close>

datatype api_version = ApiVersion (av_major: u16) (av_minor: u16)

definition api_version_new :: "u16 \<Rightarrow> u16 \<Rightarrow> api_version" where
  "api_version_new major minor = ApiVersion major minor"

definition api_version_display :: "api_version \<Rightarrow> string" where
  "api_version_display v = show_nat (unat (av_major v)) @ ''.'' @ show_nat (unat (av_minor v))"

datatype api_version_parse_error = ApiVersionParseError (avpe_input: string)

definition split_once :: "char \<Rightarrow> string \<Rightarrow> (string \<times> string) option" where
  "split_once c s =
     (if c \<in> set s
      then Some (takeWhile (\<lambda>x. x \<noteq> c) s, tl (dropWhile (\<lambda>x. x \<noteq> c) s))
      else None)"

definition parse_u16 :: "string \<Rightarrow> u16 option" where
  "parse_u16 s = map_option of_nat (parse_uint (2 ^ 16) s)"

definition api_version_from_str :: "string \<Rightarrow> api_version_parse_error + api_version" where
  "api_version_from_str input =
     (let invalid = Inl (ApiVersionParseError input)
      in case split_once CHR ''.'' input of
           None \<Rightarrow> invalid
         | Some (major_text, minor_text) \<Rightarrow>
             (case parse_u16 major_text of
                None \<Rightarrow> invalid
              | Some major \<Rightarrow>
                  (case parse_u16 minor_text of
                     None \<Rightarrow> invalid
                   | Some minor \<Rightarrow> Inr (api_version_new major minor))))"

definition is_compatible :: "api_version \<Rightarrow> api_version \<Rightarrow> bool" where
  "is_compatible required provided \<longleftrightarrow>
     av_major required = av_major provided \<and> av_minor required \<le> av_minor provided"

lemma split_once_append:
  "c \<notin> set xs \<Longrightarrow> split_once c (xs @ c # ys) = Some (xs, ys)"
proof -
  assume "c \<notin> set xs"
  then have "takeWhile (\<lambda>x. x \<noteq> c) (xs @ c # ys) = xs" "dropWhile (\<lambda>x. x \<noteq> c) (xs @ c # ys) = c # ys"
    by (induction xs) auto
  then show ?thesis by (simp add: split_once_def)
qed

lemma parse_u16_show: "parse_u16 (show_nat (unat (w :: u16))) = Some w"
proof -
  have "unat w < 2 ^ 16"
    using unsigned_less [of w] by simp
  then show ?thesis
    by (simp add: parse_u16_def parse_uint_show_nat)
qed

lemma show_nat_no_dot: "CHR ''.'' \<notin> set (show_nat n)"
  by (rule show_nat_no) (simp add: digit_val_def)

lemma split_once_None: "split_once c s = None \<longleftrightarrow> c \<notin> set s"
  by (simp add: split_once_def)

lemma split_once_Some:
  assumes "split_once c s = Some (a, b)"
  shows "s = a @ c # b"
proof -
  from assms have "c \<in> set s"
    by (auto simp: split_once_def split: if_splits)
  then obtain xs ys where s: "s = xs @ c # ys" "c \<notin> set xs"
    by (metis split_list_first)
  with assms show ?thesis
    by (simp add: split_once_append)
qed

subsection \<open>Choosing a module\<close>

datatype resolution =
  ExactMatch string | CompatibleVersion string | Fallback string | Incompatible

definition resolve :: "api_version \<Rightarrow> (string \<times> api_version) list \<Rightarrow> string option \<Rightarrow> resolution" where
  "resolve required candidates fallback =
     (case find (\<lambda>(_, provided). provided = required) candidates of
        Some (name, _) \<Rightarrow> ExactMatch name
      | None \<Rightarrow>
          (case find (\<lambda>(_, provided). is_compatible required provided) candidates of
             Some (name, _) \<Rightarrow> CompatibleVersion name
           | None \<Rightarrow> (case fallback of Some name \<Rightarrow> Fallback name | None \<Rightarrow> Incompatible)))"

text \<open>
  What a resolution promises: the first candidate of the best available class. A name is
  listed by its first occurrence with a version of the class.
\<close>

definition first_with :: "('v \<Rightarrow> bool) \<Rightarrow> ('n \<times> 'v) list \<Rightarrow> 'n \<Rightarrow> bool" where
  "first_with P cs n \<longleftrightarrow> (\<exists>i < length cs. fst (cs ! i) = n \<and> P (snd (cs ! i)) \<and>
     (\<forall>j < i. \<not> P (snd (cs ! j))))"

lemma find_first_with:
  assumes "find (\<lambda>(_, v). P v) cs = Some (n, v)"
  shows "P v" "first_with P cs n" "(n, v) \<in> set cs"
proof -
  from assms obtain i where i: "i < length cs" "cs ! i = (n, v)" "P v"
      "\<forall>j < i. \<not> (case cs ! j of (_, v) \<Rightarrow> P v)"
    by (auto simp: find_Some_iff)
  show "P v" by (rule i(3))
  show "first_with P cs n"
    unfolding first_with_def using i by (intro exI [of _ i]) (auto simp: case_prod_beta)
  show "(n, v) \<in> set cs"
    using i(1,2) nth_mem by force
qed

lemma find_none_with: "find (\<lambda>(_, v). P v) cs = None \<longleftrightarrow> (\<forall>v \<in> snd ` set cs. \<not> P v)"
  by (auto simp: find_None_iff)

lemma resolve_exact: "resolve r cs fb = ExactMatch n \<Longrightarrow> first_with (\<lambda>v. v = r) cs n"
  by (auto simp: resolve_def split: option.splits dest: find_first_with(2))

lemma resolve_compatible:
  "resolve r cs fb = CompatibleVersion n \<Longrightarrow>
   first_with (is_compatible r) cs n \<and> r \<notin> snd ` set cs"
  by (auto simp: resolve_def find_none_with [of "\<lambda>v. v = r"] split: option.splits
      dest: find_first_with(2))

lemma resolve_refused:
  "resolve r cs fb = Incompatible \<longleftrightarrow>
   (\<forall>v \<in> snd ` set cs. v \<noteq> r \<and> \<not> is_compatible r v) \<and> fb = None"
proof (cases "find (\<lambda>(_, v). v = r) cs")
  case None
  then show ?thesis
    using find_none_with [of "\<lambda>v. v = r" cs] find_none_with [of "is_compatible r" cs]
    by (auto simp: resolve_def split: option.splits)
next
  case (Some nv)
  then show ?thesis
    using find_none_with [of "\<lambda>v. v = r" cs] by (cases nv) (auto simp: resolve_def)
qed

lemma resolve_fallback:
  "resolve r cs fb = Fallback n \<longleftrightarrow>
   (\<forall>v \<in> snd ` set cs. v \<noteq> r \<and> \<not> is_compatible r v) \<and> fb = Some n"
proof (cases "find (\<lambda>(_, v). v = r) cs")
  case None
  then show ?thesis
    using find_none_with [of "\<lambda>v. v = r" cs] find_none_with [of "is_compatible r" cs]
    by (auto simp: resolve_def split: option.splits)
next
  case (Some nv)
  then show ?thesis
    using find_none_with [of "\<lambda>v. v = r" cs] by (cases nv) (auto simp: resolve_def)
qed

text \<open>
  Printing an API version and parsing it back gives the same version, for every version;
  and compatibility is a preorder: every version serves itself, and serving is transitive.
\<close>

theorem api_version_roundtrip:
  "api_version_from_str (api_version_display v) = Inr v \<and> is_compatible v v \<and>
   (is_compatible a b \<longrightarrow> is_compatible b c \<longrightarrow> is_compatible a c)"
  by (cases v) (auto simp: api_version_from_str_def api_version_display_def split_once_append
      show_nat_no_dot parse_u16_show is_compatible_def api_version_new_def)

theorem api_version_roundtrip_witness:
  "api_version_from_str (api_version_display (ApiVersion 1 2)) = Inr (ApiVersion 1 2) \<and>
   is_compatible (ApiVersion 1 0) (ApiVersion 1 5)"
  using api_version_roundtrip [of "ApiVersion 1 2" "ApiVersion 1 0" "ApiVersion 1 2" "ApiVersion 1 5"]
  by (simp add: is_compatible_def)

text \<open>
  A required API version is resolved to the best class of candidate there is: the first one
  of exactly that version, else the first compatible one, else the fallback; the request is
  refused exactly when no candidate serves it and there is no fallback.
\<close>

theorem resolve_priority:
  "case resolve r cs fb of
     ExactMatch n \<Rightarrow> first_with (\<lambda>v. v = r) cs n
   | CompatibleVersion n \<Rightarrow> first_with (is_compatible r) cs n \<and> r \<notin> snd ` set cs
   | Fallback n \<Rightarrow> fb = Some n \<and> snd ` set cs \<inter> ({r} \<union> {v. is_compatible r v}) = {}
   | Incompatible \<Rightarrow> fb = None \<and> snd ` set cs \<inter> ({r} \<union> {v. is_compatible r v}) = {}"
proof (cases "resolve r cs fb")
  case (ExactMatch n)
  then show ?thesis using resolve_exact [OF ExactMatch] by simp
next
  case (CompatibleVersion n)
  then show ?thesis using resolve_compatible [OF CompatibleVersion] by simp
next
  case (Fallback n)
  with resolve_fallback [of r cs fb n] show ?thesis by force
next
  case Incompatible
  with resolve_refused [of r cs fb] show ?thesis by force
qed

end
