(* ===== verification/Capabilities.thy ===== *)
theory Capabilities
  imports Prelude
begin

unbundle bit_operations_syntax

text \<open>
  Capabilities, their masks and the grant a module gets
  (\<open>crates/nyarix-module-api/src/capability.rs\<close>). The \<open>bitflags\<close> type over 16 bits is a word,
  its \<open>contains\<close>, union and intersection are the bitwise ones.
\<close>

datatype capability =
    Filesystem | Network | Tun | Random | Crypto | Clock | Scheduler | Storage | Metrics | Dns
  | UiHooks | Background | PrivilegedSockets

type_synonym capability_mask = u16

definition capability_ALL :: "capability list" where
  "capability_ALL = [Filesystem, Network, Tun, Random, Crypto, Clock, Scheduler, Storage, Metrics,
     Dns, UiHooks, Background, PrivilegedSockets]"

definition FILESYSTEM :: capability_mask where "FILESYSTEM = push_bit 0 1"
definition NETWORK :: capability_mask where "NETWORK = push_bit 1 1"
definition TUN :: capability_mask where "TUN = push_bit 2 1"
definition RANDOM :: capability_mask where "RANDOM = push_bit 3 1"
definition CRYPTO :: capability_mask where "CRYPTO = push_bit 4 1"
definition CLOCK :: capability_mask where "CLOCK = push_bit 5 1"
definition SCHEDULER :: capability_mask where "SCHEDULER = push_bit 6 1"
definition STORAGE :: capability_mask where "STORAGE = push_bit 7 1"
definition METRICS :: capability_mask where "METRICS = push_bit 8 1"
definition DNS :: capability_mask where "DNS = push_bit 9 1"
definition UI_HOOKS :: capability_mask where "UI_HOOKS = push_bit 10 1"
definition BACKGROUND :: capability_mask where "BACKGROUND = push_bit 11 1"
definition PRIVILEGED_SOCKETS :: capability_mask where "PRIVILEGED_SOCKETS = push_bit 12 1"

lemmas capability_masks =
  FILESYSTEM_def NETWORK_def TUN_def RANDOM_def CRYPTO_def CLOCK_def SCHEDULER_def STORAGE_def
  METRICS_def DNS_def UI_HOOKS_def BACKGROUND_def PRIVILEGED_SOCKETS_def

fun capability_bit :: "capability \<Rightarrow> capability_mask" where
  "capability_bit Filesystem = FILESYSTEM"
| "capability_bit Network = NETWORK"
| "capability_bit Tun = TUN"
| "capability_bit Random = RANDOM"
| "capability_bit Crypto = CRYPTO"
| "capability_bit Clock = CLOCK"
| "capability_bit Scheduler = SCHEDULER"
| "capability_bit Storage = STORAGE"
| "capability_bit Metrics = METRICS"
| "capability_bit Dns = DNS"
| "capability_bit UiHooks = UI_HOOKS"
| "capability_bit Background = BACKGROUND"
| "capability_bit PrivilegedSockets = PRIVILEGED_SOCKETS"

definition mask_contains :: "capability_mask \<Rightarrow> capability_mask \<Rightarrow> bool" where
  "mask_contains m other \<longleftrightarrow> m AND other = other"

definition mask_from_capabilities :: "capability list \<Rightarrow> capability_mask" where
  "mask_from_capabilities cs = foldl (\<lambda>mask cap. mask OR capability_bit cap) 0 cs"

definition mask_has :: "capability_mask \<Rightarrow> capability \<Rightarrow> bool" where
  "mask_has m c \<longleftrightarrow> mask_contains m (capability_bit c)"

definition mask_satisfies :: "capability_mask \<Rightarrow> capability_mask \<Rightarrow> bool" where
  "mask_satisfies m required \<longleftrightarrow> mask_contains m required"

datatype capability_grant =
  CapabilityGrant (grant_granted: capability_mask) (grant_denied: "capability list")

definition grant_request :: "capability list \<Rightarrow> capability_mask \<Rightarrow> capability_grant" where
  "grant_request required granted =
     CapabilityGrant (mask_from_capabilities required AND granted)
                     (filter (\<lambda>c. \<not> mask_has granted c) required)"

definition grant_is_fully_granted :: "capability_grant \<Rightarrow> bool" where
  "grant_is_fully_granted g \<longleftrightarrow> grant_denied g = []"

definition grant_has :: "capability_grant \<Rightarrow> capability \<Rightarrow> bool" where
  "grant_has g c \<longleftrightarrow> mask_has (grant_granted g) c"

subsection \<open>The bits of a mask\<close>

text \<open>The position of a capability's bit: its place in the declaration order.\<close>

fun capability_index :: "capability \<Rightarrow> nat" where
  "capability_index Filesystem = 0"
| "capability_index Network = 1"
| "capability_index Tun = 2"
| "capability_index Random = 3"
| "capability_index Crypto = 4"
| "capability_index Clock = 5"
| "capability_index Scheduler = 6"
| "capability_index Storage = 7"
| "capability_index Metrics = 8"
| "capability_index Dns = 9"
| "capability_index UiHooks = 10"
| "capability_index Background = 11"
| "capability_index PrivilegedSockets = 12"

lemma capability_bit_push: "capability_bit c = push_bit (capability_index c) 1"
  by (cases c) (simp_all add: capability_masks)

lemma capability_index_less: "capability_index c < 13"
  by (cases c) simp_all

lemma capability_index_inj: "capability_index c = capability_index d \<longleftrightarrow> c = d"
  by (cases c; cases d) simp_all

lemma capability_ALL_index: "map capability_index capability_ALL = [0..<13]"
  by (simp add: capability_ALL_def upt_conv_Cons)

lemma set_capability_ALL: "set capability_ALL = UNIV"
proof -
  have "c \<in> set capability_ALL" for c
    by (cases c) (simp_all add: capability_ALL_def)
  then show ?thesis by blast
qed

lemma bit_capability_bit:
  "bit (capability_bit c) n \<longleftrightarrow> n = capability_index c"
  using capability_index_less [of c]
  by (auto simp: capability_bit_push bit_simps)

lemma mask_contains_bits: "mask_contains m k \<longleftrightarrow> (\<forall>n. bit k n \<longrightarrow> bit m n)"
proof -
  have "n < 16" if "bit k n" for n
    using bit_imp_le_length [OF that] by simp
  then show ?thesis
    by (auto simp: mask_contains_def word_bits_eq bit_simps)
qed

lemma mask_has_bit: "mask_has m c \<longleftrightarrow> bit m (capability_index c)"
  by (simp add: mask_has_def mask_contains_bits bit_capability_bit)

lemma mask_fold_bit:
  "bit (foldl (\<lambda>mask cap. mask OR capability_bit cap) m cs) n \<longleftrightarrow>
   bit m n \<or> (\<exists>c \<in> set cs. n = capability_index c)"
  by (induction cs arbitrary: m) (auto simp: bit_simps bit_capability_bit)

lemma mask_from_bit:
  "bit (mask_from_capabilities cs) n \<longleftrightarrow> (\<exists>c \<in> set cs. n = capability_index c)"
  by (simp add: mask_from_capabilities_def mask_fold_bit)

lemma mask_from_has [simp]: "mask_has (mask_from_capabilities cs) c \<longleftrightarrow> c \<in> set cs"
  by (auto simp: mask_has_bit mask_from_bit capability_index_inj)

lemma mask_and_has [simp]: "mask_has (a AND b) c \<longleftrightarrow> mask_has a c \<and> mask_has b c"
  by (simp add: mask_has_bit bit_simps)

lemma mask_satisfies_has:
  "mask_satisfies m (mask_from_capabilities cs) \<longleftrightarrow> (\<forall>c \<in> set cs. mask_has m c)"
  by (auto simp: mask_satisfies_def mask_contains_bits mask_from_bit mask_has_bit)

lemma grant_request_has:
  "grant_has (grant_request required granted) c \<longleftrightarrow> c \<in> set required \<and> mask_has granted c"
  by (simp add: grant_has_def grant_request_def)

lemma grant_request_denied:
  "c \<in> set (grant_denied (grant_request required granted)) \<longleftrightarrow>
   c \<in> set required \<and> \<not> mask_has granted c"
  by (auto simp: grant_request_def)

lemma grant_request_full:
  "grant_is_fully_granted (grant_request required granted) \<longleftrightarrow>
   mask_satisfies granted (mask_from_capabilities required)"
  by (auto simp: grant_is_fully_granted_def grant_request_def mask_satisfies_has filter_empty_conv)

text \<open>
  A capability grant is exact: the module holds precisely the capabilities that it requires
  and the policy allows, is told precisely those it requires and the policy refuses, and is
  fully granted exactly when nothing is refused. The thirteen flags never overlap.
\<close>

theorem capability_grant_exact:
  "grant_has (grant_request required granted) c = (c \<in> set required \<and> mask_has granted c) \<and>
   (c \<in> set (grant_denied (grant_request required granted))) = (c \<in> set required \<and> \<not> mask_has granted c) \<and>
   grant_is_fully_granted (grant_request required granted) = (set required \<subseteq> {d. mask_has granted d}) \<and>
   (capability_bit c AND capability_bit d \<noteq> 0) = (c = d)"
proof (intro conjI)
  show "grant_is_fully_granted (grant_request required granted) = (set required \<subseteq> {d. mask_has granted d})"
    by (auto simp: grant_request_full mask_satisfies_has)
  have "(capability_bit c AND capability_bit d \<noteq> 0) \<longleftrightarrow> (\<exists>n. n = capability_index c \<and> n = capability_index d)"
    unfolding bit_eq_iff [of "capability_bit c AND capability_bit d"]
    using capability_index_less [of d] by (auto simp: bit_and_iff bit_capability_bit)
  then show "(capability_bit c AND capability_bit d \<noteq> 0) = (c = d)"
    by (simp add: capability_index_inj)
qed (simp_all add: grant_request_has grant_request_denied)

end
