(* ===== verification/Tags.thy ===== *)
theory Tags
  imports Prelude
begin

unbundle bit_operations_syntax

text \<open>
  Packet tags (\<open>crates/nyarix-packet/src/tags.rs\<close>): a set of flags held in a 32-bit word. The
  \<open>bitflags\<close> macro gives the type its set operations; they are the bitwise ones.
\<close>

type_synonym tags = u32

text \<open>The flags in declaration order.\<close>

definition TAGS_INTERACTIVE :: tags where
  "TAGS_INTERACTIVE = push_bit 0 1"

definition TAGS_BULK :: tags where
  "TAGS_BULK = push_bit 1 1"

definition TAGS_CONTROL :: tags where
  "TAGS_CONTROL = push_bit 2 1"

definition TAGS_DIAGNOSTIC :: tags where
  "TAGS_DIAGNOSTIC = push_bit 3 1"

definition TAGS_HANDSHAKE :: tags where
  "TAGS_HANDSHAKE = push_bit 4 1"

definition TAGS_HEARTBEAT :: tags where
  "TAGS_HEARTBEAT = push_bit 5 1"

definition TAGS_REKEY :: tags where
  "TAGS_REKEY = push_bit 6 1"

definition TAGS_SHUTDOWN :: tags where
  "TAGS_SHUTDOWN = push_bit 7 1"

definition TAGS_ROAMING :: tags where
  "TAGS_ROAMING = push_bit 8 1"

definition TAGS_FALLBACK :: tags where
  "TAGS_FALLBACK = push_bit 9 1"

definition TAGS_RETRANSMIT :: tags where
  "TAGS_RETRANSMIT = push_bit 10 1"

definition TAGS_FRAGMENT :: tags where
  "TAGS_FRAGMENT = push_bit 11 1"

definition TAGS_LAST_FRAGMENT :: tags where
  "TAGS_LAST_FRAGMENT = push_bit 12 1"

definition TAGS_HIGH_PRIORITY :: tags where
  "TAGS_HIGH_PRIORITY = push_bit 13 1"

definition TAGS_LOW_PRIORITY :: tags where
  "TAGS_LOW_PRIORITY = push_bit 14 1"

definition TAGS_FLOW_START :: tags where
  "TAGS_FLOW_START = push_bit 15 1"

definition TAGS_FLOW_END :: tags where
  "TAGS_FLOW_END = push_bit 16 1"

definition TAGS_LOCAL_ONLY :: tags where
  "TAGS_LOCAL_ONLY = push_bit 17 1"

lemmas tags_consts =
  TAGS_INTERACTIVE_def
  TAGS_BULK_def
  TAGS_CONTROL_def
  TAGS_DIAGNOSTIC_def
  TAGS_HANDSHAKE_def
  TAGS_HEARTBEAT_def
  TAGS_REKEY_def
  TAGS_SHUTDOWN_def
  TAGS_ROAMING_def
  TAGS_FALLBACK_def
  TAGS_RETRANSMIT_def
  TAGS_FRAGMENT_def
  TAGS_LAST_FRAGMENT_def
  TAGS_HIGH_PRIORITY_def
  TAGS_LOW_PRIORITY_def
  TAGS_FLOW_START_def
  TAGS_FLOW_END_def
  TAGS_LOCAL_ONLY_def

definition tags_contains :: "tags \<Rightarrow> tags \<Rightarrow> bool" where
  "tags_contains self other \<longleftrightarrow> self AND other = other"

definition tags_intersects :: "tags \<Rightarrow> tags \<Rightarrow> bool" where
  "tags_intersects self other \<longleftrightarrow> self AND other \<noteq> 0"

definition tags_insert :: "tags \<Rightarrow> tags \<Rightarrow> tags" where
  "tags_insert self other = self OR other"

definition tags_new :: tags where
  "tags_new = 0"

datatype tag =
    TagInteractive
  | TagBulk
  | TagControl
  | TagDiagnostic
  | TagHandshake
  | TagHeartbeat
  | TagRekey
  | TagShutdown
  | TagRoaming
  | TagFallback
  | TagRetransmit
  | TagFragment
  | TagLastFragment
  | TagHighPriority
  | TagLowPriority
  | TagFlowStart
  | TagFlowEnd
  | TagLocalOnly

fun insert_tag :: "tag \<Rightarrow> tags \<Rightarrow> tags" where
  "insert_tag TagInteractive self = tags_insert self TAGS_INTERACTIVE"
| "insert_tag TagBulk self = tags_insert self TAGS_BULK"
| "insert_tag TagControl self = tags_insert self TAGS_CONTROL"
| "insert_tag TagDiagnostic self = tags_insert self TAGS_DIAGNOSTIC"
| "insert_tag TagHandshake self = tags_insert self TAGS_HANDSHAKE"
| "insert_tag TagHeartbeat self = tags_insert self TAGS_HEARTBEAT"
| "insert_tag TagRekey self = tags_insert self TAGS_REKEY"
| "insert_tag TagShutdown self = tags_insert self TAGS_SHUTDOWN"
| "insert_tag TagRoaming self = tags_insert self TAGS_ROAMING"
| "insert_tag TagFallback self = tags_insert self TAGS_FALLBACK"
| "insert_tag TagRetransmit self = tags_insert self TAGS_RETRANSMIT"
| "insert_tag TagFragment self = tags_insert self TAGS_FRAGMENT"
| "insert_tag TagLastFragment self = tags_insert self TAGS_LAST_FRAGMENT"
| "insert_tag TagHighPriority self = tags_insert self TAGS_HIGH_PRIORITY"
| "insert_tag TagLowPriority self = tags_insert self TAGS_LOW_PRIORITY"
| "insert_tag TagFlowStart self = tags_insert self TAGS_FLOW_START"
| "insert_tag TagFlowEnd self = tags_insert self TAGS_FLOW_END"
| "insert_tag TagLocalOnly self = tags_insert self TAGS_LOCAL_ONLY"

fun has_tag :: "tags \<Rightarrow> tag \<Rightarrow> bool" where
  "has_tag self TagInteractive = tags_contains self TAGS_INTERACTIVE"
| "has_tag self TagBulk = tags_contains self TAGS_BULK"
| "has_tag self TagControl = tags_contains self TAGS_CONTROL"
| "has_tag self TagDiagnostic = tags_contains self TAGS_DIAGNOSTIC"
| "has_tag self TagHandshake = tags_contains self TAGS_HANDSHAKE"
| "has_tag self TagHeartbeat = tags_contains self TAGS_HEARTBEAT"
| "has_tag self TagRekey = tags_contains self TAGS_REKEY"
| "has_tag self TagShutdown = tags_contains self TAGS_SHUTDOWN"
| "has_tag self TagRoaming = tags_contains self TAGS_ROAMING"
| "has_tag self TagFallback = tags_contains self TAGS_FALLBACK"
| "has_tag self TagRetransmit = tags_contains self TAGS_RETRANSMIT"
| "has_tag self TagFragment = tags_contains self TAGS_FRAGMENT"
| "has_tag self TagLastFragment = tags_contains self TAGS_LAST_FRAGMENT"
| "has_tag self TagHighPriority = tags_contains self TAGS_HIGH_PRIORITY"
| "has_tag self TagLowPriority = tags_contains self TAGS_LOW_PRIORITY"
| "has_tag self TagFlowStart = tags_contains self TAGS_FLOW_START"
| "has_tag self TagFlowEnd = tags_contains self TAGS_FLOW_END"
| "has_tag self TagLocalOnly = tags_contains self TAGS_LOCAL_ONLY"

definition is_interactive :: "tags \<Rightarrow> bool" where
  "is_interactive self = tags_contains self TAGS_INTERACTIVE"

definition is_control :: "tags \<Rightarrow> bool" where
  "is_control self = tags_contains self TAGS_CONTROL"

definition is_handshake :: "tags \<Rightarrow> bool" where
  "is_handshake self = tags_contains self TAGS_HANDSHAKE"

subsection \<open>Tags as a set of bits\<close>

text \<open>The bit of a tag, which the proofs use in place of the case distinctions.\<close>

fun tag_index :: "tag \<Rightarrow> nat" where
  "tag_index TagInteractive = 0"
| "tag_index TagBulk = 1"
| "tag_index TagControl = 2"
| "tag_index TagDiagnostic = 3"
| "tag_index TagHandshake = 4"
| "tag_index TagHeartbeat = 5"
| "tag_index TagRekey = 6"
| "tag_index TagShutdown = 7"
| "tag_index TagRoaming = 8"
| "tag_index TagFallback = 9"
| "tag_index TagRetransmit = 10"
| "tag_index TagFragment = 11"
| "tag_index TagLastFragment = 12"
| "tag_index TagHighPriority = 13"
| "tag_index TagLowPriority = 14"
| "tag_index TagFlowStart = 15"
| "tag_index TagFlowEnd = 16"
| "tag_index TagLocalOnly = 17"

lemma tag_index_less: "tag_index t < 32"
  by (cases t) simp_all

lemma tag_index_inj: "tag_index t = tag_index u \<longleftrightarrow> t = u"
  by (cases t) (cases u, simp_all)+

lemma single_bit_contains:
  "i < 32 \<Longrightarrow> (self :: u32) AND push_bit i 1 = push_bit i 1 \<longleftrightarrow> bit self i"
  by (auto simp: word_bits_eq bit_simps)

lemma has_tag_bit: "has_tag self t \<longleftrightarrow> bit self (tag_index t)"
proof -
  have "has_tag self t \<longleftrightarrow> self AND push_bit (tag_index t) 1 = push_bit (tag_index t) 1"
    by (cases t) (simp_all only: has_tag.simps tag_index.simps tags_contains_def tags_consts)
  then show ?thesis
    using single_bit_contains [OF tag_index_less] by simp
qed

lemma insert_tag_bit: "bit (insert_tag t self) i \<longleftrightarrow> bit self i \<or> i = tag_index t"
  by (cases t) (auto simp: tags_insert_def tags_consts bit_simps simp del: push_bit_numeral push_bit_of_1)

lemma has_tag_insert [simp]: "has_tag (insert_tag t self) u \<longleftrightarrow> has_tag self u \<or> u = t"
  by (auto simp: has_tag_bit insert_tag_bit tag_index_inj)

lemma has_tag_new [simp]: "\<not> has_tag tags_new t"
  by (simp add: has_tag_bit tags_new_def)

lemma insert_tag_idem: "has_tag self t \<Longrightarrow> insert_tag t self = self"
  by (auto simp: has_tag_bit insert_tag_bit word_bits_eq)

lemma is_control_has_tag: "is_control self = has_tag self TagControl"
  by (simp add: is_control_def)

lemma fold_insert_tag_bit:
  "bit (fold insert_tag ts self) i \<longleftrightarrow> bit self i \<or> (\<exists>t \<in> set ts. i = tag_index t)"
  by (induction ts arbitrary: self) (auto simp: insert_tag_bit)

text \<open>
  A packet's tags after any sequence of insertions into an empty set are exactly the tags
  inserted, whatever their order and repetition: no flag overlaps another, the word is
  determined by the set of tags.
\<close>

theorem tags_are_a_set:
  "(\<forall>t. has_tag (fold insert_tag ts tags_new) t = (t \<in> set ts)) \<and>
   (fold insert_tag ts tags_new = fold insert_tag us tags_new) = (set ts = set us)"
proof
  show members: "\<forall>t. has_tag (fold insert_tag ts tags_new) t = (t \<in> set ts)"
    by (auto simp: has_tag_bit fold_insert_tag_bit tags_new_def tag_index_inj)
  have members_us: "has_tag (fold insert_tag us tags_new) t = (t \<in> set us)" for t
    by (auto simp: has_tag_bit fold_insert_tag_bit tags_new_def tag_index_inj)
  have "fold insert_tag ts tags_new = fold insert_tag us tags_new" if "set ts = set us"
    using that by (simp add: word_bits_eq fold_insert_tag_bit)
  with members members_us
  show "(fold insert_tag ts tags_new = fold insert_tag us tags_new) = (set ts = set us)"
    by (metis subsetI subset_antisym)
qed

end
