(* ===== verification/Packets.thy ===== *)
theory Packets
  imports Core_Types Tags
begin

text \<open>
  Packets (\<open>crates/nyarix-packet/src\<close>): payloads, metadata and the packet itself. A packet is
  shared behind an \<open>Arc\<close> and copied before the first write, so it is a value here.

  A \<open>Bytes\<close> buffer is its contents. An \<open>Instant\<close> is a whole number of nanoseconds, and reading
  the clock or drawing a fresh identifier is an argument of the operation that does it.
\<close>

subsection \<open>Payloads\<close>

type_synonym bytes = "u8 list"

datatype payload = Payload (payload_bytes: bytes)

definition payload_empty :: payload where
  "payload_empty = Payload []"

definition payload_from_bytes :: "bytes \<Rightarrow> payload" where
  "payload_from_bytes bs = Payload bs"

definition payload_from_vec :: "u8 list \<Rightarrow> payload" where
  "payload_from_vec v = Payload v"

definition payload_from_static :: "u8 list \<Rightarrow> payload" where
  "payload_from_static sl = Payload sl"

definition payload_as_bytes :: "payload \<Rightarrow> u8 list" where
  "payload_as_bytes p = payload_bytes p"

definition payload_len :: "payload \<Rightarrow> usize" where
  "payload_len p = length (payload_bytes p)"

definition payload_is_empty :: "payload \<Rightarrow> bool" where
  "payload_is_empty p \<longleftrightarrow> payload_bytes p = []"

text \<open>A range of the standard library; slicing outside the buffer panics.\<close>

datatype bound = Included nat | Excluded nat | Unbounded

fun range_start :: "bound \<Rightarrow> nat" where
  "range_start (Included n) = n"
| "range_start (Excluded n) = Suc n"
| "range_start Unbounded = 0"

fun range_end :: "nat \<Rightarrow> bound \<Rightarrow> nat" where
  "range_end len (Included n) = Suc n"
| "range_end len (Excluded n) = n"
| "range_end len Unbounded = len"

definition payload_slice :: "payload \<Rightarrow> bound \<times> bound \<Rightarrow> payload outcome" where
  "payload_slice p r =
     (let lo = range_start (fst r); hi = range_end (payload_len p) (snd r)
      in if lo \<le> hi \<and> hi \<le> payload_len p
         then Ret (Payload (take (hi - lo) (drop lo (payload_bytes p))))
         else Panic ''range out of bounds'')"

definition payload_split_off :: "payload \<Rightarrow> nat \<Rightarrow> (payload \<times> payload) outcome" where
  "payload_split_off p at =
     obind (payload_slice p (Included at, Unbounded)) (\<lambda>right.
     obind (payload_slice p (Unbounded, Excluded at)) (\<lambda>left. Ret (left, right)))"

definition payload_into_bytes :: "payload \<Rightarrow> bytes" where
  "payload_into_bytes p = payload_bytes p"

text \<open>The builder: a growing buffer, frozen into a payload.\<close>

datatype payload_builder = PayloadBuilder (builder_buf: "u8 list")

definition builder_new :: payload_builder where
  "builder_new = PayloadBuilder []"

definition builder_extend :: "u8 list \<Rightarrow> payload_builder \<Rightarrow> payload_builder" where
  "builder_extend data b = PayloadBuilder (builder_buf b @ data)"

definition builder_len :: "payload_builder \<Rightarrow> usize" where
  "builder_len b = length (builder_buf b)"

definition builder_build :: "payload_builder \<Rightarrow> payload" where
  "builder_build b = Payload (builder_buf b)"

lemma payload_split_off_append:
  "at \<le> payload_len p \<Longrightarrow>
   payload_split_off p at = Ret (Payload (take at (payload_bytes p)), Payload (drop at (payload_bytes p)))"
  by (simp add: payload_split_off_def payload_slice_def payload_len_def Let_def)

lemma payload_split_off_panics:
  "payload_len p < at \<Longrightarrow> \<exists>m. payload_split_off p at = Panic m"
  by (simp add: payload_split_off_def payload_slice_def payload_len_def Let_def)

lemma builder_extends_build:
  "payload_bytes (builder_build (fold builder_extend ds b)) = builder_buf b @ concat ds"
  by (induction ds arbitrary: b) (simp_all add: builder_build_def builder_extend_def)

subsection \<open>Metadata\<close>

datatype role = Client | Server | Relay | Gateway
datatype reliability = BestEffort | Reliable | AtMostOnce
datatype privacy_policy = NoPrivacy | StandardPrivacy | MaximumPrivacy | MinimalPrivacy

definition DEFAULT_TTL :: u8 where
  "DEFAULT_TTL = 32"

type_synonym instant = int

text \<open>
  The type of the two time stamps is a parameter: instants in a packet, relative milliseconds
  in its serialized form.
\<close>

record 't metadata_of =
  md_session_id :: session_id
  md_flow_id :: flow_id
  md_stream_id :: stream_id
  md_route_id :: route_id
  md_source_node :: "node_id option"
  md_destination_node :: "node_id option"
  md_source_role :: "role option"
  md_destination_role :: "role option"
  md_priority :: u8
  md_deadline :: "'t option"
  md_mtu_hint :: "u16 option"
  md_latency_hint_us :: "u64 option"
  md_reliability :: reliability
  md_created_at :: 't
  md_ttl :: u8
  md_retry_count :: u8
  md_origin_module :: "module_id option"
  md_trace :: "node_id list"
  md_traced :: bool
  md_trace_detailed :: bool
  md_trace_timestamps_ms :: "u64 list"
  md_privacy_policy :: privacy_policy
  md_capability_mask :: u64

type_synonym metadata = "instant metadata_of"
type_synonym metadata_wire = "u64 metadata_of"

text \<open>What the environment supplies when metadata or a packet is made.\<close>

record fresh =
  fr_packet :: packet_id
  fr_session :: session_id
  fr_flow :: flow_id
  fr_stream :: stream_id
  fr_now :: instant

definition metadata_new :: "fresh \<Rightarrow> metadata" where
  "metadata_new f = \<lparr>
     md_session_id = fr_session f, md_flow_id = fr_flow f, md_stream_id = fr_stream f,
     md_route_id = route_id_nil, md_source_node = None, md_destination_node = None,
     md_source_role = None, md_destination_role = None, md_priority = 128, md_deadline = None,
     md_mtu_hint = None, md_latency_hint_us = None, md_reliability = BestEffort,
     md_created_at = fr_now f, md_ttl = DEFAULT_TTL, md_retry_count = 0,
     md_origin_module = None, md_trace = [], md_traced = False, md_trace_detailed = False,
     md_trace_timestamps_ms = [], md_privacy_policy = NoPrivacy, md_capability_mask = 0 \<rparr>"

definition with_session :: "session_id \<Rightarrow> metadata \<Rightarrow> metadata" where
  "with_session i m = m\<lparr>md_session_id := i\<rparr>"

definition with_flow :: "flow_id \<Rightarrow> metadata \<Rightarrow> metadata" where
  "with_flow i m = m\<lparr>md_flow_id := i\<rparr>"

definition with_source :: "node_id \<Rightarrow> metadata \<Rightarrow> metadata" where
  "with_source n m = m\<lparr>md_source_node := Some n\<rparr>"

definition with_destination :: "node_id \<Rightarrow> metadata \<Rightarrow> metadata" where
  "with_destination n m = m\<lparr>md_destination_node := Some n\<rparr>"

definition trace_push :: "node_id \<Rightarrow> metadata \<Rightarrow> metadata" where
  "trace_push n m = m\<lparr>md_trace := md_trace m @ [n]\<rparr>"

definition with_tracing :: "bool \<Rightarrow> metadata \<Rightarrow> metadata" where
  "with_tracing detailed m = m\<lparr>md_traced := True, md_trace_detailed := detailed\<rparr>"

definition nanos_per_milli :: int where
  "nanos_per_milli = 1000000"

definition millis_between :: "instant \<Rightarrow> instant \<Rightarrow> u64" where
  "millis_between later earlier = u64_of_usize (nat ((later - earlier) div nanos_per_milli))"

definition record_hop :: "instant \<Rightarrow> node_id \<Rightarrow> metadata \<Rightarrow> metadata" where
  "record_hop now n m =
     (if \<not> md_traced m then m
      else let m' = m\<lparr>md_trace := md_trace m @ [n]\<rparr>
           in if md_trace_detailed m'
              then m'\<lparr>md_trace_timestamps_ms :=
                       md_trace_timestamps_ms m' @ [millis_between now (md_created_at m')]\<rparr>
              else m')"

datatype trace_hop = TraceHop (hop_node: node_id) (hop_elapsed_ms: "u64 option")

definition trace_summary :: "metadata \<Rightarrow> trace_hop list" where
  "trace_summary m =
     map (\<lambda>(i, n). TraceHop n
            (if i < length (md_trace_timestamps_ms m) then Some (md_trace_timestamps_ms m ! i)
             else None))
         (enumerate 0 (md_trace m))"

definition reset_ttl :: "metadata \<Rightarrow> metadata" where
  "reset_ttl m = m\<lparr>md_ttl := DEFAULT_TTL\<rparr>"

definition is_expired :: "instant \<Rightarrow> metadata \<Rightarrow> bool" where
  "is_expired now m \<longleftrightarrow>
     (if md_ttl m = 0 then True
      else case md_deadline m of Some d \<Rightarrow> d \<le> now | None \<Rightarrow> False)"

text \<open>
  Every recorded hop appends to the trace, and to the time stamps in detailed mode: a packet
  whose tracing is detailed from its first hop has one time stamp per hop.
\<close>

definition trace_parallel :: "metadata \<Rightarrow> bool" where
  "trace_parallel m \<longleftrightarrow>
     (if md_trace_detailed m then length (md_trace_timestamps_ms m) = length (md_trace m)
      else md_trace_timestamps_ms m = [])"

definition record_hops :: "(instant \<times> node_id) list \<Rightarrow> metadata \<Rightarrow> metadata" where
  "record_hops hs m = fold (\<lambda>(t, n). record_hop t n) hs m"

lemma record_hop_parallel [wf_intros]: "trace_parallel m \<Longrightarrow> trace_parallel (record_hop t n m)"
  by (auto simp: trace_parallel_def record_hop_def Let_def)

lemma record_hop_trace:
  "md_trace (record_hop t n m) = (if md_traced m then md_trace m @ [n] else md_trace m)"
  by (simp add: record_hop_def Let_def)

lemma record_hop_flags [simp]:
  "md_traced (record_hop t n m) = md_traced m"
  "md_trace_detailed (record_hop t n m) = md_trace_detailed m"
  "md_ttl (record_hop t n m) = md_ttl m"
  "md_priority (record_hop t n m) = md_priority m"
  "md_created_at (record_hop t n m) = md_created_at m"
  by (simp_all add: record_hop_def Let_def)

lemma record_hops_trace:
  "md_trace (record_hops hs m) = (if md_traced m then md_trace m @ map snd hs else md_trace m)"
  by (induction hs arbitrary: m) (auto simp: record_hops_def record_hop_trace)

lemma record_hops_parallel: "trace_parallel m \<Longrightarrow> trace_parallel (record_hops hs m)"
  by (induction hs arbitrary: m) (auto simp: record_hops_def record_hop_parallel)

lemma record_hops_stamps:
  "md_trace_timestamps_ms (record_hops hs m) = md_trace_timestamps_ms m @
     (if md_traced m \<and> md_trace_detailed m
      then map (\<lambda>(t, n). millis_between t (md_created_at m)) hs else [])"
  by (induction hs arbitrary: m) (auto simp: record_hops_def record_hop_def Let_def)

subsection \<open>Packets\<close>

record packet =
  pk_id :: packet_id
  pk_payload :: payload
  pk_metadata :: metadata
  pk_tags :: tags

definition packet_new :: "fresh \<Rightarrow> payload \<Rightarrow> packet" where
  "packet_new f pl =
     \<lparr>pk_id = fr_packet f, pk_payload = pl, pk_metadata = metadata_new f, pk_tags = tags_new\<rparr>"

definition packet_with_metadata :: "fresh \<Rightarrow> payload \<Rightarrow> metadata \<Rightarrow> packet" where
  "packet_with_metadata f pl m =
     \<lparr>pk_id = fr_packet f, pk_payload = pl, pk_metadata = m, pk_tags = tags_new\<rparr>"

definition packet_reset_id :: "packet_id \<Rightarrow> packet \<Rightarrow> packet" where
  "packet_reset_id i p = p\<lparr>pk_id := i\<rparr>"

definition packet_len :: "packet \<Rightarrow> usize" where
  "packet_len p = payload_len (pk_payload p)"

definition packet_set_payload :: "payload \<Rightarrow> packet \<Rightarrow> packet" where
  "packet_set_payload pl p = p\<lparr>pk_payload := pl\<rparr>"

definition packet_take_payload :: "packet \<Rightarrow> payload \<times> packet" where
  "packet_take_payload p = (pk_payload p, p\<lparr>pk_payload := payload_empty\<rparr>)"

definition packet_take_bytes :: "packet \<Rightarrow> bytes \<times> packet" where
  "packet_take_bytes p =
     (payload_into_bytes (pk_payload p), p\<lparr>pk_payload := payload_empty\<rparr>)"

definition packet_tag :: "tag \<Rightarrow> packet \<Rightarrow> packet" where
  "packet_tag t p = p\<lparr>pk_tags := insert_tag t (pk_tags p)\<rparr>"

definition packet_has_tag :: "packet \<Rightarrow> tag \<Rightarrow> bool" where
  "packet_has_tag p t = has_tag (pk_tags p) t"

definition packet_update_metadata :: "(metadata \<Rightarrow> metadata) \<Rightarrow> packet \<Rightarrow> packet" where
  "packet_update_metadata f p = p\<lparr>pk_metadata := f (pk_metadata p)\<rparr>"

definition packet_ttl :: "packet \<Rightarrow> u8" where
  "packet_ttl p = md_ttl (pk_metadata p)"

definition packet_trace_id :: "packet \<Rightarrow> flow_id" where
  "packet_trace_id p = md_flow_id (pk_metadata p)"

definition packet_decrement_ttl :: "packet \<Rightarrow> bool \<times> packet" where
  "packet_decrement_ttl p =
     (if md_ttl (pk_metadata p) = 0 then (False, p)
      else let p' = packet_update_metadata (\<lambda>m. m\<lparr>md_ttl := md_ttl m - 1\<rparr>) p
           in (0 < md_ttl (pk_metadata p'), p'))"

text \<open>Decrementing \<open>k\<close> times, with the last answer.\<close>

fun decrement_times :: "nat \<Rightarrow> packet \<Rightarrow> bool \<times> packet" where
  "decrement_times 0 p = (0 < packet_ttl p, p)"
| "decrement_times (Suc k) p = (let (a, p') = decrement_times k p in packet_decrement_ttl p')"

lemma word_minus_one_unat: "(w :: 'a::len word) \<noteq> 0 \<Longrightarrow> unat (w - 1) = unat w - 1"
  by (simp add: unat_minus_one)

lemma word_gt_minus_one: "(w :: 'a::len word) \<noteq> 0 \<Longrightarrow> 0 < w - 1 \<longleftrightarrow> 1 < unat w"
  by (simp add: word_less_nat_alt word_minus_one_unat)

lemma decrement_ttl_spec:
  "packet_decrement_ttl p = (a, p') \<Longrightarrow>
   unat (packet_ttl p') = unat (packet_ttl p) - 1 \<and> (a \<longleftrightarrow> 1 < unat (packet_ttl p))"
  by (cases "md_ttl (pk_metadata p) = 0")
    (auto simp: packet_decrement_ttl_def packet_update_metadata_def packet_ttl_def Let_def
      word_minus_one_unat word_gt_minus_one)

lemma decrement_times_ttl:
  "unat (packet_ttl (snd (decrement_times k p))) = unat (packet_ttl p) - k"
proof (induction k)
  case 0
  then show ?case by simp
next
  case (Suc k)
  obtain a q where q: "decrement_times k p = (a, q)"
    by fastforce
  obtain b r where r: "packet_decrement_ttl q = (b, r)"
    by fastforce
  from decrement_ttl_spec [OF r] Suc q r show ?case
    by simp
qed

lemma decrement_times_alive:
  "fst (decrement_times k p) \<longleftrightarrow> k < unat (packet_ttl p)"
proof (cases k)
  case 0
  then show ?thesis by (simp add: word_less_nat_alt)
next
  case (Suc j)
  obtain a q where q: "decrement_times j p = (a, q)"
    by fastforce
  obtain b r where r: "packet_decrement_ttl q = (b, r)"
    by fastforce
  have "unat (packet_ttl q) = unat (packet_ttl p) - j"
    using decrement_times_ttl [of j p] q by simp
  with decrement_ttl_spec [OF r] q r Suc show ?thesis
    by auto
qed

subsection \<open>Serialization\<close>

text \<open>
  The two instants are written as milliseconds relative to the clock at encoding, and read
  back relative to the clock at decoding; the wire form is handed to \<open>bincode\<close>, which is an
  argument of the two operations.
\<close>

definition created_at_serialize :: "instant \<Rightarrow> instant \<Rightarrow> u64" where
  "created_at_serialize now value = millis_between now value"

definition created_at_deserialize :: "instant \<Rightarrow> u64 \<Rightarrow> instant" where
  "created_at_deserialize now ms_ago = now - int (unat ms_ago) * nanos_per_milli"

definition deadline_serialize :: "instant \<Rightarrow> instant option \<Rightarrow> u64 option" where
  "deadline_serialize now value = map_option (\<lambda>d. millis_between d now) value"

definition deadline_deserialize :: "instant \<Rightarrow> u64 option \<Rightarrow> instant option" where
  "deadline_deserialize now ms = map_option (\<lambda>n. now + int (unat n) * nanos_per_milli) ms"

definition map_times :: "('s option \<Rightarrow> 't option) \<Rightarrow> ('s \<Rightarrow> 't) \<Rightarrow> 's metadata_of \<Rightarrow> 't metadata_of" where
  "map_times dl cr m = \<lparr>
     md_session_id = md_session_id m, md_flow_id = md_flow_id m, md_stream_id = md_stream_id m,
     md_route_id = md_route_id m, md_source_node = md_source_node m,
     md_destination_node = md_destination_node m, md_source_role = md_source_role m,
     md_destination_role = md_destination_role m, md_priority = md_priority m,
     md_deadline = dl (md_deadline m), md_mtu_hint = md_mtu_hint m,
     md_latency_hint_us = md_latency_hint_us m, md_reliability = md_reliability m,
     md_created_at = cr (md_created_at m), md_ttl = md_ttl m, md_retry_count = md_retry_count m,
     md_origin_module = md_origin_module m, md_trace = md_trace m, md_traced = md_traced m,
     md_trace_detailed = md_trace_detailed m,
     md_trace_timestamps_ms = md_trace_timestamps_ms m,
     md_privacy_policy = md_privacy_policy m, md_capability_mask = md_capability_mask m \<rparr>"

record packet_wire =
  pw_id :: packet_id
  pw_payload :: "u8 list"
  pw_metadata :: metadata_wire
  pw_tags :: tags

definition packet_encode :: "(packet_wire \<Rightarrow> u8 list) \<Rightarrow> instant \<Rightarrow> packet \<Rightarrow> u8 list" where
  "packet_encode bincode_encode now p =
     bincode_encode
       \<lparr>pw_id = pk_id p, pw_payload = payload_as_bytes (pk_payload p),
        pw_metadata = map_times (deadline_serialize now) (created_at_serialize now) (pk_metadata p),
        pw_tags = pk_tags p\<rparr>"

definition packet_decode ::
    "(u8 list \<Rightarrow> 'err + packet_wire) \<Rightarrow> instant \<Rightarrow> u8 list \<Rightarrow> 'err + packet" where
  "packet_decode bincode_decode now buf =
     (case bincode_decode buf of
        Inl e \<Rightarrow> Inl e
      | Inr w \<Rightarrow> Inr
          \<lparr>pk_id = pw_id w, pk_payload = payload_from_vec (pw_payload w),
           pk_metadata = map_times (deadline_deserialize now) (created_at_deserialize now) (pw_metadata w),
           pk_tags = pw_tags w\<rparr>)"

text \<open>What a round trip does to the two instants, and nothing else.\<close>

lemma packet_decode_encode:
  assumes "\<And>w. bincode_decode (bincode_encode w) = Inr w"
  shows "packet_decode bincode_decode now2 (packet_encode bincode_encode now1 p) =
    Inr (p\<lparr>pk_metadata := (pk_metadata p)
      \<lparr>md_deadline := map_option (\<lambda>d. now2 + int (unat (millis_between d now1)) * nanos_per_milli)
                     (md_deadline (pk_metadata p)),
       md_created_at := now2 - int (unat (millis_between now1 (md_created_at (pk_metadata p)))) * nanos_per_milli\<rparr>\<rparr>)"
  by (simp add: packet_decode_def packet_encode_def assms map_times_def payload_from_vec_def
      payload_as_bytes_def deadline_serialize_def deadline_deserialize_def option.map_comp o_def
      created_at_serialize_def created_at_deserialize_def)

text \<open>
  The distance of an instant from the clock as it is carried over: whole milliseconds, nothing for
  the wrong side of the clock, and no more than 64 bits hold.
\<close>

definition carried :: "int \<Rightarrow> int" where
  "carried d = min (max 0 (d div nanos_per_milli)) (2 ^ 64 - 1) * nanos_per_milli"

lemma millis_between_carried: "int (unat (millis_between later earlier)) * nanos_per_milli = carried (later - earlier)"
  by (simp add: millis_between_def carried_def unat_u64_of_usize nat_int_comparison of_nat_min max_def min_def)

lemma carried_past: "d \<le> 0 \<Longrightarrow> carried d = 0"
proof -
  assume "d \<le> 0"
  then have "d div nanos_per_milli \<le> 0"
    by (simp add: nanos_per_milli_def)
  then show ?thesis
    by (simp add: carried_def)
qed

lemma carried_close:
  assumes "0 \<le> d" "d < 2 ^ 63"
  shows "carried d \<le> d \<and> d < carried d + nanos_per_milli"
proof -
  have "0 \<le> d div nanos_per_milli" "d div nanos_per_milli \<le> 2 ^ 64 - 1"
    using assms by (simp_all add: nanos_per_milli_def pos_imp_zdiv_nonneg_iff)
  then have "carried d = d - d mod nanos_per_milli"
    by (simp add: carried_def minus_mod_eq_div_mult)
  then show ?thesis
    using pos_mod_bound [of nanos_per_milli d] pos_mod_sign [of nanos_per_milli d] by (simp add: nanos_per_milli_def)
qed

subsection \<open>The packet pool\<close>

text \<open>\<open>PacketPool\<close> (\<open>pool.rs\<close>); the mutex makes each operation one atomic step.\<close>

record packet_pool =
  pp_inner :: "packet list"
  pp_max_size :: usize

definition pool_new :: "usize \<Rightarrow> packet_pool" where
  "pool_new max_size = \<lparr>pp_inner = [], pp_max_size = max_size\<rparr>"

definition pool_acquire :: "fresh \<Rightarrow> packet_pool \<Rightarrow> packet \<times> packet_pool" where
  "pool_acquire f pool =
     (if pp_inner pool = [] then (packet_new f payload_empty, pool)
      else (last (pp_inner pool), pool\<lparr>pp_inner := butlast (pp_inner pool)\<rparr>))"

definition pool_release :: "packet_id \<Rightarrow> packet \<Rightarrow> packet_pool \<Rightarrow> packet_pool" where
  "pool_release new_id p pool =
     (let p' = packet_reset_id new_id (packet_set_payload payload_empty p)
      in if length (pp_inner pool) < pp_max_size pool
         then pool\<lparr>pp_inner := pp_inner pool @ [p']\<rparr> else pool)"

definition pool_available :: "packet_pool \<Rightarrow> usize" where
  "pool_available pool = length (pp_inner pool)"

definition pool_clear :: "packet_pool \<Rightarrow> packet_pool" where
  "pool_clear pool = pool\<lparr>pp_inner := []\<rparr>"

definition pool_inv :: "packet_pool \<Rightarrow> bool" where
  "pool_inv pool \<longleftrightarrow>
     length (pp_inner pool) \<le> pp_max_size pool \<and>
     list_all (\<lambda>p. pk_payload p = payload_empty) (pp_inner pool)"

datatype pool_op = PoolAcquire fresh | PoolRelease packet_id packet | PoolClear

fun pool_step :: "pool_op \<Rightarrow> packet_pool \<Rightarrow> packet_pool" where
  "pool_step (PoolAcquire f) pool = snd (pool_acquire f pool)"
| "pool_step (PoolRelease i p) pool = pool_release i p pool"
| "pool_step PoolClear pool = pool_clear pool"

lemma pool_new_inv [wf_intros]: "pool_inv (pool_new n)"
  by (simp add: pool_inv_def pool_new_def)

lemma pool_step_inv [wf_intros]: "pool_inv pool \<Longrightarrow> pool_inv (pool_step op pool)"
  by (cases op)
    (auto simp: pool_inv_def pool_acquire_def pool_release_def pool_clear_def Let_def
      packet_reset_id_def packet_set_payload_def list_all_iff dest: in_set_butlastD)

lemma pool_run_inv: "pool_inv pool \<Longrightarrow> pool_inv (fold pool_step ops pool)"
  by (induction ops arbitrary: pool) (auto intro: wf_intros)

lemma pool_step_max [simp]: "pp_max_size (pool_step op pool) = pp_max_size pool"
  by (cases op) (auto simp: pool_acquire_def pool_release_def pool_clear_def Let_def)

lemma pool_run_max: "pp_max_size (fold pool_step ops pool) = pp_max_size pool"
  by (induction ops arbitrary: pool) auto

lemma pool_acquire_empty:
  "pool_inv pool \<Longrightarrow> payload_len (pk_payload (fst (pool_acquire f pool))) = 0"
  by (auto simp: pool_inv_def pool_acquire_def payload_len_def packet_new_def payload_empty_def
      list_all_iff)

subsection \<open>Properties\<close>

text \<open>
  The time to live bounds a packet's life: after \<open>k\<close> decrements the counter has lost \<open>k\<close>,
  stopping at zero without wrapping round, and the packet is reported alive exactly as long as
  \<open>k\<close> is less than the counter's first value.
\<close>

theorem ttl_countdown:
  "unat (packet_ttl (snd (decrement_times k p))) = unat (packet_ttl p) - k \<and>
   fst (decrement_times k p) = (k < unat (packet_ttl p))"
  by (simp add: decrement_times_ttl decrement_times_alive)

text \<open>
  A traced packet's trace is its route: recording the hops of a run appends exactly their
  nodes in order, with one time stamp per hop when the trace is detailed; an untraced packet
  records nothing; and a trace with one stamp per hop stays so.
\<close>

theorem trace_records_route:
  "md_trace (record_hops hs m) = md_trace m @ (if md_traced m then map snd hs else []) \<and>
   length (md_trace_timestamps_ms (record_hops hs m)) = length (md_trace_timestamps_ms m) +
     (if md_traced m \<and> md_trace_detailed m then length hs else 0) \<and>
   (trace_parallel m \<longrightarrow> trace_parallel (record_hops hs m))"
  by (simp add: record_hops_trace record_hops_stamps record_hops_parallel)

theorem trace_records_route_witness:
  "md_trace (record_hops [(1, NodeId 1), (2, NodeId 2)]
      (with_tracing True (metadata_new \<lparr>fr_packet = PacketId 1, fr_session = SessionId 1, fr_flow = FlowId 1,
         fr_stream = StreamId 1, fr_now = 0\<rparr>))) = [NodeId 1, NodeId 2] \<and>
   trace_parallel (record_hops [(1, NodeId 1), (2, NodeId 2)]
      (with_tracing True (metadata_new \<lparr>fr_packet = PacketId 1, fr_session = SessionId 1, fr_flow = FlowId 1,
         fr_stream = StreamId 1, fr_now = 0\<rparr>)))"
  using trace_records_route [of "[(1, NodeId 1), (2, NodeId 2)]"
      "with_tracing True (metadata_new \<lparr>fr_packet = PacketId 1, fr_session = SessionId 1, fr_flow = FlowId 1,
         fr_stream = StreamId 1, fr_now = 0\<rparr>)"]
  by (simp add: with_tracing_def metadata_new_def trace_parallel_def)

text \<open>
  The packet pool never holds more than its maximum, whatever is acquired, released and
  cleared in whatever order, and a packet acquired from it never shows a previous payload.
\<close>

theorem pool_bounded_and_clean:
  "pool_available (fold pool_step ops (pool_new n)) \<le> n \<and>
   payload_len (pk_payload (fst (pool_acquire f (fold pool_step ops (pool_new n))))) = 0"
proof -
  have "pool_inv (fold pool_step ops (pool_new n))"
    by (intro pool_run_inv pool_new_inv)
  moreover have "pp_max_size (fold pool_step ops (pool_new n)) = n"
    by (simp add: pool_run_max) (simp add: pool_new_def)
  ultimately show ?thesis
    using pool_acquire_empty by (auto simp: pool_inv_def pool_available_def)
qed

text \<open>
  C40. Encoding and decoding a packet gives it back on a machine whose clock reads differently: every
  field but the two instants is the same, a packet without deadline has none, and a deadline and the
  time of creation keep their distance from the clock, rounded down to a millisecond. A deadline
  that has passed becomes the present, and so does a creation that lies in the future.
\<close>

theorem packet_roundtrip:
  assumes "\<And>w. bincode_decode (bincode_encode w) = Inr w"
  shows "\<exists>q. packet_decode bincode_decode now2 (packet_encode bincode_encode now1 p) = Inr q \<and>
    md_deadline (pk_metadata q) = map_option (\<lambda>d. now2 + carried (d - now1)) (md_deadline (pk_metadata p)) \<and>
    md_created_at (pk_metadata q) = now2 - carried (now1 - md_created_at (pk_metadata p)) \<and>
    q\<lparr>pk_metadata := (pk_metadata q)\<lparr>md_deadline := md_deadline (pk_metadata p),
        md_created_at := md_created_at (pk_metadata p)\<rparr>\<rparr> = p \<and>
    (\<forall>d. (d \<le> 0 \<longrightarrow> carried d = 0) \<and>
       (0 \<le> d \<longrightarrow> d < 2 ^ 63 \<longrightarrow> carried d \<le> d \<and> d < carried d + nanos_per_milli))"
  unfolding packet_decode_encode [OF assms] millis_between_carried
  using carried_past carried_close by simp

end
