(* ===== verification/Module_Api.thy ===== *)
theory Module_Api
  imports Core_Types Errors Versioning Capabilities Packets
begin

text \<open>
  The module interface (\<open>crates/nyarix-module-api/src\<close>): metadata, health, limits, the traits a
  module and a graph node implement.

  A trait object is the record of its operations. Its implementation is not code of this
  repository, so the record is an argument of every definition that calls it: \<open>'m\<close> is the
  module's own state, \<open>'ctx\<close> the runtime context it is handed, which it may change. A method
  may return an error, or panic. The version of a module is a value of the \<open>semver\<close> package,
  the type \<open>'v\<close>.
\<close>

subsection \<open>Metadata\<close>

datatype platform = Linux | Windows | MacOs | Android | Ios | UnknownPlatform

definition platform_current :: "string \<Rightarrow> platform" where
  "platform_current target_os =
     (if target_os = ''linux'' then Linux
      else if target_os = ''windows'' then Windows
      else if target_os = ''macos'' then MacOs
      else if target_os = ''android'' then Android
      else if target_os = ''ios'' then Ios
      else UnknownPlatform)"

datatype health = Healthy | Degraded string | Unhealthy string

definition health_default :: health where
  "health_default = Healthy"

datatype access_mode = ReadAccess | WriteAccess | ReadWriteAccess

datatype sandbox_permission =
    FilesystemPath string access_mode
  | NetworkAddress string "u16 option"

text \<open>A duration is a number of nanoseconds.\<close>

type_synonym duration = nat

record resource_limits =
  rl_max_memory_bytes :: "u64 option"
  rl_max_payload_bytes :: "u64 option"
  rl_max_cpu_percent :: "u8 option"
  rl_max_processing_time :: "duration option"

definition limits_unbounded :: resource_limits where
  "limits_unbounded = \<lparr>rl_max_memory_bytes = None, rl_max_payload_bytes = None,
     rl_max_cpu_percent = None, rl_max_processing_time = None\<rparr>"

datatype module_type =
  TransportModule | CryptoModule | FlowModule | ObfuscationModule | PolicyModule | ObservabilityModule

record 'v module_metadata =
  mm_name :: string
  mm_version :: 'v
  mm_module_type :: module_type
  mm_api_version :: api_version
  mm_author :: string
  mm_description :: string
  mm_required_capabilities :: "capability list"
  mm_provided_capabilities :: "capability list"
  mm_provided_tags :: "string list"
  mm_platforms :: "platform list"
  mm_resource_limits :: resource_limits
  mm_sandbox_permissions :: "sandbox_permission list"

definition module_metadata_new :: "string \<Rightarrow> 'v \<Rightarrow> module_type \<Rightarrow> 'v module_metadata" where
  "module_metadata_new name version mt = \<lparr>
     mm_name = name, mm_version = version, mm_module_type = mt,
     mm_api_version = api_version_new 1 0, mm_author = [], mm_description = [],
     mm_required_capabilities = [], mm_provided_capabilities = [], mm_provided_tags = [],
     mm_platforms = [], mm_resource_limits = limits_unbounded, mm_sandbox_permissions = [] \<rparr>"

definition with_required_capabilities :: "capability list \<Rightarrow> 'v module_metadata \<Rightarrow> 'v module_metadata" where
  "with_required_capabilities cs m = m\<lparr>mm_required_capabilities := cs\<rparr>"

definition with_provided_capabilities :: "capability list \<Rightarrow> 'v module_metadata \<Rightarrow> 'v module_metadata" where
  "with_provided_capabilities cs m = m\<lparr>mm_provided_capabilities := cs\<rparr>"

definition with_sandbox_permissions :: "sandbox_permission list \<Rightarrow> 'v module_metadata \<Rightarrow> 'v module_metadata" where
  "with_sandbox_permissions ps m = m\<lparr>mm_sandbox_permissions := ps\<rparr>"

definition required_capabilities_mask :: "'v module_metadata \<Rightarrow> capability_mask" where
  "required_capabilities_mask m = mask_from_capabilities (mm_required_capabilities m)"

definition with_provided_tags :: "string list \<Rightarrow> 'v module_metadata \<Rightarrow> 'v module_metadata" where
  "with_provided_tags ts m = m\<lparr>mm_provided_tags := ts\<rparr>"

definition with_platforms :: "platform list \<Rightarrow> 'v module_metadata \<Rightarrow> 'v module_metadata" where
  "with_platforms ps m = m\<lparr>mm_platforms := ps\<rparr>"

definition with_resource_limits :: "resource_limits \<Rightarrow> 'v module_metadata \<Rightarrow> 'v module_metadata" where
  "with_resource_limits l m = m\<lparr>mm_resource_limits := l\<rparr>"

subsection \<open>Modules and nodes\<close>

datatype node_type =
    Source | Transformer | Filter | Encryptor | Packer | Obfuscator | TransportNode | Router
  | Aggregator | Observer | PolicyResolver | Sink

record ('v, 'm, 'ctx) node_ops =
  op_metadata :: "'m \<Rightarrow> 'v module_metadata"
  op_initialize :: "'ctx \<Rightarrow> 'm \<Rightarrow> (module_error + unit) outcome \<times> 'm \<times> 'ctx"
  op_process :: "packet \<Rightarrow> 'm \<Rightarrow> (module_error + packet option) outcome \<times> 'm"
  op_shutdown :: "'ctx \<Rightarrow> 'm \<Rightarrow> (module_error + unit) outcome \<times> 'm \<times> 'ctx"
  op_health :: "'m \<Rightarrow> health"
  op_migrate :: "'ctx \<Rightarrow> 'm \<Rightarrow> (module_error + unit) outcome \<times> 'm \<times> 'ctx"
  op_supports_migration :: "'m \<Rightarrow> bool"
  op_node_type :: "'m \<Rightarrow> node_type"
  op_input_queue_depth :: "'m \<Rightarrow> usize"
  op_output_connections :: "'m \<Rightarrow> node_id list"

text \<open>The bodies the \<open>Module\<close> trait gives to the methods a module does not write.\<close>

definition default_health :: "'m \<Rightarrow> health" where
  "default_health m = Healthy"

definition default_migrate :: "'ctx \<Rightarrow> 'm \<Rightarrow> (module_error + unit) outcome \<times> 'm \<times> 'ctx" where
  "default_migrate ctx m = (Ret (Inr ()), m, ctx)"

definition default_supports_migration :: "'m \<Rightarrow> bool" where
  "default_supports_migration m = False"

end
