(* ===== verification/Package_Manifest.thy ===== *)
theory Package_Manifest
  imports Module_Api
begin

text \<open>
  The manifest of a package (\<open>crates/nyarix-package/src/manifest.rs\<close>) and the layout of an
  archive (\<open>crates/nyarix-package/src/lib.rs\<close>).

  Versions and version requirements are values of the \<open>semver\<close> package: the types \<open>'v\<close> and \<open>'r\<close>.
  A manifest's dependencies are a hash map that is read once and not changed, so it is the list
  of its entries in the order of its iteration, without a key twice. Strings are UTF-8 bytes.
\<close>

subsection \<open>Dependencies\<close>

datatype 'r dependency_spec = DependencySpec (ds_version_req: 'r) (ds_optional: bool)

text \<open>The two forms of an entry; the flag of the second may be missing.\<close>

datatype 'r raw_dependency = Shorthand 'r | Detailed 'r "bool option"

fun dependency_deserialize :: "'r raw_dependency \<Rightarrow> 'r dependency_spec" where
  "dependency_deserialize (Shorthand version_req) = DependencySpec version_req False"
| "dependency_deserialize (Detailed version optional) =
     DependencySpec version (case optional of None \<Rightarrow> False | Some b \<Rightarrow> b)"

definition dependency_serialize :: "'r dependency_spec \<Rightarrow> 'r raw_dependency" where
  "dependency_serialize d =
     (if ds_optional d then Detailed (ds_version_req d) (Some True) else Shorthand (ds_version_req d))"

lemma dependency_roundtrip: "dependency_deserialize (dependency_serialize d) = d"
  by (cases d) (simp add: dependency_serialize_def)

subsection \<open>The manifest\<close>

record 'v package_info =
  pi_name :: string
  pi_version :: 'v
  pi_module_type :: module_type
  pi_api_version :: api_version
  pi_author :: string
  pi_description :: string

definition deserialize_api_version :: "string \<Rightarrow> api_version_parse_error + api_version" where
  "deserialize_api_version raw = api_version_from_str raw"

definition serialize_api_version :: "api_version \<Rightarrow> string" where
  "serialize_api_version v = api_version_display v"

record capabilities_table =
  ct_required :: "capability list"
  ct_provided :: "string list"

record platforms_table =
  pt_supported :: "platform list"

record ('v, 'r) package_manifest =
  pm_package :: "'v package_info"
  pm_dependencies :: "(string \<times> 'r dependency_spec) list"
  pm_capabilities :: capabilities_table
  pm_platforms :: platforms_table

text \<open>White space, as \<open>str::trim\<close> removes it, in UTF-8.\<close>

definition ascii_blank :: "nat \<Rightarrow> bool" where
  "ascii_blank c \<longleftrightarrow> (9 \<le> c \<and> c \<le> 13) \<or> c = 32"

definition wide_blank :: "nat \<Rightarrow> nat \<Rightarrow> nat \<Rightarrow> bool" where
  "wide_blank a b c \<longleftrightarrow>
     (a, b, c) = (0xE1, 0x9A, 0x80) \<or>
     (a = 0xE2 \<and> b = 0x80 \<and> ((0x80 \<le> c \<and> c \<le> 0x8A) \<or> c = 0xA8 \<or> c = 0xA9 \<or> c = 0xAF)) \<or>
     (a, b, c) = (0xE2, 0x81, 0x9F) \<or> (a, b, c) = (0xE3, 0x80, 0x80)"

fun blank_bytes :: "nat list \<Rightarrow> bool" where
  "blank_bytes [] = True"
| "blank_bytes (a # as) =
     (if ascii_blank a then blank_bytes as
      else case as of
             [] \<Rightarrow> False
           | b # bs \<Rightarrow>
               if a = 0xC2 \<and> (b = 0x85 \<or> b = 0xA0) then blank_bytes bs
               else case bs of [] \<Rightarrow> False | c # cs \<Rightarrow> wide_blank a b c \<and> blank_bytes cs)"

text \<open>\<open>s.trim().is_empty()\<close>\<close>

definition trim_is_empty :: "string \<Rightarrow> bool" where
  "trim_is_empty s = blank_bytes (map of_char s)"

definition manifest_validate :: "('v, 'r) package_manifest \<Rightarrow> package_error + unit" where
  "manifest_validate m =
     (if trim_is_empty (pi_name (pm_package m))
      then Inl (InvalidManifest ''package.name must not be empty'')
      else Inr ())"

text \<open>Parsing TOML is the \<open>toml\<close> package's work: \<open>parse\<close> is \<open>toml::from_str\<close>.\<close>

definition manifest_from_toml ::
    "(string \<Rightarrow> string + ('v, 'r) package_manifest) \<Rightarrow> string \<Rightarrow> package_error + ('v, 'r) package_manifest" where
  "manifest_from_toml parse input =
     (case parse input of
        Inl source \<Rightarrow> Inl (InvalidManifest source)
      | Inr m \<Rightarrow> (case manifest_validate m of Inl e \<Rightarrow> Inl e | Inr _ \<Rightarrow> Inr m))"

definition to_module_metadata :: "('v, 'r) package_manifest \<Rightarrow> 'v module_metadata" where
  "to_module_metadata m =
     (let p = pm_package m;
          metadata = with_platforms (pt_supported (pm_platforms m))
            (with_provided_tags (ct_provided (pm_capabilities m))
              (with_required_capabilities (ct_required (pm_capabilities m))
                (module_metadata_new (pi_name p) (pi_version p) (pi_module_type p))))
      in metadata\<lparr>mm_api_version := pi_api_version p, mm_author := pi_author p,
                  mm_description := pi_description p\<rparr>)"

text \<open>A manifest that parses has a name, and its metadata carries what it says.\<close>

lemma blank_bytes_ascii: "(\<forall>c \<in> set cs. ascii_blank c) \<Longrightarrow> blank_bytes cs"
  by (induction cs) simp_all

lemma manifest_from_toml_name:
  "manifest_from_toml parse input = Inr m \<Longrightarrow>
   parse input = Inr m \<and> \<not> trim_is_empty (pi_name (pm_package m))"
  by (auto simp: manifest_from_toml_def manifest_validate_def split: sum.splits if_splits)

lemma to_module_metadata_fields:
  "mm_name (to_module_metadata m) = pi_name (pm_package m)"
  "mm_version (to_module_metadata m) = pi_version (pm_package m)"
  "mm_api_version (to_module_metadata m) = pi_api_version (pm_package m)"
  "required_capabilities_mask (to_module_metadata m) =
     mask_from_capabilities (ct_required (pm_capabilities m))"
  "mm_provided_capabilities (to_module_metadata m) = []"
  "mm_provided_tags (to_module_metadata m) = ct_provided (pm_capabilities m)"
  "mm_platforms (to_module_metadata m) = pt_supported (pm_platforms m)"
  "mm_resource_limits (to_module_metadata m) = limits_unbounded"
  by (simp_all add: to_module_metadata_def Let_def module_metadata_new_def with_platforms_def
      with_provided_tags_def with_required_capabilities_def required_capabilities_mask_def)

subsection \<open>The layout of an archive\<close>

definition NYP_FORMAT_VERSION :: u32 where
  "NYP_FORMAT_VERSION = 1"

datatype package_member = ManifestMember | PayloadMember | AssetsMember | SignaturesMember

definition package_member_ALL :: "package_member list" where
  "package_member_ALL = [ManifestMember, PayloadMember, AssetsMember, SignaturesMember]"

primrec member_path :: "package_member \<Rightarrow> string" where
  "member_path ManifestMember = ''manifest.toml''"
| "member_path PayloadMember = ''payload/''"
| "member_path AssetsMember = ''assets/''"
| "member_path SignaturesMember = ''signatures/''"

definition member_required :: "package_member \<Rightarrow> bool" where
  "member_required m \<longleftrightarrow> m = ManifestMember"

definition validate_layout :: "string list \<Rightarrow> package_error + unit" where
  "validate_layout entries =
     (case find (\<lambda>m. member_required m \<and> member_path m \<notin> set entries) package_member_ALL of
        Some m \<Rightarrow> Inl (MissingMember (member_path m))
      | None \<Rightarrow> Inr ())"

lemma validate_layout_ok: "validate_layout entries = Inr () \<longleftrightarrow> ''manifest.toml'' \<in> set entries"
  by (simp add: validate_layout_def package_member_ALL_def member_required_def)

end
