(* ===== verification/File_System.thy ===== *)
theory File_System
  imports Errors
begin

text \<open>
  Paths and files, as the loader uses them. A path is a string of a Unix system; \<open>join\<close>,
  \<open>parent\<close> and the components of a path are those of \<open>std::path\<close>, the parent in normal form.
  The operations on files are an argument of the code that calls them, and the locale
  \<open>file_store\<close> is what it relies on: files are named by absolute paths without \<open>..\<close>, up to
  repeated separators, and there are no symbolic links.
\<close>

subsection \<open>Paths\<close>

fun path_components :: "string \<Rightarrow> string list" where
  "path_components [] = [[]]"
| "path_components (c # cs) =
     (case path_components cs of
        [] \<Rightarrow> [[c]]
      | p # ps \<Rightarrow> if c = CHR ''/'' then [] # p # ps else (c # p) # ps)"

definition path_is_absolute :: "string \<Rightarrow> bool" where
  "path_is_absolute p \<longleftrightarrow> p \<noteq> [] \<and> hd p = CHR ''/''"

definition path_key :: "string \<Rightarrow> string list" where
  "path_key p = filter (\<lambda>c. c \<noteq> [] \<and> c \<noteq> ''.'') (path_components p)"

definition path_has_parent_dir :: "string \<Rightarrow> bool" where
  "path_has_parent_dir p \<longleftrightarrow> ''..'' \<in> set (path_key p)"

definition path_join :: "string \<Rightarrow> string \<Rightarrow> string" where
  "path_join a b =
     (if path_is_absolute b then b
      else if a = [] \<or> last a = CHR ''/'' then a @ b
      else a @ ''/'' @ b)"

definition slash_join :: "string list \<Rightarrow> string" where
  "slash_join cs = (case cs of [] \<Rightarrow> [] | c # ds \<Rightarrow> c @ concat (map (\<lambda>d. ''/'' @ d) ds))"

definition path_parent :: "string \<Rightarrow> string option" where
  "path_parent p =
     (if path_key p = [] then None
      else Some ((if path_is_absolute p then ''/'' else []) @ slash_join (butlast (path_key p))))"

definition strip_prefix :: "string \<Rightarrow> string \<Rightarrow> string option" where
  "strip_prefix prefix s =
     (if take (length prefix) s = prefix then Some (drop (length prefix) s) else None)"

lemma strip_prefix_Some: "strip_prefix prefix s = Some r \<longleftrightarrow> s = prefix @ r"
  by (auto simp: strip_prefix_def) (metis append_take_drop_id)

lemma path_components_not_Nil [simp]: "path_components p \<noteq> []"
  by (induction p) (auto split: list.split)

lemma path_components_append: "path_components (a @ CHR ''/'' # b) = path_components a @ path_components b"
proof (induction a)
  case Nil
  then show ?case by (cases "path_components b") simp_all
next
  case (Cons c a)
  then show ?case by (cases "path_components a") simp_all
qed

lemma path_key_append: "path_key (a @ CHR ''/'' # b) = path_key a @ path_key b"
  by (simp add: path_key_def path_components_append)

lemma path_key_join:
  assumes "\<not> path_is_absolute b"
  shows "path_key (path_join a b) = path_key a @ path_key b"
proof (cases "a = [] \<or> last a = CHR ''/''")
  case False
  with assms show ?thesis
    by (simp add: path_join_def path_key_append)
next
  case True
  then show ?thesis
  proof
    assume "a = []"
    with assms show ?thesis
      by (simp add: path_join_def path_key_def)
  next
    assume "last a = CHR ''/''"
    then obtain c where c: "a = c @ [CHR ''/'']" if "a \<noteq> []"
      by (metis append_butlast_last_id)
    show ?thesis
    proof (cases "a = []")
      case False
      have "path_key a = path_key c"
        using path_key_append [of c "[]"] c [OF False] by (simp add: path_key_def)
      with assms c [OF False] show ?thesis
        by (simp add: path_join_def path_key_append)
    qed (use assms in \<open>simp add: path_join_def path_key_def\<close>)
  qed
qed

lemma path_join_absolute [simp]: "path_is_absolute a \<Longrightarrow> path_is_absolute (path_join a b)"
  by (auto simp: path_join_def path_is_absolute_def)

text \<open>The paths that name a file by their components alone.\<close>

definition plain_absolute :: "string \<Rightarrow> bool" where
  "plain_absolute p \<longleftrightarrow> path_is_absolute p \<and> \<not> path_has_parent_dir p"

lemma plain_absolute_join:
  "plain_absolute a \<Longrightarrow> \<not> path_is_absolute b \<Longrightarrow> \<not> path_has_parent_dir b \<Longrightarrow> plain_absolute (path_join a b)"
  by (simp add: plain_absolute_def path_has_parent_dir_def path_key_join)

subsection \<open>Files\<close>

record 'fs fs_ops =
  fs_read :: "string \<Rightarrow> 'fs \<Rightarrow> io_error + u8 list"
  fs_write :: "string \<Rightarrow> u8 list \<Rightarrow> 'fs \<Rightarrow> (io_error + unit) \<times> 'fs"
  fs_create_dir_all :: "string \<Rightarrow> 'fs \<Rightarrow> (io_error + unit) \<times> 'fs"
  fs_remove_dir_all :: "string \<Rightarrow> 'fs \<Rightarrow> (io_error + unit) \<times> 'fs"
  fs_utf8 :: "u8 list \<Rightarrow> io_error + string"

definition fs_read_to_string :: "'fs fs_ops \<Rightarrow> string \<Rightarrow> 'fs \<Rightarrow> io_error + string" where
  "fs_read_to_string F path s =
     (case fs_read F path s of Inl e \<Rightarrow> Inl e | Inr bs \<Rightarrow> fs_utf8 F bs)"

locale file_store =
  fixes F :: "'fs fs_ops"
    and files :: "'fs \<Rightarrow> string list \<rightharpoonup> u8 list"
  assumes read_file:
      "plain_absolute p \<Longrightarrow> fs_read F p s = Inr bs \<longleftrightarrow> files s (path_key p) = Some bs"
    and write_file:
      "plain_absolute p \<Longrightarrow> fs_write F p bs s = (Inr u, s') \<Longrightarrow> files s' = (files s)(path_key p \<mapsto> bs)"
    and write_fails:
      "plain_absolute p \<Longrightarrow> fs_write F p bs s = (Inl e, s') \<Longrightarrow> q \<noteq> path_key p \<Longrightarrow> files s' q = files s q"
    and create_dir: "files (snd (fs_create_dir_all F p s)) = files s"
    and remove_dir:
      "plain_absolute p \<Longrightarrow> take (length (path_key p)) q \<noteq> path_key p \<Longrightarrow>
       files (snd (fs_remove_dir_all F p s)) q = files s q"
begin

lemma write_other: "plain_absolute p \<Longrightarrow> q \<noteq> path_key p \<Longrightarrow> files (snd (fs_write F p bs s)) q = files s q"
  by (cases "fs_write F p bs s"; cases "fst (fs_write F p bs s)") (auto simp: write_file write_fails)

end

text \<open>A store that has these properties, for concrete runs.\<close>

type_synonym ref_files = "string list \<rightharpoonup> u8 list"

definition ref_fs :: "ref_files fs_ops" where
  "ref_fs = \<lparr>
     fs_read = (\<lambda>p s. case s (path_key p) of
        None \<Rightarrow> Inl (IoError NotFoundKind ''No such file or directory'') | Some bs \<Rightarrow> Inr bs),
     fs_write = (\<lambda>p bs s. (Inr (), s(path_key p \<mapsto> bs))),
     fs_create_dir_all = (\<lambda>p s. (Inr (), s)),
     fs_remove_dir_all = (\<lambda>p s. (Inr (), \<lambda>q. if take (length (path_key p)) q = path_key p then None else s q)),
     fs_utf8 = (\<lambda>bs. Inr (map (\<lambda>b. char_of (unat b)) bs))\<rparr>"

interpretation ref_fs: file_store ref_fs "\<lambda>s. s"
  by unfold_locales (auto simp: ref_fs_def split: option.split)

lemma ref_fs_store: "file_store ref_fs (\<lambda>s. s)"
  by unfold_locales

end
