(* ===== verification/Module_Index.thy ===== *)
theory Module_Index
  imports Package_Manifest File_System "HOL-Library.Multiset"
begin

text \<open>
  The index of discovered packages (\<open>crates/nyarix-loader/src/lib.rs\<close>), and the interface of the
  \<open>semver\<close> package: when a version meets a requirement, the order of versions, and how both
  print. The locale \<open>semver_laws\<close> holds what the loader relies on: the order is total.
\<close>

subsection \<open>Versions\<close>

record ('v, 'r) semver_ops =
  so_matches :: "'r \<Rightarrow> 'v \<Rightarrow> bool"
  so_le :: "'v \<Rightarrow> 'v \<Rightarrow> bool"
  so_show :: "'v \<Rightarrow> string"
  so_show_req :: "'r \<Rightarrow> string"

text \<open>\<open>Iterator::max\<close>: of equal elements the last one.\<close>

fun iter_max :: "('v \<Rightarrow> 'v \<Rightarrow> bool) \<Rightarrow> 'v list \<Rightarrow> 'v option" where
  "iter_max le [] = None"
| "iter_max le (v # vs) = Some (fold (\<lambda>w best. if le best w then w else best) vs v)"

locale semver_laws =
  fixes ops :: "('v, 'r) semver_ops"
  assumes le_refl: "so_le ops v v"
    and le_trans: "so_le ops u v \<Longrightarrow> so_le ops v w \<Longrightarrow> so_le ops u w"
    and le_antisym: "so_le ops u v \<Longrightarrow> so_le ops v u \<Longrightarrow> u = v"
    and le_total: "so_le ops u v \<or> so_le ops v u"
begin

lemma fold_max:
  "fold (\<lambda>w best. if so_le ops best w then w else best) vs v \<in> insert v (set vs) \<and>
   (\<forall>w \<in> insert v (set vs). so_le ops w (fold (\<lambda>w best. if so_le ops best w then w else best) vs v))"
proof (induction vs arbitrary: v)
  case Nil
  then show ?case by (simp add: le_refl)
next
  case (Cons x vs)
  let ?b = "if so_le ops v x then x else v"
  have "so_le ops v ?b" "so_le ops x ?b" "?b \<in> {v, x}"
    using le_refl le_total by auto
  with Cons.IH [of ?b] show ?case
    by (auto intro: le_trans)
qed

lemma iter_max_Some:
  "iter_max (so_le ops) vs = Some m \<longleftrightarrow> m \<in> set vs \<and> (\<forall>w \<in> set vs. so_le ops w m)"
proof (cases vs)
  case Nil
  then show ?thesis by simp
next
  case (Cons v us)
  show ?thesis
    using fold_max [of us v] le_antisym by (auto simp: Cons)
qed

lemma iter_max_None: "iter_max le vs = None \<longleftrightarrow> vs = []"
  by (cases vs) simp_all

end

text \<open>The versions of \<open>nyarix-core\<close> are an instance: a requirement is the version asked for.\<close>

definition core_semver :: "(sem_ver, sem_ver) semver_ops" where
  "core_semver = \<lparr>so_matches = (\<lambda>req v. sem_ver_is_compatible_with v req), so_le = (\<le>),
     so_show = sem_ver_display, so_show_req = sem_ver_display\<rparr>"

interpretation core: semver_laws core_semver
  by unfold_locales (auto simp: core_semver_def)

lemma core_semver_laws: "semver_laws core_semver"
  by unfold_locales

subsection \<open>The index\<close>

record 'v discovered_package =
  dp_path :: string
  dp_name :: string
  dp_version :: 'v

record scan_error =
  sc_path :: string
  sc_error :: package_error

record 'v duplicate_module =
  dm_name :: string
  dm_version :: 'v
  dm_kept_path :: string
  dm_duplicate_path :: string

type_synonym 'v module_index = "string \<rightharpoonup> 'v discovered_package list"

definition index_get :: "string \<Rightarrow> 'v module_index \<Rightarrow> 'v discovered_package list" where
  "index_get name ix = (case ix name of None \<Rightarrow> [] | Some ps \<Rightarrow> ps)"

text \<open>The first argument of the next two is the order of the hash map's keys.\<close>

definition index_names :: "string list \<Rightarrow> 'v module_index \<Rightarrow> string list" where
  "index_names ks ix = ks"

definition index_len :: "string list \<Rightarrow> 'v module_index \<Rightarrow> usize" where
  "index_len ks ix = sum_list (map (\<lambda>k. length (index_get k ix)) ks)"

definition index_is_empty :: "'v module_index \<Rightarrow> bool" where
  "index_is_empty ix \<longleftrightarrow> ix = Map.empty"

definition index_insert ::
    "'v discovered_package \<Rightarrow> 'v module_index \<Rightarrow> 'v duplicate_module option \<times> 'v module_index" where
  "index_insert p ix =
     (let existing = index_get (dp_name p) ix
      in case find (\<lambda>q. dp_version q = dp_version p) existing of
           Some first \<Rightarrow>
             (Some \<lparr>dm_name = dp_name p, dm_version = dp_version p, dm_kept_path = dp_path first,
                    dm_duplicate_path = dp_path p\<rparr>,
              ix(dp_name p \<mapsto> existing))
         | None \<Rightarrow> (None, ix(dp_name p \<mapsto> existing @ [p])))"

record 'v scan_report =
  sr_index :: "'v module_index"
  sr_errors :: "scan_error list"
  sr_duplicates :: "'v duplicate_module list"

definition scan_report_default :: "'v scan_report" where
  "scan_report_default = \<lparr>sr_index = Map.empty, sr_errors = [], sr_duplicates = []\<rparr>"

text \<open>
  The scan, over the files the file system lists: a directory that cannot be read is \<open>None\<close>.
  \<open>discover\<close> opens one package (\<open>discover_one\<close>); the extension of a path is what follows the
  last dot of its file name, unless the dot is its first character.
\<close>

fun after_last :: "char \<Rightarrow> string \<Rightarrow> string option" where
  "after_last d [] = None"
| "after_last d (c # cs) = (case after_last d cs of Some r \<Rightarrow> Some r | None \<Rightarrow> if c = d then Some cs else None)"

definition file_name :: "string \<Rightarrow> string" where
  "file_name path = (case after_last (CHR ''/'') path of None \<Rightarrow> path | Some n \<Rightarrow> n)"

definition extension :: "string \<Rightarrow> string option" where
  "extension path =
     (let n = file_name path
      in if n = ''..'' then None else case n of [] \<Rightarrow> None | c # cs \<Rightarrow> after_last (CHR ''.'') cs)"

definition scan_file ::
    "(string \<Rightarrow> package_error + 'v discovered_package) \<Rightarrow> string \<Rightarrow> 'v scan_report \<Rightarrow> 'v scan_report" where
  "scan_file discover path report =
     (if extension path \<noteq> Some ''nyp'' then report
      else case discover path of
             Inr package \<Rightarrow>
               (case index_insert package (sr_index report) of
                  (Some duplicate, ix) \<Rightarrow>
                    report\<lparr>sr_index := ix, sr_duplicates := sr_duplicates report @ [duplicate]\<rparr>
                | (None, ix) \<Rightarrow> report\<lparr>sr_index := ix\<rparr>)
           | Inl e \<Rightarrow> report\<lparr>sr_errors := sr_errors report @ [\<lparr>sc_path = path, sc_error = e\<rparr>]\<rparr>)"

definition scan_directories ::
    "(string \<Rightarrow> package_error + 'v discovered_package) \<Rightarrow> string list option list \<Rightarrow> 'v scan_report" where
  "scan_directories discover directories =
     fold (\<lambda>dir report. case dir of None \<Rightarrow> report | Some files \<Rightarrow> fold (scan_file discover) files report)
       directories scan_report_default"

definition default_search_paths :: "string option \<Rightarrow> string option \<Rightarrow> string list" where
  "default_search_paths home userprofile =
     (case (case home of Some h \<Rightarrow> Some h | None \<Rightarrow> userprofile) of
        Some h \<Rightarrow> [path_join (path_join h ''.nyarix'') ''modules'']
      | None \<Rightarrow> []) @ [''./modules'']"

subsection \<open>The index holds a version of a package once\<close>

definition index_wf :: "'v module_index \<Rightarrow> bool" where
  "index_wf ix \<longleftrightarrow>
     (\<forall>name. (\<forall>p \<in> set (index_get name ix). dp_name p = name) \<and>
             distinct (map dp_version (index_get name ix)))"

lemma index_get_update [simp]:
  "index_get n (ix(m \<mapsto> ps)) = (if n = m then ps else index_get n ix)"
  by (simp add: index_get_def)

lemma index_get_empty [simp]: "index_get n Map.empty = []"
  by (simp add: index_get_def)

lemma index_empty_wf [wf_intros]: "index_wf Map.empty"
  by (simp add: index_wf_def)

lemma index_insert_fresh:
  "dp_version p \<notin> dp_version ` set (index_get (dp_name p) ix) \<Longrightarrow>
   index_insert p ix = (None, ix(dp_name p \<mapsto> index_get (dp_name p) ix @ [p]))"
proof -
  assume "dp_version p \<notin> dp_version ` set (index_get (dp_name p) ix)"
  then have "find (\<lambda>q. dp_version q = dp_version p) (index_get (dp_name p) ix) = None"
    by (force simp: find_None_iff image_iff)
  then show ?thesis
    by (simp add: index_insert_def)
qed

lemma index_insert_present:
  assumes "dp_version p \<in> dp_version ` set (index_get (dp_name p) ix)"
  shows "\<exists>q \<in> set (index_get (dp_name p) ix). dp_version q = dp_version p \<and>
    index_insert p ix =
      (Some \<lparr>dm_name = dp_name p, dm_version = dp_version p, dm_kept_path = dp_path q,
             dm_duplicate_path = dp_path p\<rparr>, ix) "
proof -
  from assms obtain q0 where "q0 \<in> set (index_get (dp_name p) ix)" "dp_version q0 = dp_version p"
    by force
  then obtain q where q: "find (\<lambda>q. dp_version q = dp_version p) (index_get (dp_name p) ix) = Some q"
    by (metis (mono_tags, lifting) find_None_iff2 not_None_eq)
  then have "q \<in> set (index_get (dp_name p) ix)" "dp_version q = dp_version p"
    by (auto simp: find_Some_iff in_set_conv_nth)
  moreover have "ix(dp_name p \<mapsto> index_get (dp_name p) ix) = ix"
    using assms by (cases "ix (dp_name p)") (simp_all add: index_get_def map_upd_triv)
  ultimately show ?thesis
    using q by (auto simp: index_insert_def)
qed

lemma index_insert_wf [wf_intros]: "index_wf ix \<Longrightarrow> index_wf (snd (index_insert p ix))"
  using index_insert_fresh [of p ix] index_insert_present [of p ix]
  by (cases "dp_version p \<in> dp_version ` set (index_get (dp_name p) ix)")
    (auto simp: index_wf_def)

text \<open>The packages of an index, and what a scan collects.\<close>

definition index_has :: "'v module_index \<Rightarrow> string \<Rightarrow> 'v \<Rightarrow> bool" where
  "index_has ix name v \<longleftrightarrow> v \<in> dp_version ` set (index_get name ix)"

lemma index_insert_has:
  "index_has (snd (index_insert p ix)) n v \<longleftrightarrow> index_has ix n v \<or> (n = dp_name p \<and> v = dp_version p)"
  using index_insert_fresh [of p ix] index_insert_present [of p ix]
  by (cases "dp_version p \<in> dp_version ` set (index_get (dp_name p) ix)")
    (auto simp: index_has_def)

lemma index_insert_duplicate:
  "fst (index_insert p ix) = None \<longleftrightarrow> \<not> index_has ix (dp_name p) (dp_version p)"
  using index_insert_fresh [of p ix] index_insert_present [of p ix]
  by (cases "dp_version p \<in> dp_version ` set (index_get (dp_name p) ix)")
    (auto simp: index_has_def)

definition nyp_files :: "string list option list \<Rightarrow> string list" where
  "nyp_files dirs =
     filter (\<lambda>f. extension f = Some ''nyp'') (concat (map (\<lambda>d. case d of None \<Rightarrow> [] | Some fs \<Rightarrow> fs) dirs))"

lemma scan_flat:
  "scan_directories discover dirs = fold (scan_file discover) (nyp_files dirs) scan_report_default"
proof -
  have skip: "fold (scan_file discover) fs r =
      fold (scan_file discover) (filter (\<lambda>f. extension f = Some ''nyp'') fs) r" for fs r
    by (induction fs arbitrary: r) (auto simp: scan_file_def)
  have "fold (\<lambda>dir report. case dir of None \<Rightarrow> report | Some files \<Rightarrow> fold (scan_file discover) files report)
      dirs r = fold (scan_file discover) (nyp_files dirs) r" for r
  proof (induction dirs arbitrary: r)
    case Nil
    then show ?case by (simp add: nyp_files_def)
  next
    case (Cons d dirs)
    then show ?case
      by (cases d) (simp_all add: nyp_files_def skip [symmetric])
  qed
  then show ?thesis
    by (simp add: scan_directories_def)
qed

lemma scan_files_result:
  assumes "\<forall>f \<in> set fs. extension f = Some ''nyp''"
  shows "index_wf (sr_index r) \<Longrightarrow>
    index_wf (sr_index (fold (scan_file discover) fs r)) \<and>
    (\<forall>n v. index_has (sr_index (fold (scan_file discover) fs r)) n v \<longleftrightarrow>
       index_has (sr_index r) n v \<or> (\<exists>f \<in> set fs. \<exists>p. discover f = Inr p \<and> dp_name p = n \<and> dp_version p = v)) \<and>
    map sc_path (sr_errors (fold (scan_file discover) fs r)) =
      map sc_path (sr_errors r) @ filter (\<lambda>f. isl (discover f)) fs"
  using assms
proof (induction fs arbitrary: r)
  case Nil
  then show ?case by simp
next
  case (Cons f fs)
  show ?case
  proof (cases "discover f")
    case (Inl e)
    with Cons.IH [of "scan_file discover f r"] Cons.prems show ?thesis
      by (auto simp: scan_file_def)
  next
    case (Inr p)
    obtain d ix where ins: "index_insert p (sr_index r) = (d, ix)"
      by fastforce
    have ix: "sr_index (scan_file discover f r) = ix" "sr_errors (scan_file discover f r) = sr_errors r"
      using Cons.prems Inr ins by (simp_all add: scan_file_def split: option.split)
    have "index_wf ix"
      using index_insert_wf [of "sr_index r" p] Cons.prems ins by simp
    with Cons.IH [of "scan_file discover f r"] Cons.prems Inr ix show ?thesis
      using index_insert_has [of p "sr_index r"] ins by auto
  qed
qed

text \<open>
  A scan indexes exactly the packages that open, each name and version once, and reports a
  file for each package that does not: one bad package, or a directory that cannot be read,
  never hides another package.
\<close>

theorem scan_directories_result:
  "index_wf (sr_index (scan_directories discover dirs)) \<and>
   (\<forall>n v. index_has (sr_index (scan_directories discover dirs)) n v =
      (\<exists>f \<in> set (nyp_files dirs). \<exists>p. discover f = Inr p \<and> dp_name p = n \<and> dp_version p = v)) \<and>
   map sc_path (sr_errors (scan_directories discover dirs)) =
     filter (\<lambda>f. isl (discover f)) (nyp_files dirs)"
proof -
  have "\<forall>f \<in> set (nyp_files dirs). extension f = Some ''nyp''"
    by (simp add: nyp_files_def)
  moreover have "index_wf (sr_index scan_report_default)"
    by (simp add: scan_report_default_def index_empty_wf)
  ultimately show ?thesis
    using scan_files_result [of "nyp_files dirs" scan_report_default discover]
    by (simp add: scan_flat scan_report_default_def index_has_def)
qed

subsection \<open>No file is lost in a scan\<close>

text \<open>The paths in an index, and what a scan makes of the files: indexed, an error, or a duplicate.\<close>

definition index_paths :: "'v module_index \<Rightarrow> string multiset" where
  "index_paths ix = (\<Sum>n \<in> dom ix. mset (map dp_path (index_get n ix)))"

lemma index_paths_order:
  assumes "is_order names ix"
  shows "mset (map dp_path (concat (map (\<lambda>n. index_get n ix) names))) = index_paths ix"
proof -
  have "mset (map dp_path (concat (map (\<lambda>n. index_get n ix) names))) =
      (\<Sum>n \<leftarrow> names. mset (map dp_path (index_get n ix)))"
    by (induction names) simp_all
  also have "\<dots> = (\<Sum>n \<in> set names. mset (map dp_path (index_get n ix)))"
    using assms unfolding is_order_def by (intro sum_list_distinct_conv_sum_set) blast
  finally show ?thesis
    using assms unfolding is_order_def index_paths_def by simp
qed

lemma index_paths_append:
  assumes "finite (dom ix)"
  shows "index_paths (ix(n \<mapsto> index_get n ix @ [p])) = index_paths ix + {#dp_path p#}"
proof (cases "n \<in> dom ix")
  case True
  have others: "(\<Sum>k \<in> dom ix - {n}. mset (map dp_path (index_get k (ix(n \<mapsto> index_get n ix @ [p]))))) =
      (\<Sum>k \<in> dom ix - {n}. mset (map dp_path (index_get k ix)))"
    by (rule sum.cong) auto
  show ?thesis
    using True assms others by (simp add: index_paths_def sum.remove [of "dom ix" n] insert_absorb)
next
  case False
  then have "index_get n ix = []"
    by (auto simp: index_get_def split: option.split)
  moreover have "(\<Sum>k \<in> dom ix. mset (map dp_path (index_get k (ix(n \<mapsto> index_get n ix @ [p]))))) = index_paths ix"
    using False by (auto simp: index_paths_def intro!: sum.cong)
  ultimately show ?thesis
    using False assms by (simp add: index_paths_def)
qed

definition duplicate_kept :: "'v module_index \<Rightarrow> 'v duplicate_module \<Rightarrow> bool" where
  "duplicate_kept ix d \<longleftrightarrow>
     (\<exists>q \<in> set (index_get (dm_name d) ix). dp_version q = dm_version d \<and> dp_path q = dm_kept_path d)"

lemma duplicate_kept_insert: "duplicate_kept ix d \<Longrightarrow> duplicate_kept (snd (index_insert p ix)) d"
  using index_insert_fresh [of p ix] index_insert_present [of p ix]
  by (cases "dp_version p \<in> dp_version ` set (index_get (dp_name p) ix)") (auto simp: duplicate_kept_def)

definition scan_account :: "'v scan_report \<Rightarrow> string multiset" where
  "scan_account r = index_paths (sr_index r) + mset (map sc_path (sr_errors r)) +
     mset (map dm_duplicate_path (sr_duplicates r))"

definition scan_ok :: "'v scan_report \<Rightarrow> bool" where
  "scan_ok r \<longleftrightarrow> finite (dom (sr_index r)) \<and> (\<forall>d \<in> set (sr_duplicates r). duplicate_kept (sr_index r) d)"

lemma scan_file_account:
  assumes "extension f = Some ''nyp''" "\<And>p. discover f = Inr p \<Longrightarrow> dp_path p = f" "scan_ok r"
  shows "scan_account (scan_file discover f r) = scan_account r + {#f#} \<and> scan_ok (scan_file discover f r)"
proof (cases "discover f")
  case (Inl e)
  with assms show ?thesis
    by (simp add: scan_file_def scan_account_def scan_ok_def)
next
  case (Inr p)
  show ?thesis
  proof (cases "dp_version p \<in> dp_version ` set (index_get (dp_name p) (sr_index r))")
    case True
    from index_insert_present [OF this] obtain q where q: "q \<in> set (index_get (dp_name p) (sr_index r))" "dp_version q = dp_version p"
        "index_insert p (sr_index r) = (Some \<lparr>dm_name = dp_name p, dm_version = dp_version p,
           dm_kept_path = dp_path q, dm_duplicate_path = dp_path p\<rparr>, sr_index r)"
      by (elim bexE conjE) (rule that)
    let ?d = "\<lparr>dm_name = dp_name p, dm_version = dp_version p, dm_kept_path = dp_path q, dm_duplicate_path = dp_path p\<rparr>"
    have "scan_file discover f r = r\<lparr>sr_duplicates := sr_duplicates r @ [?d]\<rparr>"
      using assms(1) Inr q(3) by (simp add: scan_file_def del: index_get_update)
    moreover have "duplicate_kept (sr_index r) ?d"
      using q(1,2) by (auto simp: duplicate_kept_def)
    ultimately show ?thesis
      using assms(2) [OF Inr] assms(3) by (simp add: scan_account_def scan_ok_def)
  next
    case False
    note fresh = index_insert_fresh [OF this]
    have "duplicate_kept (snd (index_insert p (sr_index r))) d" if "d \<in> set (sr_duplicates r)" for d
      using assms(3) that by (auto simp: scan_ok_def intro: duplicate_kept_insert)
    with fresh Inr assms show ?thesis
      by (simp add: scan_file_def scan_account_def scan_ok_def index_paths_append)
  qed
qed

lemma scan_accounts:
  fixes discover :: "string \<Rightarrow> package_error + 'v discovered_package"
  assumes "\<And>f p. discover f = Inr p \<Longrightarrow> dp_path p = f"
  shows "scan_account (scan_directories discover dirs) = mset (nyp_files dirs) \<and>
    scan_ok (scan_directories discover dirs)"
proof -
  have "scan_account (fold (scan_file discover) fs r) = scan_account r + mset fs \<and> scan_ok (fold (scan_file discover) fs r)"
    if "\<forall>f \<in> set fs. extension f = Some ''nyp''" "scan_ok r" for fs r
    using that
  proof (induction fs arbitrary: r)
    case (Cons f fs)
    then show ?case
      using scan_file_account [of f discover r] assms by simp
  qed simp
  moreover have "scan_ok (scan_report_default :: 'v scan_report)"
      "scan_account (scan_report_default :: 'v scan_report) = {#}"
    by (simp_all add: scan_ok_def scan_account_def scan_report_default_def index_paths_def)
  moreover have "\<forall>f \<in> set (nyp_files dirs). extension f = Some ''nyp''"
    by (simp add: nyp_files_def)
  ultimately show ?thesis
    by (simp add: scan_flat)
qed

end
