(* ===== verification/Version_Resolver.thy ===== *)
theory Version_Resolver
  imports Module_Index
begin

text \<open>
  Version resolution (\<open>crates/nyarix-loader/src/version_resolver.rs\<close>) and conflict detection
  (\<open>crates/nyarix-loader/src/conflict.rs\<close>).
\<close>

subsection \<open>Requirements\<close>

record 'r requirement =
  rq_requirer :: string
  rq_version_req :: 'r
  rq_optional :: bool

record 'r version_conflict =
  vc_name :: string
  vc_requirements :: "'r requirement list"

definition comma_join :: "string \<Rightarrow> string list \<Rightarrow> string" where
  "comma_join sep parts = (case parts of [] \<Rightarrow> [] | p # ps \<Rightarrow> p @ concat (map (\<lambda>q. sep @ q) ps))"

definition version_conflict_display :: "('v, 'r) semver_ops \<Rightarrow> 'r version_conflict \<Rightarrow> string" where
  "version_conflict_display V c =
     ''no available version of '' @ [CHR 0x22] @ vc_name c @ [CHR 0x22] @
     '' satisfies every requirement: '' @
     comma_join ''; '' (map (\<lambda>r. rq_requirer r @ '' requires '' @ vc_name c @ '' '' @
       so_show_req V (rq_version_req r)) (vc_requirements c))"

record ('v, 'r) resolved_versions =
  rv_resolved :: "string \<rightharpoonup> 'v"
  rv_conflicts :: "'r version_conflict list"
  rv_unavailable_optional :: "string list"

type_synonym 'r requirements = "string \<rightharpoonup> 'r requirement list"

definition requirement_of :: "('v, 'r) package_manifest \<Rightarrow> 'r dependency_spec \<Rightarrow> 'r requirement" where
  "requirement_of m d =
     \<lparr>rq_requirer = pi_name (pm_package m), rq_version_req = ds_version_req d, rq_optional = ds_optional d\<rparr>"

text \<open>\<open>entry(name).or_default().push(..)\<close>, for every dependency of every manifest.\<close>

definition push_requirement :: "string \<Rightarrow> 'r requirement \<Rightarrow> 'r requirements \<Rightarrow> 'r requirements" where
  "push_requirement name r reqs =
     reqs(name \<mapsto> (case reqs name of None \<Rightarrow> [] | Some rs \<Rightarrow> rs) @ [r])"

definition collect_manifest :: "('v, 'r) package_manifest \<Rightarrow> 'r requirements \<Rightarrow> 'r requirements" where
  "collect_manifest m = fold (\<lambda>(name, d). push_requirement name (requirement_of m d)) (pm_dependencies m)"

definition collect_requirements :: "('v, 'r) package_manifest list \<Rightarrow> 'r requirements" where
  "collect_requirements ms = fold collect_manifest ms Map.empty"

definition best_version ::
    "('v, 'r) semver_ops \<Rightarrow> 'v module_index \<Rightarrow> string \<Rightarrow> 'r requirement list \<Rightarrow> 'v option" where
  "best_version V ix name reqs =
     iter_max (so_le V)
       (filter (\<lambda>v. \<forall>r \<in> set reqs. so_matches V (rq_version_req r) v) (map dp_version (index_get name ix)))"

definition resolve_name ::
    "('v, 'r) semver_ops \<Rightarrow> 'v module_index \<Rightarrow> 'r requirements \<Rightarrow> string \<Rightarrow>
     ('v, 'r) resolved_versions \<Rightarrow> ('v, 'r) resolved_versions" where
  "resolve_name V ix requirements name out =
     (let reqs = the (requirements name)
      in case best_version V ix name reqs of
           Some version \<Rightarrow> out\<lparr>rv_resolved := (rv_resolved out)(name \<mapsto> version)\<rparr>
         | None \<Rightarrow>
             if \<forall>r \<in> set reqs. rq_optional r
             then out\<lparr>rv_unavailable_optional := rv_unavailable_optional out @ [name]\<rparr>
             else out\<lparr>rv_conflicts := rv_conflicts out @ [\<lparr>vc_name = name, vc_requirements = reqs\<rparr>]\<rparr>)"

text \<open>The order in which the map of requirements is iterated is the argument \<open>ks\<close>.\<close>

definition resolve_versions ::
    "('v, 'r) semver_ops \<Rightarrow> string list \<Rightarrow> ('v, 'r) package_manifest list \<Rightarrow> 'v module_index \<Rightarrow>
     ('v, 'r) resolved_versions" where
  "resolve_versions V ks ms ix =
     fold (resolve_name V ix (collect_requirements ms)) ks
       \<lparr>rv_resolved = Map.empty, rv_conflicts = [], rv_unavailable_optional = []\<rparr>"

subsection \<open>What is collected\<close>

text \<open>The requirements on a name: one for each entry of that name, in the order of the manifests.\<close>

definition requirements_on :: "('v, 'r) package_manifest list \<Rightarrow> string \<Rightarrow> 'r requirement list" where
  "requirements_on ms name =
     concat (map (\<lambda>m. map (\<lambda>(_, d). requirement_of m d) (filter (\<lambda>(n, _). n = name) (pm_dependencies m))) ms)"

lemma push_requirement_get:
  "push_requirement n r reqs name =
   (if name = n then Some ((case reqs name of None \<Rightarrow> [] | Some rs \<Rightarrow> rs) @ [r]) else reqs name)"
  by (simp add: push_requirement_def)

lemma collect_manifest_get:
  "collect_manifest m reqs name =
   (case map (\<lambda>(_, d). requirement_of m d) (filter (\<lambda>(n, _). n = name) (pm_dependencies m)) of
      [] \<Rightarrow> reqs name
    | r # rs \<Rightarrow> Some ((case reqs name of None \<Rightarrow> [] | Some qs \<Rightarrow> qs) @ r # rs))"
proof -
  have "fold (\<lambda>(name, d). push_requirement name (requirement_of m d)) ds reqs name =
   (case map (\<lambda>(_, d). requirement_of m d) (filter (\<lambda>(n, _). n = name) ds) of
      [] \<Rightarrow> reqs name
    | r # rs \<Rightarrow> Some ((case reqs name of None \<Rightarrow> [] | Some qs \<Rightarrow> qs) @ r # rs))" for ds
  proof (induction ds arbitrary: reqs)
    case Nil
    then show ?case by simp
  next
    case (Cons e ds)
    obtain n d where e: "e = (n, d)"
      by fastforce
    show ?case
    proof (cases "n = name")
      case True
      with Cons [of "push_requirement n (requirement_of m d) reqs"] show ?thesis
        by (simp add: e push_requirement_get split: list.split option.split)
    next
      case False
      with Cons [of "push_requirement n (requirement_of m d) reqs"] show ?thesis
        by (simp add: e push_requirement_get split: list.split)
    qed
  qed
  then show ?thesis
    by (simp add: collect_manifest_def)
qed

lemma requirements_on_snoc:
  "requirements_on (ms @ [m]) name = requirements_on ms name @
     map (\<lambda>(_, d). requirement_of m d) (filter (\<lambda>(n, _). n = name) (pm_dependencies m))"
  by (simp add: requirements_on_def)

lemma collect_requirements_get:
  "collect_requirements ms name =
   (if requirements_on ms name = [] then None else Some (requirements_on ms name))"
proof (induction ms rule: rev_induct)
  case Nil
  then show ?case by (simp add: collect_requirements_def requirements_on_def)
next
  case (snoc m ms)
  have "collect_requirements (ms @ [m]) = collect_manifest m (collect_requirements ms)"
    by (simp add: collect_requirements_def)
  with snoc show ?case
    by (simp add: collect_manifest_get requirements_on_snoc split: list.splits)
qed

lemma collect_requirements_dom:
  "dom (collect_requirements ms) = {name. requirements_on ms name \<noteq> []}"
  by (auto simp: dom_def collect_requirements_get)

subsection \<open>What is resolved\<close>

lemma resolve_name_fields:
  "rv_resolved (resolve_name V ix reqs k out) =
     (case best_version V ix k (the (reqs k)) of
        Some v \<Rightarrow> (rv_resolved out)(k \<mapsto> v) | None \<Rightarrow> rv_resolved out)"
  "rv_conflicts (resolve_name V ix reqs k out) = rv_conflicts out @
     (if best_version V ix k (the (reqs k)) = None \<and> \<not> (\<forall>r \<in> set (the (reqs k)). rq_optional r)
      then [\<lparr>vc_name = k, vc_requirements = the (reqs k)\<rparr>] else [])"
  "rv_unavailable_optional (resolve_name V ix reqs k out) = rv_unavailable_optional out @
     (if best_version V ix k (the (reqs k)) = None \<and> (\<forall>r \<in> set (the (reqs k)). rq_optional r)
      then [k] else [])"
  by (simp_all add: resolve_name_def Let_def split: option.split)

lemma resolve_fold_resolved:
  "rv_resolved (fold (resolve_name V ix reqs) ks out) n =
   (if n \<in> set ks
    then (case best_version V ix n (the (reqs n)) of Some v \<Rightarrow> Some v | None \<Rightarrow> rv_resolved out n)
    else rv_resolved out n)"
proof (induction ks arbitrary: out)
  case Nil
  then show ?case by simp
next
  case (Cons k ks)
  show ?case
    unfolding fold_simps Cons.IH resolve_name_fields(1)
    by (cases "n = k"; cases "best_version V ix k (the (reqs k))") (simp_all split: option.split)
qed

lemma resolve_fold_conflicts:
  "rv_conflicts (fold (resolve_name V ix reqs) ks out) = rv_conflicts out @
   map (\<lambda>n. \<lparr>vc_name = n, vc_requirements = the (reqs n)\<rparr>)
     (filter (\<lambda>n. best_version V ix n (the (reqs n)) = None \<and> \<not> (\<forall>r \<in> set (the (reqs n)). rq_optional r)) ks)"
  by (induction ks arbitrary: out) (simp_all add: resolve_name_fields(2))

lemma resolve_fold_optional:
  "rv_unavailable_optional (fold (resolve_name V ix reqs) ks out) = rv_unavailable_optional out @
   filter (\<lambda>n. best_version V ix n (the (reqs n)) = None \<and> (\<forall>r \<in> set (the (reqs n)). rq_optional r)) ks"
  by (induction ks arbitrary: out) (simp_all add: resolve_name_fields(3))

lemmas resolve_fold = resolve_fold_resolved resolve_fold_conflicts resolve_fold_optional

definition satisfies_all :: "('v, 'r) semver_ops \<Rightarrow> 'r requirement list \<Rightarrow> 'v \<Rightarrow> bool" where
  "satisfies_all V reqs v \<longleftrightarrow> (\<forall>r \<in> set reqs. so_matches V (rq_version_req r) v)"

context semver_laws
begin

lemma best_version_Some:
  "best_version ops ix n reqs = Some v \<longleftrightarrow>
   index_has ix n v \<and> satisfies_all ops reqs v \<and>
   (\<forall>w. index_has ix n w \<longrightarrow> satisfies_all ops reqs w \<longrightarrow> so_le ops w v)"
  unfolding best_version_def iter_max_Some index_has_def satisfies_all_def by auto

lemma best_version_None:
  "best_version ops ix n reqs = None \<longleftrightarrow> (\<nexists>v. index_has ix n v \<and> satisfies_all ops reqs v)"
  by (auto simp: best_version_def iter_max_None index_has_def satisfies_all_def filter_empty_conv)

end

text \<open>
  C15. Version resolution: for every name some manifest depends on, the resolver picks the
  greatest indexed version that satisfies every requirement on it, from every manifest; where
  no version does, the name is reported as unavailable when all who require it called it
  optional, and as a conflict with all its requirements otherwise. Every name required falls
  into exactly one of the three, whatever the iteration order of the hash map.
\<close>

theorem resolve_versions_result:
  assumes "semver_laws V" "is_order ks (collect_requirements ms)"
    and "requirements_on ms name \<noteq> []"
  shows "let out = resolve_versions V ks ms ix; reqs = requirements_on ms name;
             fits = (\<lambda>v. index_has ix name v \<and> satisfies_all V reqs v)
         in (\<forall>v. rv_resolved out name = Some v \<longleftrightarrow> fits v \<and> (\<forall>w. fits w \<longrightarrow> so_le V w v)) \<and>
            (\<lparr>vc_name = name, vc_requirements = reqs\<rparr> \<in> set (rv_conflicts out) \<longleftrightarrow>
               (\<nexists>v. fits v) \<and> (\<exists>r \<in> set reqs. \<not> rq_optional r)) \<and>
            (name \<in> set (rv_unavailable_optional out) \<longleftrightarrow>
               (\<nexists>v. fits v) \<and> (\<forall>r \<in> set reqs. rq_optional r))"
proof -
  let ?reqs = "collect_requirements ms"
  have ks: "name \<in> set ks"
    unfolding is_order_set [OF assms(2)] collect_requirements_dom using assms(3) by simp
  have reqs: "the (?reqs name) = requirements_on ms name"
    using assms(3) by (simp add: collect_requirements_get)
  have resolved: "rv_resolved (resolve_versions V ks ms ix) name =
      best_version V ix name (requirements_on ms name)"
    using ks reqs by (simp add: resolve_versions_def resolve_fold split: option.split)
  have conflicts: "\<lparr>vc_name = name, vc_requirements = requirements_on ms name\<rparr>
        \<in> set (rv_conflicts (resolve_versions V ks ms ix)) \<longleftrightarrow>
      best_version V ix name (requirements_on ms name) = None \<and>
      (\<exists>r \<in> set (requirements_on ms name). \<not> rq_optional r)"
    using ks reqs by (auto simp: resolve_versions_def resolve_fold image_iff intro!: bexI [of _ name])
  have optional: "name \<in> set (rv_unavailable_optional (resolve_versions V ks ms ix)) \<longleftrightarrow>
      best_version V ix name (requirements_on ms name) = None \<and>
      (\<forall>r \<in> set (requirements_on ms name). rq_optional r)"
    using ks reqs by (auto simp: resolve_versions_def resolve_fold)
  show ?thesis
    unfolding Let_def resolved conflicts optional
      semver_laws.best_version_Some [OF assms(1)] semver_laws.best_version_None [OF assms(1)]
    by blast
qed

end
