(* ===== verification/Conflicts.thy ===== *)
theory Conflicts
  imports Version_Resolver
begin

text \<open>
  Conflict detection (\<open>crates/nyarix-loader/src/conflict.rs\<close>): what stands between a set of
  manifests and loading them, over version resolution and the version of the module API.
\<close>

datatype 'r conflict =
    IncompatibleVersions string "'r requirement list"
  | MissingDependency string "string list"
  | IncompatibleApiVersion string api_version api_version

definition conflict_display :: "('v, 'r) semver_ops \<Rightarrow> 'r conflict \<Rightarrow> string" where
  "conflict_display V c =
     (case c of
        IncompatibleVersions name requirements \<Rightarrow>
          concat (map (\<lambda>(i, req).
            (if i = 0 then ''Module '' else '', but module '') @ rq_requirer req @ '' requires '' @
            name @ '' '' @ so_show_req V (rq_version_req req)) (enumerate 0 requirements))
      | MissingDependency name requirers \<Rightarrow>
          comma_join '', '' requirers @ '' require'' @ (if length requirers = 1 then ''s'' else []) @
          '' '' @ [CHR 0x22] @ name @ [CHR 0x22] @ '', but no installed package provides it''
      | IncompatibleApiVersion module required declared \<Rightarrow>
          ''module '' @ [CHR 0x22] @ module @ [CHR 0x22] @ '' was built against Module API '' @
          api_version_display declared @ '', which is incompatible with the Runtime'' @ [CHR 0x27] @
          ''s required '' @ api_version_display required)"

definition categorize :: "'v module_index \<Rightarrow> 'r version_conflict \<Rightarrow> 'r conflict" where
  "categorize ix vc =
     (if index_get (vc_name vc) ix = []
      then MissingDependency (vc_name vc) (map rq_requirer (vc_requirements vc))
      else IncompatibleVersions (vc_name vc) (vc_requirements vc))"

definition detect_conflicts ::
    "('v, 'r) semver_ops \<Rightarrow> string list \<Rightarrow> ('v, 'r) package_manifest list \<Rightarrow> 'v module_index \<Rightarrow>
     api_version \<Rightarrow> 'r conflict list" where
  "detect_conflicts V ks ms ix required_api_version =
     map (categorize ix) (rv_conflicts (resolve_versions V ks ms ix)) @
     map (\<lambda>m. IncompatibleApiVersion (pi_name (pm_package m)) required_api_version
                (pi_api_version (pm_package m)))
       (filter (\<lambda>m. \<not> is_compatible required_api_version (pi_api_version (pm_package m))) ms)"

subsection \<open>No conflict\<close>

text \<open>What it takes to load: a version for every dependency that someone needs, and API versions that fit.\<close>

definition loadable ::
    "('v, 'r) semver_ops \<Rightarrow> ('v, 'r) package_manifest list \<Rightarrow> 'v module_index \<Rightarrow> api_version \<Rightarrow> bool" where
  "loadable V ms ix required_api_version \<longleftrightarrow>
     (\<forall>name. (\<exists>r \<in> set (requirements_on ms name). \<not> rq_optional r) \<longrightarrow>
        (\<exists>v. index_has ix name v \<and> satisfies_all V (requirements_on ms name) v)) \<and>
     (\<forall>m \<in> set ms. is_compatible required_api_version (pi_api_version (pm_package m)))"

lemma conflicts_of_resolution:
  assumes "semver_laws V" "is_order ks (collect_requirements ms)"
  shows "set (rv_conflicts (resolve_versions V ks ms ix)) =
    {\<lparr>vc_name = n, vc_requirements = requirements_on ms n\<rparr> | n.
       (\<exists>r \<in> set (requirements_on ms n). \<not> rq_optional r) \<and>
       (\<nexists>v. index_has ix n v \<and> satisfies_all V (requirements_on ms n) v)}"
proof -
  let ?D = "collect_requirements ms" and ?R = "requirements_on ms"
  let ?P = "\<lambda>n rs. best_version V ix n rs = None \<and> \<not> (\<forall>r \<in> set rs. rq_optional r)"
  have get: "the (?D n) = ?R n" if "?R n \<noteq> []" for n
    using that by (simp only: collect_requirements_get if_False option.sel)
  have "set (rv_conflicts (resolve_versions V ks ms ix)) =
    (\<lambda>n. \<lparr>vc_name = n, vc_requirements = the (?D n)\<rparr>) ` {n. ?R n \<noteq> [] \<and> ?P n (the (?D n))}"
    unfolding resolve_versions_def resolve_fold
    by (simp add: is_order_set [OF assms(2)] collect_requirements_dom)
  also have "{n. ?R n \<noteq> [] \<and> ?P n (the (?D n))} = {n. ?R n \<noteq> [] \<and> ?P n (?R n)}"
    using get by (intro Collect_cong conj_cong refl) simp_all
  also have "(\<lambda>n. \<lparr>vc_name = n, vc_requirements = the (?D n)\<rparr>) ` {n. ?R n \<noteq> [] \<and> ?P n (?R n)} =
    (\<lambda>n. \<lparr>vc_name = n, vc_requirements = ?R n\<rparr>) ` {n. ?R n \<noteq> [] \<and> ?P n (?R n)}"
    using get by (intro image_cong refl) simp
  also have "\<dots> = {\<lparr>vc_name = n, vc_requirements = ?R n\<rparr> | n. (\<exists>r \<in> set (?R n). \<not> rq_optional r) \<and>
       (\<nexists>v. index_has ix n v \<and> satisfies_all V (?R n) v)}"
    unfolding semver_laws.best_version_None [OF assms(1)] by force
  finally show ?thesis .
qed

text \<open>
  C16. Conflict detection is complete and sound: it reports nothing exactly when the set of
  packages can be loaded, i.e. when some indexed version of every dependency that at least one
  package really needs satisfies all who ask for it, and every package was built against a
  module API that is compatible with the runtime's.
\<close>

theorem detect_conflicts_empty:
  assumes "semver_laws V" "is_order ks (collect_requirements ms)"
  shows "detect_conflicts V ks ms ix api = [] \<longleftrightarrow> loadable V ms ix api"
proof -
  have "rv_conflicts (resolve_versions V ks ms ix) = [] \<longleftrightarrow>
    (\<forall>n. (\<exists>r \<in> set (requirements_on ms n). \<not> rq_optional r) \<longrightarrow>
       (\<exists>v. index_has ix n v \<and> satisfies_all V (requirements_on ms n) v))"
    unfolding set_empty [symmetric] conflicts_of_resolution [OF assms] by blast
  then show ?thesis
    by (simp add: detect_conflicts_def loadable_def filter_empty_conv)
qed

text \<open>A dependency is reported missing exactly when no version of it is indexed.\<close>

lemma detect_conflicts_missing:
  assumes "semver_laws V" "is_order ks (collect_requirements ms)"
  shows "MissingDependency n rs \<in> set (detect_conflicts V ks ms ix api) \<longleftrightarrow>
    index_get n ix = [] \<and> rs = map rq_requirer (requirements_on ms n) \<and>
    (\<exists>r \<in> set (requirements_on ms n). \<not> rq_optional r)"
proof -
  have "MissingDependency n rs \<in> set (detect_conflicts V ks ms ix api) \<longleftrightarrow>
    (\<exists>c \<in> set (rv_conflicts (resolve_versions V ks ms ix)). categorize ix c = MissingDependency n rs)"
    by (auto simp: detect_conflicts_def) (metis imageI)
  also have "\<dots> \<longleftrightarrow> index_get n ix = [] \<and> rs = map rq_requirer (requirements_on ms n) \<and>
    (\<exists>r \<in> set (requirements_on ms n). \<not> rq_optional r)" (is "?l \<longleftrightarrow> ?r")
  proof
    show ?r if ?l
      using that unfolding conflicts_of_resolution [OF assms] by (auto simp: categorize_def split: if_splits)
    show ?l if ?r
      unfolding conflicts_of_resolution [OF assms]
      by (rule bexI [of _ "\<lparr>vc_name = n, vc_requirements = requirements_on ms n\<rparr>"])
        (use that in \<open>simp_all add: categorize_def index_has_def\<close>)
  qed
  finally show ?thesis .
qed

end
