(* ===== verification/Digraph.thy ===== *)
theory Digraph
  imports Prelude
begin

text \<open>
  Paths and cycles of a finite directed graph given by its successor lists, and the depth-first
  search that both the flow graph's cycle detection and the dependency graph's load order
  refine. The locale \<open>digraph\<close> is the interface a graph component provides to the search.
\<close>

subsection \<open>Paths, cycles, topological orders\<close>

definition path_in :: "('a \<Rightarrow> 'a list) \<Rightarrow> 'a list \<Rightarrow> bool" where
  "path_in s p \<longleftrightarrow> p \<noteq> [] \<and> successively (\<lambda>u v. v \<in> set (s u)) p"

definition is_cycle :: "('a \<Rightarrow> 'a list) \<Rightarrow> 'a list \<Rightarrow> bool" where
  "is_cycle s c \<longleftrightarrow> path_in s c \<and> 2 \<le> length c \<and> hd c = last c"

definition reaches :: "('a \<Rightarrow> 'a list) \<Rightarrow> 'a \<Rightarrow> 'a \<Rightarrow> bool" where
  "reaches s u v \<longleftrightarrow> (\<exists>p. path_in s p \<and> hd p = u \<and> last p = v)"

definition topo :: "('a \<Rightarrow> 'a list) \<Rightarrow> 'a list \<Rightarrow> bool" where
  "topo s xs \<longleftrightarrow> (\<forall>ys x zs. xs = ys @ x # zs \<longrightarrow> set (s x) \<subseteq> set ys)"

lemma path_in_single [simp]: "path_in s [v]"
  by (simp add: path_in_def)

lemma path_in_Cons: "path_in s (u # p) \<longleftrightarrow> p = [] \<or> (hd p \<in> set (s u) \<and> path_in s p)"
  by (cases p) (auto simp: path_in_def)

lemma path_in_append:
  "p \<noteq> [] \<Longrightarrow> q \<noteq> [] \<Longrightarrow>
   path_in s (p @ q) \<longleftrightarrow> path_in s p \<and> path_in s q \<and> hd q \<in> set (s (last p))"
  by (auto simp: path_in_def successively_append_iff)

lemma path_in_snoc: "p \<noteq> [] \<Longrightarrow> path_in s (p @ [v]) \<longleftrightarrow> path_in s p \<and> v \<in> set (s (last p))"
  by (simp add: path_in_append)

lemma path_in_mono: "path_in s p \<Longrightarrow> (\<And>u v. v \<in> set (s u) \<Longrightarrow> v \<in> set (t u)) \<Longrightarrow> path_in t p"
  unfolding path_in_def by (auto elim: successively_mono)

lemma path_in_subset:
  assumes "path_in s p" "hd p \<in> V" "\<And>v. v \<in> V \<Longrightarrow> set (s v) \<subseteq> V"
  shows "set p \<subseteq> V"
  using assms(1,2)
proof (induction p)
  case Nil
  then show ?case by simp
next
  case (Cons u p)
  then show ?case
    using assms(3) [of u] by (cases p) (auto simp: path_in_def)
qed

lemma reaches_refl [simp]: "reaches s v v"
  unfolding reaches_def by (rule exI [of _ "[v]"]) simp

lemma reaches_step: "reaches s u v \<Longrightarrow> w \<in> set (s v) \<Longrightarrow> reaches s u w"
  unfolding reaches_def
proof clarify
  fix p
  assume "path_in s p" "w \<in> set (s (last p))"
  moreover from this have "p \<noteq> []"
    by (simp add: path_in_def)
  ultimately have "path_in s (p @ [w])" "hd (p @ [w]) = hd p"
    by (simp_all add: path_in_snoc)
  then show "\<exists>q. path_in s q \<and> hd q = hd p \<and> last q = w"
    by (intro exI [of _ "p @ [w]"]) simp
qed

lemma reaches_trans: "reaches s u v \<Longrightarrow> reaches s v w \<Longrightarrow> reaches s u w"
proof -
  assume uv: "reaches s u v" and "reaches s v w"
  then obtain p where p: "path_in s p" "hd p = v" "last p = w"
    by (auto simp: reaches_def)
  from uv p show ?thesis
  proof (induction p arbitrary: v)
    case Nil
    then show ?case by (simp add: path_in_def)
  next
    case (Cons a p)
    show ?case
    proof (cases p)
      case Nil
      with Cons.prems show ?thesis by simp
    next
      case (Cons b q)
      with Cons.prems reaches_step [of s u a b] show ?thesis
        using Cons.IH [of b] by (simp add: path_in_Cons)
    qed
  qed
qed

text \<open>A map of the vertices that sends every arc to a path sends every path to a path.\<close>

lemma reaches_map:
  assumes "\<And>x y. y \<in> set (s x) \<Longrightarrow> reaches t (h x) (h y)" "reaches s u v"
  shows "reaches t (h u) (h v)"
proof -
  from assms(2) obtain p where p: "path_in s p" "hd p = u" "last p = v"
    by (auto simp: reaches_def)
  then show ?thesis
  proof (induction p arbitrary: v rule: rev_induct)
    case Nil
    then show ?case by (simp add: path_in_def)
  next
    case (snoc w p)
    then show ?case
    proof (cases "p = []")
      case False
      with snoc have "reaches t (h u) (h (last p))" "w \<in> set (s (last p))"
        by (auto simp: path_in_snoc)
      with assms(1) snoc.prems(3) reaches_trans show ?thesis
        by fastforce
    qed auto
  qed
qed

text \<open>A closed set that holds the start holds everything reachable.\<close>

lemma reaches_closed:
  "reaches s u v \<Longrightarrow> u \<in> V \<Longrightarrow> (\<And>x. x \<in> V \<Longrightarrow> set (s x) \<subseteq> V) \<Longrightarrow> v \<in> V"
  unfolding reaches_def using path_in_subset [of s _ V] last_in_set by (metis path_in_def subsetD)

lemma topo_Nil [simp]: "topo s []"
  by (simp add: topo_def)

lemma topo_snoc: "topo s (xs @ [x]) \<longleftrightarrow> topo s xs \<and> set (s x) \<subseteq> set xs"
proof
  assume t: "topo s (xs @ [x])"
  have "set (s y) \<subseteq> set ys" if "xs = ys @ y # zs" for ys y zs
    using t that unfolding topo_def by (metis append.assoc append_Cons)
  moreover have "set (s x) \<subseteq> set xs"
    using t unfolding topo_def by blast
  ultimately show "topo s xs \<and> set (s x) \<subseteq> set xs"
    unfolding topo_def by blast
next
  assume t: "topo s xs \<and> set (s x) \<subseteq> set xs"
  show "topo s (xs @ [x])"
    unfolding topo_def
  proof (intro allI impI)
    fix ys y zs
    assume e: "xs @ [x] = ys @ y # zs"
    show "set (s y) \<subseteq> set ys"
    proof (cases zs rule: rev_cases)
      case Nil
      with e t show ?thesis by simp
    next
      case (snoc zs' z)
      with e have "xs = ys @ y # zs'" by simp
      with t show ?thesis unfolding topo_def by blast
    qed
  qed
qed

lemma topo_succ_closed: "topo s xs \<Longrightarrow> x \<in> set xs \<Longrightarrow> set (s x) \<subseteq> set xs"
  unfolding topo_def by (metis Un_iff in_set_conv_decomp set_append subset_iff)

text \<open>The graph under a topological order has no cycle.\<close>

lemma topo_path_length:
  assumes "topo s xs" "path_in s p" "hd p \<in> set xs" "2 \<le> length p"
  shows "\<exists>ys zs. xs = ys @ hd p # zs \<and> last p \<in> set ys"
  using assms(2-4)
proof (induction p rule: rev_induct)
  case Nil
  then show ?case by simp
next
  case (snoc v p)
  show ?case
  proof (cases "2 \<le> length p")
    case True
    then have ne: "p \<noteq> []" by auto
    with snoc True obtain ys zs where y: "xs = ys @ hd p # zs" "last p \<in> set ys"
      by (auto simp: path_in_snoc)
    from snoc.prems(1) ne have "v \<in> set (s (last p))"
      by (simp add: path_in_snoc)
    moreover have "topo s ys"
      unfolding topo_def
    proof (intro allI impI)
      fix as a bs
      assume "ys = as @ a # bs"
      then have "xs = as @ a # (bs @ hd p # zs)"
        using y(1) by simp
      then show "set (s a) \<subseteq> set as"
        using assms(1) unfolding topo_def by blast
    qed
    ultimately have "v \<in> set ys"
      using topo_succ_closed y(2) by fastforce
    with y(1) ne show ?thesis by auto
  next
    case False
    with snoc.prems have "length p = 1"
      by simp
    then obtain u where u: "p = [u]"
      by (auto simp: length_Suc_conv)
    with snoc.prems(1,2) have "v \<in> set (s u)" "u \<in> set xs"
      by (auto simp: path_in_Cons)
    then obtain ys zs where y: "xs = ys @ u # zs"
      by (meson split_list)
    with assms(1) \<open>v \<in> set (s u)\<close> have "v \<in> set ys"
      unfolding topo_def by blast
    with y u show ?thesis by auto
  qed
qed

lemma topo_acyclic:
  assumes "topo s xs" "distinct xs" "hd c \<in> set xs"
  shows "\<not> is_cycle s c"
proof
  assume c: "is_cycle s c"
  then obtain ys zs where "xs = ys @ hd c # zs" "last c \<in> set ys"
    using topo_path_length [OF assms(1), of c] assms(3) by (auto simp: is_cycle_def)
  with c assms(2) show False
    by (auto simp: is_cycle_def)
qed

subsection \<open>Depth-first search\<close>

text \<open>
  The search that the two components refine: marks, the path from the root, and the vertices
  in the order in which they are finished. It ends with a cycle (\<open>Inl\<close>) or with the state.
\<close>

datatype mark = Unvisited | InProgress | Done

record 'a dfs_state =
  df_marks :: "'a \<Rightarrow> mark"
  df_path :: "'a list"
  df_order :: "'a list"

primrec dfs_all ::
    "('a \<Rightarrow> 'a dfs_state \<Rightarrow> ('a list + 'a dfs_state) outcome) \<Rightarrow> 'a list \<Rightarrow> 'a dfs_state \<Rightarrow>
     ('a list + 'a dfs_state) outcome" where
  "dfs_all f [] st = Ret (Inr st)"
| "dfs_all f (v # vs) st =
     obind (f v st) (\<lambda>r. case r of Inl c \<Rightarrow> Ret (Inl c) | Inr st' \<Rightarrow> dfs_all f vs st')"

definition dfs_cycle :: "'a \<Rightarrow> 'a list \<Rightarrow> 'a list" where
  "dfs_cycle v path =
     drop (case position (\<lambda>n. n = v) path of Some i \<Rightarrow> i | None \<Rightarrow> 0) path @ [v]"

primrec dfs_visit ::
    "('a \<Rightarrow> 'a list) \<Rightarrow> nat \<Rightarrow> 'a \<Rightarrow> 'a dfs_state \<Rightarrow> ('a list + 'a dfs_state) outcome" where
  "dfs_visit s 0 v st = NoFuel"
| "dfs_visit s (Suc n) v st =
     (case df_marks st v of
        Done \<Rightarrow> Ret (Inr st)
      | InProgress \<Rightarrow> Ret (Inl (dfs_cycle v (df_path st)))
      | Unvisited \<Rightarrow>
          obind (dfs_all (dfs_visit s n) (s v)
                   (st\<lparr>df_marks := (df_marks st)(v := InProgress), df_path := df_path st @ [v]\<rparr>))
            (\<lambda>r. case r of
               Inl c \<Rightarrow> Ret (Inl c)
             | Inr st' \<Rightarrow> Ret (Inr (st'\<lparr>df_marks := (df_marks st')(v := Done),
                                    df_path := butlast (df_path st'),
                                    df_order := df_order st' @ [v]\<rparr>))))"

definition dfs_init :: "'a dfs_state" where
  "dfs_init = \<lparr>df_marks = (\<lambda>_. Unvisited), df_path = [], df_order = []\<rparr>"

locale digraph =
  fixes inv :: "'g \<Rightarrow> bool"
    and verts :: "'g \<Rightarrow> 'a set"
    and succ :: "'g \<Rightarrow> 'a \<Rightarrow> 'a list"
  assumes finite_verts: "inv g \<Longrightarrow> finite (verts g)"
    and succ_verts: "inv g \<Longrightarrow> v \<in> verts g \<Longrightarrow> set (succ g v) \<subseteq> verts g"
begin

lemma path_verts: "inv g \<Longrightarrow> path_in (succ g) p \<Longrightarrow> hd p \<in> verts g \<Longrightarrow> set p \<subseteq> verts g"
  using path_in_subset [of "succ g" p "verts g"] succ_verts by blast

text \<open>
  The invariant of the search: the path is the vertices in progress, each reached from the one
  before; the order is the finished vertices, and it is topological.
\<close>

definition dfs_inv :: "'g \<Rightarrow> 'a dfs_state \<Rightarrow> bool" where
  "dfs_inv g st \<longleftrightarrow>
     (df_path st = [] \<or> path_in (succ g) (df_path st)) \<and>
     distinct (df_path st) \<and> set (df_path st) = {v. df_marks st v = InProgress} \<and>
     distinct (df_order st) \<and> set (df_order st) = {v. df_marks st v = Done} \<and>
     topo (succ g) (df_order st) \<and>
     set (df_path st) \<subseteq> verts g \<and> set (df_order st) \<subseteq> verts g"

definition unvisited :: "'g \<Rightarrow> 'a dfs_state \<Rightarrow> 'a set" where
  "unvisited g st = {v \<in> verts g. df_marks st v = Unvisited}"

text \<open>What a visit of \<open>v\<close> returns: a cycle, or \<open>v\<close> finished, the path as before, more order.\<close>

definition dfs_result :: "'g \<Rightarrow> 'a list \<Rightarrow> 'a dfs_state \<Rightarrow> 'a list + 'a dfs_state \<Rightarrow> bool" where
  "dfs_result g vs st r \<longleftrightarrow>
     (case r of
        Inl c \<Rightarrow> is_cycle (succ g) c \<and> set c \<subseteq> verts g
      | Inr st' \<Rightarrow> dfs_inv g st' \<and> df_path st' = df_path st \<and>
          (\<forall>v \<in> set vs. df_marks st' v = Done) \<and> unvisited g st' \<subseteq> unvisited g st \<and>
          (\<exists>new. df_order st' = df_order st @ new))"

lemma dfs_init_inv [wf_intros]: "dfs_inv g dfs_init"
  by (simp add: dfs_inv_def dfs_init_def)

lemma dfs_cycle_is_cycle:
  assumes "dfs_inv g st" "df_marks st v = InProgress" "v \<in> set (succ g (last (df_path st)))"
  shows "is_cycle (succ g) (dfs_cycle v (df_path st)) \<and> set (dfs_cycle v (df_path st)) \<subseteq> verts g"
proof -
  have v: "v \<in> set (df_path st)"
    using assms(1,2) by (auto simp: dfs_inv_def)
  then have "position (\<lambda>n. n = v) (df_path st) \<noteq> None"
    by (auto simp: position_None)
  then obtain i where i: "position (\<lambda>n. n = v) (df_path st) = Some i"
    by blast
  obtain ys zs where s: "df_path st = ys @ v # zs" "length ys = i"
    using position_Some_split [OF i] by metis
  have c: "dfs_cycle v (df_path st) = (v # zs) @ [v]"
    unfolding dfs_cycle_def i using s by simp
  have "path_in (succ g) (ys @ v # zs)"
    using assms(1) v by (auto simp: dfs_inv_def s)
  then have "path_in (succ g) (v # zs)"
    by (cases "ys = []") (auto simp: path_in_append)
  moreover have "last (v # zs) = last (df_path st)"
    by (simp add: s)
  ultimately have "is_cycle (succ g) ((v # zs) @ [v])"
    using assms(3) by (simp add: is_cycle_def path_in_snoc del: append_Cons)
  moreover have "set ((v # zs) @ [v]) \<subseteq> verts g"
    using assms(1) by (auto simp: dfs_inv_def s)
  ultimately show ?thesis
    unfolding c by blast
qed

lemma dfs_push_inv:
  assumes "dfs_inv g st" "v \<in> verts g" "df_marks st v = Unvisited"
    and "df_path st \<noteq> [] \<Longrightarrow> v \<in> set (succ g (last (df_path st)))"
  shows "dfs_inv g (st\<lparr>df_marks := (df_marks st)(v := InProgress), df_path := df_path st @ [v]\<rparr>)"
proof -
  have "v \<notin> set (df_path st)"
    using assms(1,3) by (auto simp: dfs_inv_def)
  moreover have "path_in (succ g) (df_path st @ [v])"
    using assms(1,4) by (cases "df_path st = []") (auto simp: dfs_inv_def path_in_snoc)
  ultimately show ?thesis
    using assms(1-3) by (auto simp: dfs_inv_def)
qed

lemma dfs_pop_inv:
  assumes "dfs_inv g st" "df_path st = p @ [v]" "\<forall>w \<in> set (succ g v). df_marks st w = Done"
  shows "dfs_inv g (st\<lparr>df_marks := (df_marks st)(v := Done), df_path := butlast (df_path st),
     df_order := df_order st @ [v]\<rparr>)"
proof -
  have "v \<in> {w. df_marks st w = InProgress}"
    using assms(1,2) unfolding dfs_inv_def by (metis in_set_conv_decomp)
  then have v: "df_marks st v = InProgress" "v \<notin> set p" "v \<notin> set (df_order st)"
    using assms(1,2) by (auto simp: dfs_inv_def)
  moreover have "set p = {w. df_marks st w = InProgress} - {v}"
    using assms(1,2) v(2) by (auto simp: dfs_inv_def)
  moreover have "p = [] \<or> path_in (succ g) p"
    using assms(1,2) by (cases "p = []") (auto simp: dfs_inv_def path_in_snoc)
  moreover have "topo (succ g) (df_order st @ [v])"
    using assms(1,3) by (auto simp: topo_snoc dfs_inv_def)
  ultimately show ?thesis
    using assms(1,2) by (auto simp: dfs_inv_def)
qed

lemma dfs_all_result:
  assumes f: "\<And>v st. v \<in> set vs \<Longrightarrow> dfs_inv g st \<Longrightarrow> df_path st = p \<Longrightarrow>
      unvisited g st \<subseteq> U \<Longrightarrow> \<exists>r. f v st = Ret r \<and> dfs_result g [v] st r"
    and "dfs_inv g st" "df_path st = p" "unvisited g st \<subseteq> U"
  shows "\<exists>r. dfs_all f vs st = Ret r \<and> dfs_result g vs st r"
  using assms
proof (induction vs arbitrary: st)
  case Nil
  then show ?case by (simp add: dfs_result_def)
next
  case (Cons v vs)
  from Cons.prems(1) [of v st] Cons.prems(2-4) obtain r where
    r: "f v st = Ret r" "dfs_result g [v] st r"
    by auto
  show ?case
  proof (cases r)
    case (Inl c)
    then show ?thesis
      using r by (simp add: dfs_result_def)
  next
    case (Inr st')
    then have st': "dfs_inv g st'" "df_path st' = p" "unvisited g st' \<subseteq> unvisited g st"
        "df_marks st' v = Done" "\<exists>new. df_order st' = df_order st @ new"
      using r(2) Cons.prems(3) by (auto simp: dfs_result_def)
    obtain r' where r': "dfs_all f vs st' = Ret r'" "dfs_result g vs st' r'"
      using Cons.IH [of st'] Cons.prems(1,4) st' by (metis list.set_intros(2) order_trans)
    have "dfs_result g (v # vs) st r'"
    proof (cases r')
      case (Inl c)
      then show ?thesis using r'(2) by (simp add: dfs_result_def)
    next
      case (Inr st'')
      have "v \<in> set (df_order st')"
        using st'(1,4) by (auto simp: dfs_inv_def)
      then have "df_marks st'' v = Done"
        using r'(2) Inr by (auto simp: dfs_result_def dfs_inv_def)
      then show ?thesis
        using r'(2) Inr st'(2,3,5) Cons.prems(3) by (auto simp: dfs_result_def)
    qed
    then show ?thesis
      using r(1) r'(1) Inr by (simp add: outcome_simps)
  qed
qed

lemma dfs_visit_result:
  assumes "inv g"
  shows "dfs_inv g st \<Longrightarrow> v \<in> verts g \<Longrightarrow>
    (df_path st \<noteq> [] \<Longrightarrow> v \<in> set (succ g (last (df_path st)))) \<Longrightarrow>
    (df_marks st v = InProgress \<Longrightarrow> df_path st \<noteq> []) \<Longrightarrow>
    card (unvisited g st) < n \<Longrightarrow>
    \<exists>r. dfs_visit (succ g) n v st = Ret r \<and> dfs_result g [v] st r"
proof (induction n arbitrary: v st)
  case 0
  then show ?case by simp
next
  case (Suc n)
  show ?case
  proof (cases "df_marks st v")
    case Done
    then show ?thesis
      using Suc.prems(1) by (simp add: dfs_result_def)
  next
    case InProgress
    then show ?thesis
      using dfs_cycle_is_cycle [OF Suc.prems(1) InProgress] Suc.prems(3,4)
      by (simp add: dfs_result_def)
  next
    case Unvisited
    let ?st = "st\<lparr>df_marks := (df_marks st)(v := InProgress), df_path := df_path st @ [v]\<rparr>"
    have inv1: "dfs_inv g ?st"
      by (rule dfs_push_inv [OF Suc.prems(1,2) Unvisited Suc.prems(3)])
    have "unvisited g ?st = unvisited g st - {v}"
      by (auto simp: unvisited_def)
    moreover have "v \<in> unvisited g st" "finite (unvisited g st)"
      using Suc.prems(2) Unvisited finite_verts [OF assms] by (auto simp: unvisited_def)
    ultimately have small: "card (unvisited g ?st) < n"
      using Suc.prems(5) by (metis card_Diff1_less less_Suc_eq_le order_less_le_trans)
    have "\<exists>r. dfs_all (dfs_visit (succ g) n) (succ g v) ?st = Ret r \<and> dfs_result g (succ g v) ?st r"
    proof (rule dfs_all_result [where p = "df_path ?st" and U = "unvisited g ?st"])
      fix w st'
      assume w: "w \<in> set (succ g v)" "dfs_inv g st'" "df_path st' = df_path ?st"
        "unvisited g st' \<subseteq> unvisited g ?st"
      have "card (unvisited g st') \<le> card (unvisited g ?st)"
        using w(4) finite_verts [OF assms] by (intro card_mono) (auto simp: unvisited_def)
      with small have "card (unvisited g st') < n" by simp
      moreover have "w \<in> verts g"
        using succ_verts [OF assms Suc.prems(2)] w(1) by blast
      ultimately show "\<exists>r. dfs_visit (succ g) n w st' = Ret r \<and> dfs_result g [w] st' r"
        using Suc.IH [of st' w] w by simp
    qed (use inv1 in simp_all)
    then obtain r where r: "dfs_all (dfs_visit (succ g) n) (succ g v) ?st = Ret r"
        "dfs_result g (succ g v) ?st r"
      by blast
    show ?thesis
    proof (cases r)
      case (Inl c)
      then show ?thesis
        using r Unvisited by (simp add: dfs_result_def outcome_simps)
    next
      case (Inr st')
      let ?fin = "st'\<lparr>df_marks := (df_marks st')(v := Done), df_path := butlast (df_path st'),
                      df_order := df_order st' @ [v]\<rparr>"
      have st': "dfs_inv g st'" "df_path st' = df_path st @ [v]"
          "\<forall>w \<in> set (succ g v). df_marks st' w = Done" "unvisited g st' \<subseteq> unvisited g ?st"
          "\<exists>new. df_order st' = df_order st @ new"
        using r(2) Inr by (auto simp: dfs_result_def)
      have "dfs_result g [v] st (Inr ?fin)"
        using dfs_pop_inv [OF st'(1,2,3)] st'(2,4,5)
        by (auto simp: dfs_result_def unvisited_def)
      moreover have "dfs_visit (succ g) (Suc n) v st = Ret (Inr ?fin)"
        using r(1) Inr Unvisited by (simp add: outcome_simps)
      ultimately show ?thesis by blast
    qed
  qed
qed

text \<open>Visiting every vertex from the start: a cycle, or a topological order of the graph.\<close>

lemma dfs_roots_result:
  assumes "inv g" "set vs = verts g" "card (verts g) < n"
  shows "\<exists>r. dfs_all (dfs_visit (succ g) n) vs dfs_init = Ret r \<and>
    (case r of
       Inl c \<Rightarrow> is_cycle (succ g) c \<and> set c \<subseteq> verts g
     | Inr st \<Rightarrow> set (df_order st) = verts g \<and> distinct (df_order st) \<and> topo (succ g) (df_order st))"
proof -
  have "\<exists>r. dfs_all (dfs_visit (succ g) n) vs dfs_init = Ret r \<and> dfs_result g vs dfs_init r"
  proof (rule dfs_all_result [where p = "[]" and U = "verts g"])
    fix v st
    assume v: "v \<in> set vs" "dfs_inv g st" "df_path st = []" "unvisited g st \<subseteq> verts g"
    have "card (unvisited g st) \<le> card (verts g)"
      using v(4) finite_verts [OF assms(1)] by (rule card_mono [rotated])
    moreover have "df_marks st v \<noteq> InProgress"
      using v(2,3) by (auto simp: dfs_inv_def)
    ultimately show "\<exists>r. dfs_visit (succ g) n v st = Ret r \<and> dfs_result g [v] st r"
      using dfs_visit_result [OF assms(1) v(2), of v n] v(1,3) assms(2,3) by simp
  next
    show "dfs_inv g dfs_init"
      by (rule dfs_init_inv)
  qed (auto simp: dfs_init_def unvisited_def)
  then obtain r where r: "dfs_all (dfs_visit (succ g) n) vs dfs_init = Ret r" "dfs_result g vs dfs_init r"
    by blast
  then show ?thesis
    using assms(2) by (cases r) (auto simp: dfs_result_def dfs_inv_def)
qed

lemma topological_no_cycle:
  assumes "set order = verts g" "distinct order" "topo (succ g) order" "is_cycle (succ g) c"
  shows "\<not> set c \<subseteq> verts g"
proof
  assume "set c \<subseteq> verts g"
  moreover have "c \<noteq> []"
    using assms(4) by (auto simp: is_cycle_def path_in_def)
  ultimately have "hd c \<in> set order"
    using assms(1) hd_in_set [of c] by auto
  with topo_acyclic [OF assms(3,2)] assms(4) show False by blast
qed

end

end
