(* ===== verification/Dependency_Graph.thy ===== *)
theory Dependency_Graph
  imports Package_Manifest Digraph
begin

text \<open>
  The dependency graph and its load order (\<open>crates/nyarix-loader/src/dependency_graph.rs\<close>).
  Names are ordered as the code orders strings, by their bytes. The recursion of \<open>visit\<close> has
  fuel: one more than the number of packages is enough.
\<close>

type_synonym dependency_edges = "string \<rightharpoonup> string list"

definition dg_build :: "('v, 'r) package_manifest list \<Rightarrow> dependency_edges" where
  "dg_build manifests =
     fold (\<lambda>m edges. edges(pi_name (pm_package m) \<mapsto> map fst (pm_dependencies m))) manifests Map.empty"

text \<open>The first argument of the operations below is the order of the hash map's keys.\<close>

definition dg_names :: "string list \<Rightarrow> dependency_edges \<Rightarrow> string list" where
  "dg_names ks edges = ks"

definition dg_deps :: "dependency_edges \<Rightarrow> string \<Rightarrow> string list" where
  "dg_deps edges name = (case edges name of None \<Rightarrow> [] | Some deps \<Rightarrow> deps)"

definition dg_missing_dependencies :: "string list \<Rightarrow> dependency_edges \<Rightarrow> (string \<times> string) list" where
  "dg_missing_dependencies ks edges =
     sort_key fst (sort_key snd (concat (map (\<lambda>name. map (\<lambda>dep. (name, dep))
       (filter (\<lambda>dep. edges dep = None) (dg_deps edges name))) ks)))"

record dg_state =
  dg_marks :: "string \<rightharpoonup> mark"
  dg_path :: "string list"
  dg_order :: "string list"

text \<open>The loop over a package's dependencies; \<open>visit\<close> is the recursive call.\<close>

fun dg_visit_deps ::
    "(string \<Rightarrow> dg_state \<Rightarrow> (string list + dg_state) outcome) \<Rightarrow> dependency_edges \<Rightarrow> string list \<Rightarrow>
     dg_state \<Rightarrow> (string list + dg_state) outcome" where
  "dg_visit_deps visit edges [] st = Ret (Inr st)"
| "dg_visit_deps visit edges (dep # deps) st =
     (if edges dep \<noteq> None
      then obind (visit dep st) (\<lambda>r. case r of
             Inl cycle \<Rightarrow> Ret (Inl cycle)
           | Inr st' \<Rightarrow> dg_visit_deps visit edges deps st')
      else dg_visit_deps visit edges deps st)"

fun dg_visit :: "dependency_edges \<Rightarrow> nat \<Rightarrow> string \<Rightarrow> dg_state \<Rightarrow> (string list + dg_state) outcome" where
  "dg_visit edges 0 name st = NoFuel"
| "dg_visit edges (Suc fuel) name st =
     (case dg_marks st name of
        Some Done \<Rightarrow> Ret (Inr st)
      | Some InProgress \<Rightarrow>
          (let start = (case position (\<lambda>n. n = name) (dg_path st) of None \<Rightarrow> 0 | Some i \<Rightarrow> i);
               cycle = drop start (dg_path st)
           in Ret (Inl (cycle @ [name])))
      | _ \<Rightarrow>
          (let st1 = st\<lparr>dg_marks := (dg_marks st)(name \<mapsto> InProgress), dg_path := dg_path st @ [name]\<rparr>
           in obind
                (case edges name of
                   None \<Rightarrow> Ret (Inr st1)
                 | Some deps \<Rightarrow> dg_visit_deps (dg_visit edges fuel) edges (sort deps) st1)
                (\<lambda>r. case r of
                   Inl cycle \<Rightarrow> Ret (Inl cycle)
                 | Inr st2 \<Rightarrow>
                     Ret (Inr (st2\<lparr>dg_marks := (dg_marks st2)(name \<mapsto> Done),
                                   dg_path := butlast (dg_path st2),
                                   dg_order := dg_order st2 @ [name]\<rparr>)))))"

fun dg_visit_names ::
    "dependency_edges \<Rightarrow> nat \<Rightarrow> string list \<Rightarrow> dg_state \<Rightarrow> (string list + dg_state) outcome" where
  "dg_visit_names edges fuel [] st = Ret (Inr st)"
| "dg_visit_names edges fuel (name # names) st =
     obind (dg_visit edges fuel name st) (\<lambda>r. case r of
       Inl cycle \<Rightarrow> Ret (Inl cycle)
     | Inr st' \<Rightarrow> dg_visit_names edges fuel names st')"

text \<open>The result is a cycle, or a load order.\<close>

definition dg_load_order :: "string list \<Rightarrow> dependency_edges \<Rightarrow> (string list + string list) outcome" where
  "dg_load_order ks edges =
     obind (dg_visit_names edges (Suc (length ks)) (sort ks)
              \<lparr>dg_marks = (\<lambda>k. map_option (\<lambda>_. Unvisited) (edges k)), dg_path = [], dg_order = []\<rparr>)
       (\<lambda>r. case r of Inl cycle \<Rightarrow> Ret (Inl cycle) | Inr st \<Rightarrow> Ret (Inr (dg_order st)))"

subsection \<open>The graph\<close>

lemma dg_build_snoc:
  "dg_build (ms @ [m]) = (dg_build ms)(pi_name (pm_package m) \<mapsto> map fst (pm_dependencies m))"
  by (simp add: dg_build_def)

lemma dg_build_dom: "dom (dg_build ms) = (\<lambda>m. pi_name (pm_package m)) ` set ms"
proof (induction ms rule: rev_induct)
  case Nil
  then show ?case by (simp add: dg_build_def)
next
  case (snoc m ms)
  then show ?case by (simp only: dg_build_snoc dom_fun_upd) simp
qed

lemma dg_build_finite [simp]: "finite (dom (dg_build ms))"
  by (simp add: dg_build_dom)

lemma dg_missing_iff:
  assumes "is_order ks edges"
  shows "set (dg_missing_dependencies ks edges) =
    {(p, d). p \<in> dom edges \<and> d \<in> set (dg_deps edges p) \<and> d \<notin> dom edges}"
  using assms by (auto simp: dg_missing_dependencies_def)

text \<open>The dependencies the search follows: those that are packages, in order.\<close>

definition dg_succs :: "dependency_edges \<Rightarrow> string \<Rightarrow> string list" where
  "dg_succs edges name = filter (\<lambda>d. edges d \<noteq> None) (sort (dg_deps edges name))"

lemma dg_succs_iff: "d \<in> set (dg_succs edges n) \<longleftrightarrow> d \<in> dom edges \<and> d \<in> set (dg_deps edges n)"
  by (auto simp: dg_succs_def)

interpretation dg: digraph "\<lambda>edges. finite (dom edges)" dom dg_succs
  by unfold_locales (auto simp: dg_succs_iff)

subsection \<open>Refinement of the depth-first search\<close>

definition dg_mark :: "mark option \<Rightarrow> mark" where
  "dg_mark m = (case m of None \<Rightarrow> Unvisited | Some k \<Rightarrow> k)"

definition dg_abs :: "dg_state \<Rightarrow> string dfs_state" where
  "dg_abs st = \<lparr>df_marks = (\<lambda>n. dg_mark (dg_marks st n)), df_path = dg_path st, df_order = dg_order st\<rparr>"

definition dg_abs_result :: "string list + dg_state \<Rightarrow> string list + string dfs_state" where
  "dg_abs_result = map_sum id dg_abs"

lemma dg_abs_push:
  "dg_abs (st\<lparr>dg_marks := (dg_marks st)(n \<mapsto> k), dg_path := p\<rparr>) =
   (dg_abs st)\<lparr>df_marks := (df_marks (dg_abs st))(n := k), df_path := p\<rparr>"
  by (simp add: dg_abs_def dg_mark_def fun_eq_iff)

lemma dg_abs_pop:
  "dg_abs (st\<lparr>dg_marks := (dg_marks st)(n \<mapsto> k), dg_path := p, dg_order := os\<rparr>) =
   (dg_abs st)\<lparr>df_marks := (df_marks (dg_abs st))(n := k), df_path := p, df_order := os\<rparr>"
  by (simp add: dg_abs_def dg_mark_def fun_eq_iff)

lemma map_outcome_obind:
  "(\<And>r. map_outcome h (F r) = G (h' r)) \<Longrightarrow> map_outcome h (obind m F) = obind (map_outcome h' m) G"
  by (cases m) simp_all

lemma dg_visit_deps_refines:
  assumes rec: "\<And>d st. map_outcome dg_abs_result (visit d st) = f d (dg_abs st)"
  shows "map_outcome dg_abs_result (dg_visit_deps visit edges ds st) =
    dfs_all f (filter (\<lambda>d. edges d \<noteq> None) ds) (dg_abs st)"
proof (induction ds arbitrary: st)
  case Nil
  then show ?case by (simp add: dg_abs_result_def)
next
  case (Cons d ds)
  show ?case
  proof (cases "edges d = None")
    case True
    with Cons show ?thesis by simp
  next
    case False
    have "f d (dg_abs st) = map_outcome dg_abs_result (visit d st)"
      by (rule rec [symmetric])
    with False Cons show ?thesis
      by (cases "visit d st") (auto simp: dg_abs_result_def outcome_simps split: sum.splits)
  qed
qed

lemma dg_visit_refines:
  "map_outcome dg_abs_result (dg_visit edges n name st) = dfs_visit (dg_succs edges) n name (dg_abs st)"
proof (induction n arbitrary: name st)
  case 0
  then show ?case by simp
next
  case (Suc n)
  let ?st = "st\<lparr>dg_marks := (dg_marks st)(name \<mapsto> InProgress), dg_path := dg_path st @ [name]\<rparr>"
  have deps: "map_outcome dg_abs_result
      (case edges name of None \<Rightarrow> Ret (Inr ?st)
       | Some deps \<Rightarrow> dg_visit_deps (dg_visit edges n) edges (sort deps) ?st) =
    dfs_all (dfs_visit (dg_succs edges) n) (dg_succs edges name) (dg_abs ?st)"
  proof (cases "edges name")
    case None
    then show ?thesis by (simp add: dg_succs_def dg_deps_def dg_abs_result_def)
  next
    case (Some ds)
    then have "dg_succs edges name = filter (\<lambda>d. edges d \<noteq> None) (sort ds)"
      unfolding dg_succs_def dg_deps_def by (simp only: option.case)
    with Some dg_visit_deps_refines [of "dg_visit edges n" "dfs_visit (dg_succs edges) n" edges, OF Suc.IH]
    show ?thesis by (simp only: option.case)
  qed
  have marks: "df_marks (dg_abs st) name = dg_mark (dg_marks st name)" "df_path (dg_abs st) = dg_path st"
      "df_order (dg_abs st) = dg_order st"
    by (simp_all add: dg_abs_def)
  consider (fin) "dg_marks st name = Some Done" | (busy) "dg_marks st name = Some InProgress"
    | (new) "dg_mark (dg_marks st name) = Unvisited"
    by (cases "dg_marks st name"; cases "the (dg_marks st name)") (auto simp: dg_mark_def)
  then show ?case
  proof cases
    case fin
    then show ?thesis
      by (simp add: marks dg_mark_def dg_abs_result_def)
  next
    case busy
    then show ?thesis
      by (simp add: marks dg_mark_def dg_abs_result_def dfs_cycle_def Let_def)
  next
    case new
    have "dg_visit edges (Suc n) name st =
      obind (case edges name of None \<Rightarrow> Ret (Inr ?st)
             | Some deps \<Rightarrow> dg_visit_deps (dg_visit edges n) edges (sort deps) ?st)
        (\<lambda>r. case r of
           Inl cycle \<Rightarrow> Ret (Inl cycle)
         | Inr st2 \<Rightarrow> Ret (Inr (st2\<lparr>dg_marks := (dg_marks st2)(name \<mapsto> Done),
             dg_path := butlast (dg_path st2), dg_order := dg_order st2 @ [name]\<rparr>)))"
      using new by (cases "dg_marks st name") (auto simp: dg_mark_def Let_def split: mark.splits)
    then have "map_outcome dg_abs_result (dg_visit edges (Suc n) name st) =
      obind (dfs_all (dfs_visit (dg_succs edges) n) (dg_succs edges name) (dg_abs ?st))
        (\<lambda>r. case r of
           Inl c \<Rightarrow> Ret (Inl c)
         | Inr d \<Rightarrow> Ret (Inr (d\<lparr>df_marks := (df_marks d)(name := Done),
             df_path := butlast (df_path d), df_order := df_order d @ [name]\<rparr>)))"
      unfolding deps [symmetric]
      by (simp only:) (rule map_outcome_obind, simp add: dg_abs_result_def dg_abs_pop split: sum.split,
        simp add: dg_abs_def)
    also have "\<dots> = dfs_visit (dg_succs edges) (Suc n) name (dg_abs st)"
      using new by (simp add: marks dg_abs_push)
    finally show ?thesis .
  qed
qed

lemma dg_visit_names_refines:
  "map_outcome dg_abs_result (dg_visit_names edges n names st) =
   dfs_all (dfs_visit (dg_succs edges) n) names (dg_abs st)"
proof (induction names arbitrary: st)
  case Nil
  then show ?case by (simp add: dg_abs_result_def)
next
  case (Cons d ds)
  have "dfs_visit (dg_succs edges) n d (dg_abs st) = map_outcome dg_abs_result (dg_visit edges n d st)"
    by (rule dg_visit_refines [symmetric])
  with Cons show ?case
    by (cases "dg_visit edges n d st") (auto simp: dg_abs_result_def outcome_simps split: sum.splits)
qed

subsection \<open>Load order\<close>

lemma topo_prefix:
  "topo (dg_succs edges) xs \<Longrightarrow> xs = ys @ x # zs \<Longrightarrow>
   d \<in> dom edges \<Longrightarrow> d \<in> set (dg_deps edges x) \<Longrightarrow> d \<in> set ys"
  unfolding topo_def by (metis dg_succs_iff subsetD)

lemma dg_load_order_result:
  assumes "is_order ks edges"
  shows "\<exists>r. dg_load_order ks edges = Ret r \<and>
    (case r of
       Inl c \<Rightarrow> is_cycle (dg_succs edges) c \<and> set c \<subseteq> dom edges
     | Inr order \<Rightarrow> set order = dom edges \<and> distinct order \<and> topo (dg_succs edges) order)"
proof -
  let ?st = "\<lparr>dg_marks = (\<lambda>k. map_option (\<lambda>_. Unvisited) (edges k)), dg_path = [], dg_order = []\<rparr>"
  have fin: "finite (dom edges)"
    by (rule is_order_finite [OF assms])
  have n: "card (dom edges) < Suc (length ks)"
    using is_order_length [OF assms] by simp
  have ks: "set (sort ks) = dom edges"
    using assms by simp
  have init: "dg_abs ?st = dfs_init"
    by (simp add: dg_abs_def dfs_init_def dg_mark_def fun_eq_iff split: option.split)
  from dg.dfs_roots_result [OF fin ks n] obtain r where
    r: "dfs_all (dfs_visit (dg_succs edges) (Suc (length ks))) (sort ks) dfs_init = Ret r"
      "case r of Inl c \<Rightarrow> is_cycle (dg_succs edges) c \<and> set c \<subseteq> dom edges
       | Inr d \<Rightarrow> set (df_order d) = dom edges \<and> distinct (df_order d) \<and>
           topo (dg_succs edges) (df_order d)"
    by blast
  have "map_outcome dg_abs_result (dg_visit_names edges (Suc (length ks)) (sort ks) ?st) = Ret r"
    using dg_visit_names_refines [of edges "Suc (length ks)" "sort ks" ?st] r(1) init by simp
  then obtain r' where r': "dg_visit_names edges (Suc (length ks)) (sort ks) ?st = Ret r'"
      "r = dg_abs_result r'"
    by (cases "dg_visit_names edges (Suc (length ks)) (sort ks) ?st") auto
  with r(2) show ?thesis
    by (cases r') (auto simp: dg_load_order_def outcome_simps dg_abs_result_def dg_abs_def)
qed

text \<open>
  C14. Load order: for any set of manifests the computation ends. It returns either an order in
  which every package appears once and after all of its dependencies that are packages, or a
  real cycle of dependencies; and it returns a cycle exactly when there is one.
\<close>

theorem load_order_result:
  assumes "is_order ks (dg_build ms)"
  shows "\<exists>r. dg_load_order ks (dg_build ms) = Ret r \<and>
    (case r of
       Inl c \<Rightarrow> is_cycle (dg_succs (dg_build ms)) c
     | Inr order \<Rightarrow> set order = (\<lambda>m. pi_name (pm_package m)) ` set ms \<and> distinct order \<and>
         (\<forall>ys x zs d. order = ys @ x # zs \<longrightarrow> d \<in> set (dg_deps (dg_build ms) x) \<longrightarrow>
            d \<in> set order \<longrightarrow> d \<in> set ys) \<and>
         (\<nexists>c. is_cycle (dg_succs (dg_build ms)) c \<and> set c \<subseteq> set order))"
proof -
  from dg_load_order_result [OF assms] obtain r where r: "dg_load_order ks (dg_build ms) = Ret r"
    "case r of
       Inl c \<Rightarrow> is_cycle (dg_succs (dg_build ms)) c \<and> set c \<subseteq> dom (dg_build ms)
     | Inr order \<Rightarrow> set order = dom (dg_build ms) \<and> distinct order \<and>
         topo (dg_succs (dg_build ms)) order"
    by blast
  show ?thesis
  proof (cases r)
    case (Inl c)
    with r show ?thesis by simp
  next
    case (Inr order)
    with r(2) have o: "set order = dom (dg_build ms)" "distinct order"
        "topo (dg_succs (dg_build ms)) order"
      by simp_all
    have "\<not> (is_cycle (dg_succs (dg_build ms)) c \<and> set c \<subseteq> set order)" for c
      using dg.topological_no_cycle [OF o(1,2,3)] o(1) by blast
    moreover have "d \<in> set ys" if "order = ys @ x # zs" "d \<in> set (dg_deps (dg_build ms) x)" "d \<in> set order"
      for ys x zs d
      using topo_prefix [OF o(3) that(1)] that(2,3) o(1) by blast
    moreover have "set order = (\<lambda>m. pi_name (pm_package m)) ` set ms"
      using o(1) by (simp only: dg_build_dom)
    ultimately show ?thesis
      unfolding r(1) Inr using o(2) by (intro exI [of _ "Inr order"]) (simp only: sum.case, blast)
  qed
qed

end
