(* ===== verification/Package_Archive.thy ===== *)
theory Package_Archive
  imports Package_Manifest "HOL-Library.Multiset"
begin

text \<open>
  The \<open>.nyp\<close> archive, its signature and the trust it earns
  (\<open>crates/nyarix-package/src/archive.rs\<close>, \<open>signing.rs\<close>, \<open>trust.rs\<close>).

  The packages \<open>tar\<close>, \<open>zstd\<close>, \<open>ed25519-dalek\<close> and \<open>toml\<close> are arguments. What their
  documentation promises is the locales \<open>archive_codec\<close> and \<open>ed25519\<close>: unpacking what was packed
  gives it back, and a signature verifies under the key that made it. That nobody else can make
  such a signature is not stated, and not used.
\<close>

subsection \<open>The external packages\<close>

type_synonym 'e io_result = "io_error + 'e"

record archive_ops =
  ar_compress :: "bytes \<Rightarrow> bytes io_result"
  ar_decompress :: "bytes \<Rightarrow> bytes io_result"
  ar_build :: "(string \<times> bytes) list \<Rightarrow> bytes io_result"
  ar_entries :: "bytes \<Rightarrow> (string io_result \<times> bytes io_result) io_result list io_result"
  ar_utf8 :: "bytes \<Rightarrow> string io_result"
  ar_sort :: "(string \<times> bytes) list \<Rightarrow> (string \<times> bytes) list"

record ('sk, 'pk) ed25519_ops =
  ed_sign :: "'sk \<Rightarrow> bytes \<Rightarrow> bytes"
  ed_public :: "'sk \<Rightarrow> 'pk"
  ed_verify :: "'pk \<Rightarrow> bytes \<Rightarrow> bytes \<Rightarrow> bool"
  ed_key_bytes :: "'pk \<Rightarrow> bytes"
  ed_key_from_bytes :: "bytes \<Rightarrow> 'pk option"

subsection \<open>Signing\<close>

definition SIGNATURE_MEMBER_PATH :: string where
  "SIGNATURE_MEMBER_PATH = ''signatures/ed25519.sig''"

definition PUBLIC_KEY_MEMBER_PATH :: string where
  "PUBLIC_KEY_MEMBER_PATH = ''signatures/ed25519.pub''"

definition starts_with :: "string \<Rightarrow> string \<Rightarrow> bool" where
  "starts_with prefix s \<longleftrightarrow> take (length prefix) s = prefix"

text \<open>\<open>(len as u64).to_le_bytes()\<close>\<close>

definition le_bytes :: "nat \<Rightarrow> bytes" where
  "le_bytes n = map (\<lambda>i. of_nat (n div 256 ^ i)) [0..<8]"

definition string_bytes :: "string \<Rightarrow> bytes" where
  "string_bytes s = map of_char s"

definition signed_entries :: "(string \<times> bytes) list \<Rightarrow> (string \<times> bytes) list" where
  "signed_entries entries = filter (\<lambda>(path, _). \<not> starts_with ''signatures/'' path) entries"

definition entry_bytes :: "string \<times> bytes \<Rightarrow> bytes" where
  "entry_bytes = (\<lambda>(path, contents). string_bytes path @ [0] @ le_bytes (length contents) @ contents)"

text \<open>\<open>ar_sort\<close> is \<open>sort_unstable_by_key\<close> on the path: the order of equal paths is not specified.\<close>

definition signable_bytes :: "archive_ops \<Rightarrow> (string \<times> bytes) list \<Rightarrow> bytes" where
  "signable_bytes A entries = concat (map entry_bytes (ar_sort A (signed_entries entries)))"

definition sign :: "archive_ops \<Rightarrow> ('sk, 'pk) ed25519_ops \<Rightarrow> (string \<times> bytes) list \<Rightarrow> 'sk \<Rightarrow> bytes" where
  "sign A E entries signing_key = ed_sign E signing_key (signable_bytes A entries)"

datatype signature_verification_failed = SignatureVerificationFailed

definition verify ::
    "archive_ops \<Rightarrow> ('sk, 'pk) ed25519_ops \<Rightarrow> (string \<times> bytes) list \<Rightarrow> bytes \<Rightarrow> 'pk \<Rightarrow>
     signature_verification_failed + unit" where
  "verify A E entries signature verifying_key =
     (if ed_verify E verifying_key (signable_bytes A entries) signature
      then Inr () else Inl SignatureVerificationFailed)"

subsection \<open>Building an archive\<close>

definition archive_io_error :: "io_error \<Rightarrow> package_error" where
  "archive_io_error source = PackageIo ''<in-memory .nyp archive>'' source"

datatype package_builder = PackageBuilder (pb_entries: "(string \<times> bytes) list")

definition package_builder_new :: package_builder where
  "package_builder_new = PackageBuilder []"

definition add_file :: "string \<Rightarrow> bytes \<Rightarrow> package_builder \<Rightarrow> package_builder" where
  "add_file path contents b = PackageBuilder (pb_entries b @ [(path, contents)])"

definition builder_sign ::
    "archive_ops \<Rightarrow> ('sk, 'pk) ed25519_ops \<Rightarrow> 'sk \<Rightarrow> package_builder \<Rightarrow> package_builder" where
  "builder_sign A E signing_key b =
     (let signature = sign A E (pb_entries b) signing_key
      in add_file PUBLIC_KEY_MEMBER_PATH (ed_key_bytes E (ed_public E signing_key))
           (add_file SIGNATURE_MEMBER_PATH signature b))"

definition builder_build_archive :: "archive_ops \<Rightarrow> package_builder \<Rightarrow> package_error + bytes" where
  "builder_build_archive A b =
     (case ar_build A (pb_entries b) of
        Inl e \<Rightarrow> Inl (archive_io_error e)
      | Inr tar_bytes \<Rightarrow>
          (case ar_compress A tar_bytes of Inl e \<Rightarrow> Inl (archive_io_error e) | Inr data \<Rightarrow> Inr data))"

subsection \<open>Reading an archive\<close>

record ('v, 'r) package_reader =
  pr_tar_bytes :: bytes
  pr_manifest :: "('v, 'r) package_manifest"

text \<open>The loop of \<open>open\<close>: the paths seen, and the text of the last manifest.\<close>

fun open_scan ::
    "archive_ops \<Rightarrow> (string io_result \<times> bytes io_result) io_result list \<Rightarrow> string list \<Rightarrow>
     string option \<Rightarrow> package_error + string list \<times> string option" where
  "open_scan A [] entry_paths manifest_raw = Inr (entry_paths, manifest_raw)"
| "open_scan A (entry # rest) entry_paths manifest_raw =
     (case entry of
        Inl e \<Rightarrow> Inl (archive_io_error e)
      | Inr (path, contents) \<Rightarrow>
     (case path of
        Inl e \<Rightarrow> Inl (archive_io_error e)
      | Inr path \<Rightarrow>
          if path = member_path ManifestMember
          then (case contents of
                  Inl e \<Rightarrow> Inl (archive_io_error e)
                | Inr bs \<Rightarrow>
                    (case ar_utf8 A bs of
                       Inl e \<Rightarrow> Inl (archive_io_error e)
                     | Inr buf \<Rightarrow> open_scan A rest (entry_paths @ [path]) (Some buf)))
          else open_scan A rest (entry_paths @ [path]) manifest_raw))"

definition reader_open ::
    "archive_ops \<Rightarrow> (string \<Rightarrow> string + ('v, 'r) package_manifest) \<Rightarrow> bytes \<Rightarrow>
     (package_error + ('v, 'r) package_reader) outcome" where
  "reader_open A parse data =
     (case ar_decompress A data of
        Inl e \<Rightarrow> Ret (Inl (archive_io_error e))
      | Inr tar_bytes \<Rightarrow>
     (case ar_entries A tar_bytes of
        Inl e \<Rightarrow> Ret (Inl (archive_io_error e))
      | Inr es \<Rightarrow>
     (case open_scan A es [] None of
        Inl e \<Rightarrow> Ret (Inl e)
      | Inr (entry_paths, manifest_raw) \<Rightarrow>
     (case validate_layout entry_paths of
        Inl e \<Rightarrow> Ret (Inl e)
      | Inr _ \<Rightarrow>
     (case manifest_raw of
        None \<Rightarrow> Panic ''validate_layout guarantees manifest.toml is present''
      | Some raw \<Rightarrow>
     (case manifest_from_toml parse raw of
        Inl e \<Rightarrow> Ret (Inl e)
      | Inr manifest \<Rightarrow> Ret (Inr \<lparr>pr_tar_bytes = tar_bytes, pr_manifest = manifest\<rparr>)))))))"

fun read_entry_scan ::
    "(string io_result \<times> bytes io_result) io_result list \<Rightarrow> string \<Rightarrow> package_error + bytes option" where
  "read_entry_scan [] path = Inr None"
| "read_entry_scan (entry # rest) path =
     (case entry of
        Inl e \<Rightarrow> Inl (archive_io_error e)
      | Inr (entry_path, contents) \<Rightarrow>
     (case entry_path of
        Inl e \<Rightarrow> Inl (archive_io_error e)
      | Inr entry_path \<Rightarrow>
          if entry_path = path
          then (case contents of Inl e \<Rightarrow> Inl (archive_io_error e) | Inr buf \<Rightarrow> Inr (Some buf))
          else read_entry_scan rest path))"

definition read_entry ::
    "archive_ops \<Rightarrow> string \<Rightarrow> ('v, 'r) package_reader \<Rightarrow> package_error + bytes option" where
  "read_entry A path r =
     (case ar_entries A (pr_tar_bytes r) of
        Inl e \<Rightarrow> Inl (archive_io_error e)
      | Inr es \<Rightarrow> read_entry_scan es path)"

fun entries_scan ::
    "(string io_result \<times> bytes io_result) io_result list \<Rightarrow> (string \<times> bytes) list \<Rightarrow>
     package_error + (string \<times> bytes) list" where
  "entries_scan [] entries = Inr entries"
| "entries_scan (entry # rest) entries =
     (case entry of
        Inl e \<Rightarrow> Inl (archive_io_error e)
      | Inr (path, contents) \<Rightarrow>
     (case path of
        Inl e \<Rightarrow> Inl (archive_io_error e)
      | Inr path \<Rightarrow>
     (case contents of
        Inl e \<Rightarrow> Inl (archive_io_error e)
      | Inr buf \<Rightarrow> entries_scan rest (entries @ [(path, buf)]))))"

definition reader_entries ::
    "archive_ops \<Rightarrow> ('v, 'r) package_reader \<Rightarrow> package_error + (string \<times> bytes) list" where
  "reader_entries A r =
     (case ar_entries A (pr_tar_bytes r) of
        Inl e \<Rightarrow> Inl (archive_io_error e)
      | Inr es \<Rightarrow> entries_scan es [])"

datatype signature_status = Unsigned | Verified | InvalidSignature

definition entry_at :: "string \<Rightarrow> (string \<times> bytes) list \<Rightarrow> bytes option" where
  "entry_at path entries = map_option snd (find (\<lambda>(p, _). p = path) entries)"

definition signature_status ::
    "archive_ops \<Rightarrow> ('sk, 'pk) ed25519_ops \<Rightarrow> ('v, 'r) package_reader \<Rightarrow>
     package_error + signature_status" where
  "signature_status A E r =
     (case reader_entries A r of
        Inl e \<Rightarrow> Inl e
      | Inr entries \<Rightarrow>
          (case (entry_at SIGNATURE_MEMBER_PATH entries, entry_at PUBLIC_KEY_MEMBER_PATH entries) of
             (Some signature_bytes, Some public_key_bytes) \<Rightarrow>
               if length signature_bytes \<noteq> 64 then Inr InvalidSignature
               else if length public_key_bytes \<noteq> 32 then Inr InvalidSignature
               else (case ed_key_from_bytes E public_key_bytes of
                       None \<Rightarrow> Inr InvalidSignature
                     | Some public_key \<Rightarrow>
                         (case verify A E entries signature_bytes public_key of
                            Inr _ \<Rightarrow> Inr Verified
                          | Inl _ \<Rightarrow> Inr InvalidSignature))
           | _ \<Rightarrow> Inr Unsigned))"

definition require_valid_signature ::
    "archive_ops \<Rightarrow> ('sk, 'pk) ed25519_ops \<Rightarrow> ('v, 'r) package_reader \<Rightarrow> package_error + unit" where
  "require_valid_signature A E r =
     (case signature_status A E r of
        Inl e \<Rightarrow> Inl e
      | Inr Verified \<Rightarrow> Inr ()
      | Inr _ \<Rightarrow> Inl (SignatureFailure (pi_name (pm_package (pr_manifest r)))))"

subsection \<open>Trust\<close>

datatype trust_level = SystemTrust | Official | Community | UnknownTrust | LocalTrust | Experimental

type_synonym trust_store = "bytes \<rightharpoonup> trust_level"

definition trust_store_new :: trust_store where
  "trust_store_new = Map.empty"

definition trust :: "('sk, 'pk) ed25519_ops \<Rightarrow> 'pk \<Rightarrow> trust_level \<Rightarrow> trust_store \<Rightarrow> trust_store" where
  "trust E key level s = s(ed_key_bytes E key \<mapsto> level)"

definition level_for :: "('sk, 'pk) ed25519_ops \<Rightarrow> 'pk \<Rightarrow> trust_store \<Rightarrow> trust_level option" where
  "level_for E key s = s (ed_key_bytes E key)"

definition classify ::
    "archive_ops \<Rightarrow> ('sk, 'pk) ed25519_ops \<Rightarrow> ('v, 'r) package_reader \<Rightarrow> trust_store \<Rightarrow>
     package_error + trust_level" where
  "classify A E r s =
     (case signature_status A E r of
        Inl e \<Rightarrow> Inl e
      | Inr status \<Rightarrow>
          if status \<noteq> Verified then Inr UnknownTrust
          else (case read_entry A PUBLIC_KEY_MEMBER_PATH r of
                  Inl e \<Rightarrow> Inl e
                | Inr None \<Rightarrow> Inr UnknownTrust
                | Inr (Some public_key_bytes) \<Rightarrow>
                    if length public_key_bytes \<noteq> 32 then Inr UnknownTrust
                    else (case ed_key_from_bytes E public_key_bytes of
                            None \<Rightarrow> Inr UnknownTrust
                          | Some public_key \<Rightarrow>
                              (case level_for E public_key s of
                                 None \<Rightarrow> Inr UnknownTrust
                               | Some level \<Rightarrow> Inr level))))"

subsection \<open>The signed bytes determine what is signed\<close>

text \<open>Paths without a zero byte, contents shorter than two to the power 64.\<close>

definition signable :: "(string \<times> bytes) list \<Rightarrow> bool" where
  "signable entries \<longleftrightarrow>
     (\<forall>(path, contents) \<in> set entries. 0 \<notin> set (string_bytes path) \<and> length contents < 2 ^ 64)"

definition sorts_by_path :: "((string \<times> bytes) list \<Rightarrow> (string \<times> bytes) list) \<Rightarrow> bool" where
  "sorts_by_path f \<longleftrightarrow> (\<forall>es. mset (f es) = mset es \<and> sorted (map fst (f es)))"

lemma of_char_u8_inj: "(of_char c :: u8) = of_char d \<longleftrightarrow> c = d"
proof
  assume "(of_char c :: u8) = of_char d"
  then have "(word_of_nat (of_char c) :: u8) = word_of_nat (of_char d)"
    by (simp add: of_nat_of_char)
  then have "of_char c mod (256 :: nat) = of_char d mod 256"
    unfolding word_of_nat_eq_iff by (simp add: take_bit_eq_mod)
  then show "c = d"
    by simp
qed simp

lemma string_bytes_inj: "string_bytes s = string_bytes t \<longleftrightarrow> s = t"
  unfolding string_bytes_def by (rule inj_map_eq_map) (simp add: inj_def of_char_u8_inj)

lemma length_le_bytes [simp]: "length (le_bytes n) = 8"
  by (simp add: le_bytes_def)

lemma le_bytes_digit: "i < 8 \<Longrightarrow> unat (le_bytes n ! i) = n div 256 ^ i mod 256"
  by (simp add: le_bytes_def unat_of_nat take_bit_eq_mod)

lemma digits_determine:
  "(\<forall>i < k. m div b ^ i mod b = n div b ^ i mod b) \<Longrightarrow> m mod b ^ k = n mod b ^ k" for m n b :: nat
proof (induction k)
  case 0
  then show ?case by simp
next
  case (Suc k)
  then have "m mod b ^ k = n mod b ^ k" "m div b ^ k mod b = n div b ^ k mod b"
    by simp_all
  then show ?case
    by (simp add: mod_mult2_eq mult.commute [of b])
qed

lemma le_bytes_inj:
  assumes "m < 2 ^ 64" "n < 2 ^ 64" "le_bytes m = le_bytes n"
  shows "m = n"
proof -
  have "m div 256 ^ i mod 256 = n div 256 ^ i mod 256" if "i < 8" for i
    using le_bytes_digit [OF that, of m] le_bytes_digit [OF that, of n] assms(3) by simp
  then have "m mod 256 ^ 8 = n mod 256 ^ 8"
    by (intro digits_determine) blast
  with assms(1,2) show ?thesis
    by simp
qed

lemma split_at_zero:
  "0 \<notin> set xs \<Longrightarrow> 0 \<notin> set ys \<Longrightarrow> xs @ 0 # us = ys @ 0 # vs \<Longrightarrow> xs = ys \<and> us = vs"
  for xs ys :: "'a::zero list"
proof (induction xs arbitrary: ys)
  case Nil
  then show ?case by (cases ys) auto
next
  case (Cons x xs)
  then show ?case by (cases ys) auto
qed

lemma entry_bytes_split:
  assumes "signable [e]" "signable [f]" "entry_bytes e @ us = entry_bytes f @ vs"
  shows "e = f \<and> us = vs"
proof -
  obtain p c q d where e: "e = (p, c)" and f: "f = (q, d)"
    by fastforce
  have "string_bytes p @ 0 # (le_bytes (length c) @ c @ us) =
      string_bytes q @ 0 # (le_bytes (length d) @ d @ vs)"
    using assms(3) by (simp add: e f entry_bytes_def)
  moreover have "0 \<notin> set (string_bytes p)" "0 \<notin> set (string_bytes q)"
    using assms(1,2) by (simp_all add: e f signable_def)
  ultimately have path: "string_bytes p = string_bytes q"
    and rest: "le_bytes (length c) @ c @ us = le_bytes (length d) @ d @ vs"
    using split_at_zero by blast+
  from rest have len: "le_bytes (length c) = le_bytes (length d)" and contents: "c @ us = d @ vs"
    by (simp_all add: append_eq_append_conv)
  have "length c < 2 ^ 64" "length d < 2 ^ 64"
    using assms(1,2) by (simp_all add: e f signable_def)
  from le_bytes_inj [OF this len] contents have "c = d \<and> us = vs"
    by simp
  with path show ?thesis
    by (simp add: e f string_bytes_inj)
qed

lemma entries_bytes_inj:
  "signable es \<Longrightarrow> signable fs \<Longrightarrow> concat (map entry_bytes es) = concat (map entry_bytes fs) \<Longrightarrow> es = fs"
proof (induction es arbitrary: fs)
  case Nil
  then show ?case by (cases fs) (auto simp: entry_bytes_def)
next
  case (Cons e es)
  show ?case
  proof (cases fs)
    case Nil
    with Cons.prems(3) show ?thesis by (simp add: entry_bytes_def split: prod.splits)
  next
    case (Cons f gs)
    have "signable [e]" "signable [f]" "signable es" "signable gs"
      using Cons.prems(1,2) Cons by (simp_all add: signable_def)
    moreover have "entry_bytes e @ concat (map entry_bytes es) = entry_bytes f @ concat (map entry_bytes gs)"
      using Cons.prems(3) Cons by (simp only: list.map concat.simps)
    ultimately have "e = f \<and> concat (map entry_bytes es) = concat (map entry_bytes gs)"
      by (intro entry_bytes_split)
    with Cons.IH [OF \<open>signable es\<close> \<open>signable gs\<close>] Cons show ?thesis
      by simp
  qed
qed

lemma signable_mset: "mset es = mset fs \<Longrightarrow> signable es = signable fs"
  by (drule mset_eq_setD) (simp add: signable_def)

text \<open>
  Why paths without a zero byte: the zero byte ends a path, so a path that contains one can stand for
  a member with its contents followed by the path of another.
\<close>

lemma zero_byte_collision:
  assumes "sorts_by_path (ar_sort A)"
  shows "signable_bytes A [(''a'', []), (''b'', c)] = signable_bytes A [(''a'' @ replicate 9 (CHR 0x00) @ ''b'', c)]"
proof -
  have sort: "mset (ar_sort A xs) = mset xs" "sorted (map fst (ar_sort A xs))" for xs
    using assms by (simp_all add: sorts_by_path_def)
  have two: "ar_sort A [(''a'', []), (''b'', c)] = [(''a'', []), (''b'', c)]"
  proof -
    have "inj_on fst (set (ar_sort A [(''a'', []), (''b'', c)]))"
      using mset_eq_setD [OF sort(1), of "[(''a'', []), (''b'', c)]"] by simp
    then have "sort_key fst (ar_sort A [(''a'', []), (''b'', c)]) = ar_sort A [(''a'', []), (''b'', c)]"
        "sort_key fst (ar_sort A [(''a'', []), (''b'', c)]) = [(''a'', []), (''b'', c)]"
      using sort by (auto intro!: sort_key_inj_key_eq)
    then show ?thesis
      by simp
  qed
  have one: "ar_sort A [e] = [e]" for e
    using sort(1) [of "[e]"] by simp
  have signed: "\<not> starts_with ''signatures/'' ''a''" "\<not> starts_with ''signatures/'' ''b''"
      "\<not> starts_with ''signatures/'' (''a'' @ replicate 9 (CHR 0x00) @ ''b'')"
    by (simp_all add: starts_with_def)
  have "entry_bytes (''a'', []) @ entry_bytes (''b'', c) = entry_bytes (''a'' @ replicate 9 (CHR 0x00) @ ''b'', c)"
  proof -
    have "le_bytes 0 = replicate 8 0"
      by (simp add: le_bytes_def map_replicate_const)
    moreover have "replicate 9 (0 :: u8) = 0 # replicate 8 0"
      by (simp add: replicate_Suc [symmetric] del: replicate_Suc)
    ultimately show ?thesis
      by (simp add: entry_bytes_def string_bytes_def)
  qed
  then show ?thesis
    unfolding signable_bytes_def signed_entries_def using signed by (simp add: two one del: append_Cons)
qed

text \<open>
  C9. The bytes an Ed25519 signature covers determine the signed content, for members whose paths have
  no zero byte and whose contents are shorter than two to the power 64: two such archives with equal
  signable bytes have the same members outside \<open>signatures/\<close>, with the same contents; and the bytes
  do not depend on the order in which members with different paths were added. So no such member can
  be moved, renamed, split or joined under a signature.
\<close>

theorem signable_bytes_determines:
  assumes "sorts_by_path (ar_sort A)" "signable es" "signable fs"
  shows "(signable_bytes A es = signable_bytes A fs \<longrightarrow> mset (signed_entries es) = mset (signed_entries fs)) \<and>
    (mset (signed_entries es) = mset (signed_entries fs) \<longrightarrow> distinct (map fst (signed_entries es)) \<longrightarrow>
       signable_bytes A es = signable_bytes A fs)"
proof (intro conjI impI)
  have sort: "mset (ar_sort A xs) = mset xs" "sorted (map fst (ar_sort A xs))" for xs
    using assms(1) by (simp_all add: sorts_by_path_def)
  show "mset (signed_entries es) = mset (signed_entries fs)" if "signable_bytes A es = signable_bytes A fs"
  proof -
    have "signable (signed_entries es)" "signable (signed_entries fs)"
      using assms(2,3) by (auto simp: signable_def signed_entries_def)
    then have "signable (ar_sort A (signed_entries es))" "signable (ar_sort A (signed_entries fs))"
      using signable_mset [OF sort(1)] by blast+
    from entries_bytes_inj [OF this] that have
      "ar_sort A (signed_entries es) = ar_sort A (signed_entries fs)"
      by (simp add: signable_bytes_def)
    then show ?thesis
      by (metis sort(1))
  qed
  show "signable_bytes A es = signable_bytes A fs"
    if "mset (signed_entries es) = mset (signed_entries fs)" "distinct (map fst (signed_entries es))"
  proof -
    let ?a = "ar_sort A (signed_entries es)" and ?b = "ar_sort A (signed_entries fs)"
    have m: "mset ?a = mset ?b"
      using that(1) sort(1) by simp
    have "mset (map fst ?a) = mset (map fst (signed_entries es))"
      using sort(1) [of "signed_entries es"] by (simp only: mset_map)
    then have inj: "inj_on fst (set ?a)"
      using that(2) by (metis distinct_map mset_eq_imp_distinct_iff)
    have "sort_key fst ?a = ?a" "sort_key fst ?a = ?b"
      by (rule sort_key_inj_key_eq [OF refl inj sort(2)], rule sort_key_inj_key_eq [OF m inj sort(2)])
    then have "?a = ?b"
      by (rule trans [OF sym])
    then show ?thesis
      by (simp add: signable_bytes_def)
  qed
qed

end
