(* ===== verification/Package_Signing.thy ===== *)
theory Package_Signing
  imports Package_Archive File_System
begin

text \<open>
  Signed packages end to end: what \<open>PackageBuilder\<close> signs and packs, \<open>PackageReader\<close> opens and
  finds verified, and \<open>classify\<close> gives the trust of the key. The laws of the external packages
  are two locales, each with a reference implementation for concrete runs.
\<close>

subsection \<open>The laws\<close>

text \<open>A path that a \<open>tar\<close> header keeps as it is: relative, in normal form, without a zero byte.\<close>

definition plain_path :: "string \<Rightarrow> bool" where
  "plain_path path \<longleftrightarrow>
     (\<forall>c \<in> set (path_components path). c \<noteq> [] \<and> c \<noteq> ''.'' \<and> c \<noteq> ''..'') \<and> 0 \<notin> set (string_bytes path)"

locale archive_codec =
  fixes A :: archive_ops
  assumes sort_law: "sorts_by_path (ar_sort A)"
    and compress_law: "ar_compress A tar_bytes = Inr data \<Longrightarrow> ar_decompress A data = Inr tar_bytes"
    and build_law:
      "ar_build A es = Inr tar_bytes \<Longrightarrow> \<forall>e \<in> set es. plain_path (fst e) \<Longrightarrow>
       ar_entries A tar_bytes = Inr (map (\<lambda>(p, c). Inr (Inr p, Inr c)) es)"
begin

lemma entries_scan_all:
  "entries_scan (map (\<lambda>(p, c). Inr (Inr p, Inr c)) es) acc = Inr (acc @ es)"
  by (induction es arbitrary: acc) auto

lemma read_entry_scan_all:
  "read_entry_scan (map (\<lambda>(p, c). Inr (Inr p, Inr c)) es) path = Inr (entry_at path es)"
  by (induction es) (auto simp: entry_at_def)

lemma open_scan_all:
  "(\<And>bs. (member_path ManifestMember, bs) \<in> set es \<Longrightarrow> ar_utf8 A bs = Inr (dec bs)) \<Longrightarrow>
   open_scan A (map (\<lambda>(p, c). Inr (Inr p, Inr c)) es) ps raw =
   Inr (ps @ map fst es,
     fold (\<lambda>(p, c) r. if p = member_path ManifestMember then Some (dec c) else r) es raw)"
  by (induction es arbitrary: ps raw) auto

lemma unpack:
  assumes "builder_build_archive A b = Inr data" "\<forall>e \<in> set (pb_entries b). plain_path (fst e)"
  shows "\<exists>t. ar_decompress A data = Inr t \<and>
    ar_entries A t = Inr (map (\<lambda>(p, c). Inr (Inr p, Inr c)) (pb_entries b))"
  using assms compress_law build_law
  by (auto simp: builder_build_archive_def split: sum.splits)

end

locale ed25519 =
  fixes E :: "('sk, 'pk) ed25519_ops"
  assumes sign_law: "ed_verify E (ed_public E sk) msg (ed_sign E sk msg)"
    and key_law: "ed_key_from_bytes E (ed_key_bytes E pk) = Some pk"
    and sign_length: "length (ed_sign E sk msg) = 64"
    and key_length: "length (ed_key_bytes E pk) = 32"

subsection \<open>A reference implementation\<close>

definition ref_escape :: "bytes \<Rightarrow> bytes" where
  "ref_escape bs = concat (map (\<lambda>b. [1, b]) bs)"

definition ref_entry :: "string \<times> bytes \<Rightarrow> bytes" where
  "ref_entry e = ref_escape (string_bytes (fst e)) @ [0] @ ref_escape (snd e) @ [0]"

fun ref_unescape :: "bytes \<Rightarrow> bytes \<times> bytes" where
  "ref_unescape [] = ([], [])"
| "ref_unescape [t] = ([], [])"
| "ref_unescape (t # b # r) =
     (if t = 1 then (case ref_unescape r of (x, r') \<Rightarrow> (b # x, r')) else ([], b # r))"

definition bytes_string :: "bytes \<Rightarrow> string" where
  "bytes_string bs = map (\<lambda>b. char_of (unat b)) bs"

fun ref_entries :: "nat \<Rightarrow> bytes \<Rightarrow> (string \<times> bytes) list" where
  "ref_entries 0 bs = []"
| "ref_entries (Suc n) bs =
     (if bs = [] then []
      else case ref_unescape bs of (p, r) \<Rightarrow>
             (case ref_unescape r of (c, r') \<Rightarrow> (bytes_string p, c) # ref_entries n r'))"

definition ref_archive :: archive_ops where
  "ref_archive =
     \<lparr>ar_compress = Inr, ar_decompress = Inr,
      ar_build = (\<lambda>es. Inr (concat (map ref_entry es))),
      ar_entries = (\<lambda>t. Inr (map (\<lambda>(p, c). Inr (Inr p, Inr c)) (ref_entries (length t) t))),
      ar_utf8 = (\<lambda>bs. Inr (bytes_string bs)), ar_sort = sort_key fst\<rparr>"

lemma ref_unescape_escape: "ref_unescape (ref_escape bs @ 0 # r) = (bs, r)"
proof (induction bs)
  case Nil
  then show ?case by (cases r) (simp_all add: ref_escape_def)
next
  case (Cons b bs)
  then show ?case by (simp add: ref_escape_def)
qed

lemma bytes_string_bytes: "bytes_string (string_bytes s) = s"
proof -
  have "char_of (unat (of_char c :: u8)) = c" for c
  proof -
    have "unat (of_nat (of_char c) :: u8) = of_char c mod 256"
      by (simp only: unat_of_nat) (simp add: take_bit_eq_mod)
    then show ?thesis
      by (simp add: of_nat_of_char)
  qed
  then show ?thesis
    by (simp add: string_bytes_def bytes_string_def o_def)
qed

lemma ref_entries_all: "length es \<le> n \<Longrightarrow> ref_entries n (concat (map ref_entry es)) = es"
proof (induction es arbitrary: n)
  case Nil
  then show ?case by (cases n) simp_all
next
  case (Cons e es)
  obtain m where m: "n = Suc m" "length es \<le> m"
    using Cons.prems by (cases n) simp_all
  have "concat (map ref_entry (e # es)) = ref_escape (string_bytes (fst e)) @ 0 #
      ref_escape (snd e) @ 0 # concat (map ref_entry es)"
    by (simp add: ref_entry_def)
  with Cons.IH [OF m(2)] m(1) show ?case
    by (cases e) (simp add: ref_unescape_escape bytes_string_bytes)
qed

interpretation ref_archive: archive_codec ref_archive
proof unfold_locales
  show "sorts_by_path (ar_sort ref_archive)"
    by (simp add: sorts_by_path_def ref_archive_def)
  show "ar_compress ref_archive t = Inr data \<Longrightarrow> ar_decompress ref_archive data = Inr t" for t data
    by (simp add: ref_archive_def)
  show "ar_entries ref_archive t = Inr (map (\<lambda>(p, c). Inr (Inr p, Inr c)) es)"
    if "ar_build ref_archive es = Inr t" for es t
  proof -
    have t: "t = concat (map ref_entry es)"
      using that by (simp add: ref_archive_def)
    have "length es \<le> length (concat (map ref_entry es))"
      by (induction es) (simp_all add: ref_entry_def)
    then show ?thesis
      using ref_entries_all by (simp add: ref_archive_def t)
  qed
qed

definition ref_ed25519 :: "(u8, u8) ed25519_ops" where
  "ref_ed25519 =
     \<lparr>ed_sign = (\<lambda>sk msg. replicate 63 sk @ [sum_list msg]), ed_public = (\<lambda>sk. sk),
      ed_verify = (\<lambda>pk msg s. s = replicate 63 pk @ [sum_list msg]),
      ed_key_bytes = (\<lambda>pk. replicate 32 pk),
      ed_key_from_bytes = (\<lambda>bs. if bs = replicate 32 (hd bs) then Some (hd bs) else None)\<rparr>"

interpretation ref_ed25519: ed25519 ref_ed25519
  by unfold_locales (simp_all add: ref_ed25519_def)

lemma ref_archive_codec: "archive_codec ref_archive"
  by unfold_locales

lemma ref_ed25519_laws: "ed25519 ref_ed25519"
  by unfold_locales

subsection \<open>Reading\<close>

text \<open>Opening never panics: a manifest that is among the paths was read.\<close>

lemma open_scan_manifest:
  "open_scan A es ps raw = Inr (ps', raw') \<Longrightarrow> (member_path ManifestMember \<in> set ps \<Longrightarrow> raw \<noteq> None) \<Longrightarrow>
   member_path ManifestMember \<in> set ps' \<Longrightarrow> raw' \<noteq> None"
  by (induction A es ps raw rule: open_scan.induct) (auto split: sum.splits prod.splits if_splits)

lemma reader_open_returns: "\<exists>r. reader_open A parse data = Ret r"
proof -
  have "raw \<noteq> None" if "open_scan A es [] None = Inr (ps, raw)" "validate_layout ps = Inr ()" for es ps raw
    using open_scan_manifest [OF that(1)] that(2) by (simp add: validate_layout_ok)
  then show ?thesis
    by (fastforce simp: reader_open_def split: sum.splits prod.splits option.splits)
qed

text \<open>The trust level of a package is that of a key only if its signature verifies under that key.\<close>

lemma entry_at_scan:
  "entries_scan es acc = Inr fs \<Longrightarrow> \<exists>gs. fs = acc @ gs \<and> read_entry_scan es path = Inr (entry_at path gs)"
proof (induction es acc rule: entries_scan.induct)
  case (1 acc)
  then show ?case by (simp add: entry_at_def)
next
  case (2 e es acc)
  then obtain p c where e: "e = Inr (Inr p, Inr c)" "entries_scan es (acc @ [(p, c)]) = Inr fs"
    by (auto split: sum.splits prod.splits)
  with "2.IH" obtain gs where "fs = (acc @ [(p, c)]) @ gs" "read_entry_scan es path = Inr (entry_at path gs)"
    by fastforce
  with e(1) show ?case
    by (auto simp: entry_at_def intro!: exI [of _ "(p, c) # gs"])
qed

lemma read_entry_of_entries:
  assumes "reader_entries A r = Inr es"
  shows "read_entry A path r = Inr (entry_at path es)"
  using assms entry_at_scan [where acc = "[]" and path = path]
  by (fastforce simp: reader_entries_def read_entry_def split: sum.splits)

lemma signature_verified:
  "signature_status A E r = Inr Verified \<longleftrightarrow>
   (\<exists>es sig kb pk. reader_entries A r = Inr es \<and> entry_at SIGNATURE_MEMBER_PATH es = Some sig \<and>
      entry_at PUBLIC_KEY_MEMBER_PATH es = Some kb \<and> length sig = 64 \<and> length kb = 32 \<and>
      ed_key_from_bytes E kb = Some pk \<and> ed_verify E pk (signable_bytes A es) sig)"
  by (auto simp: signature_status_def verify_def split: sum.splits option.splits if_splits)

text \<open>
  C8. A package is given the trust level of a registered key only if the archive carries that
  key and a 64-byte signature that verifies, under it, the members of the archive outside
  \<open>signatures/\<close>: an unsigned, malformed or tampered archive, or one signed by an unknown key, is
  classified as unknown, whatever the trust store holds.
\<close>

theorem classify_needs_signature:
  assumes "classify A E r s = Inr level" "level \<noteq> UnknownTrust"
  shows "\<exists>es sig kb pk. reader_entries A r = Inr es \<and>
    entry_at SIGNATURE_MEMBER_PATH es = Some sig \<and> entry_at PUBLIC_KEY_MEMBER_PATH es = Some kb \<and>
    ed_key_from_bytes E kb = Some pk \<and> ed_verify E pk (signable_bytes A es) sig \<and>
    level_for E pk s = Some level \<and> require_valid_signature A E r = Inr ()"
proof -
  have v: "signature_status A E r = Inr Verified"
    using assms by (auto simp: classify_def split: sum.splits if_splits)
  then obtain es sig kb pk where es: "reader_entries A r = Inr es"
    "entry_at SIGNATURE_MEMBER_PATH es = Some sig" "entry_at PUBLIC_KEY_MEMBER_PATH es = Some kb"
    "length kb = 32" "ed_key_from_bytes E kb = Some pk" "ed_verify E pk (signable_bytes A es) sig"
    by (auto simp: signature_verified)
  have "read_entry A PUBLIC_KEY_MEMBER_PATH r = Inr (Some kb)"
    using read_entry_of_entries [OF es(1)] es(3) by simp
  with v es(4,5) assms have "level_for E pk s = Some level"
    by (auto simp: classify_def split: option.splits)
  with es v show ?thesis
    by (auto simp: require_valid_signature_def)
qed

subsection \<open>From the builder to the reader\<close>

lemma signed_entries_sign [simp]:
  "signed_entries (pb_entries (builder_sign A E sk b)) = signed_entries (pb_entries b)"
  by (simp add: builder_sign_def Let_def add_file_def signed_entries_def starts_with_def
      SIGNATURE_MEMBER_PATH_def PUBLIC_KEY_MEMBER_PATH_def)

lemma signature_paths:
  "plain_path SIGNATURE_MEMBER_PATH" "plain_path PUBLIC_KEY_MEMBER_PATH"
  "SIGNATURE_MEMBER_PATH \<noteq> PUBLIC_KEY_MEMBER_PATH"
  "SIGNATURE_MEMBER_PATH \<noteq> member_path ManifestMember" "PUBLIC_KEY_MEMBER_PATH \<noteq> member_path ManifestMember"
  "starts_with ''signatures/'' SIGNATURE_MEMBER_PATH" "starts_with ''signatures/'' PUBLIC_KEY_MEMBER_PATH"
  by (simp_all add: plain_path_def SIGNATURE_MEMBER_PATH_def PUBLIC_KEY_MEMBER_PATH_def string_bytes_def
      starts_with_def)

text \<open>What a publisher adds: plain paths, one manifest, nothing under \<open>signatures/\<close>.\<close>

definition publishable :: "package_builder \<Rightarrow> bytes \<Rightarrow> bool" where
  "publishable b manifest \<longleftrightarrow>
     (\<forall>e \<in> set (pb_entries b). plain_path (fst e) \<and> \<not> starts_with ''signatures/'' (fst e)) \<and>
     (member_path ManifestMember, manifest) \<in> set (pb_entries b) \<and>
     (\<forall>c. (member_path ManifestMember, c) \<in> set (pb_entries b) \<longrightarrow> c = manifest)"

lemma manifest_fold:
  "(\<forall>c. (mp, c) \<in> set es \<longrightarrow> c = m) \<Longrightarrow>
   fold (\<lambda>(p, c) r. if p = mp then Some (dec c) else r) es raw =
   (if \<exists>c. (mp, c) \<in> set es then Some (dec m) else raw)"
  by (induction es arbitrary: raw) auto

lemma entry_at_skip:
  "path \<notin> fst ` set es \<Longrightarrow> entry_at path (es @ fs) = entry_at path fs"
  by (induction es) (auto simp: entry_at_def)

text \<open>What a signed package opens to.\<close>

lemma signed_package_opens:
  assumes "archive_codec A" "ed25519 E" "publishable b mb"
    and "builder_build_archive A (builder_sign A E sk b) = Inr data"
    and "ar_utf8 A mb = Inr raw" "manifest_from_toml parse raw = Inr m"
  shows "\<exists>r. reader_open A parse data = Ret (Inr r) \<and> pr_manifest r = m \<and>
    reader_entries A r = Inr (pb_entries (builder_sign A E sk b)) \<and>
    signature_status A E r = Inr Verified \<and> require_valid_signature A E r = Inr () \<and>
    classify A E r s = Inr (case level_for E (ed_public E sk) s of None \<Rightarrow> UnknownTrust | Some l \<Rightarrow> l)"
proof -
  let ?b = "builder_sign A E sk b" and ?mp = "member_path ManifestMember"
  let ?sig = "ed_sign E sk (signable_bytes A (pb_entries b))" and ?kb = "ed_key_bytes E (ed_public E sk)"
  have es: "pb_entries ?b = pb_entries b @ [(SIGNATURE_MEMBER_PATH, ?sig), (PUBLIC_KEY_MEMBER_PATH, ?kb)]"
    by (simp add: builder_sign_def Let_def add_file_def sign_def)
  have plain: "\<forall>e \<in> set (pb_entries ?b). plain_path (fst e)"
    using assms(3) by (auto simp: es publishable_def signature_paths)
  from archive_codec.unpack [OF assms(1,4) plain] obtain t where
    t: "ar_decompress A data = Inr t"
      "ar_entries A t = Inr (map (\<lambda>(p, c). Inr (Inr p, Inr c)) (pb_entries ?b))"
    by blast
  have manifest: "(?mp, mb) \<in> set (pb_entries ?b)" "\<forall>c. (?mp, c) \<in> set (pb_entries ?b) \<longrightarrow> c = mb"
    using assms(3) signature_paths(4,5) by (auto simp: es publishable_def)
  then have "\<And>bs. (?mp, bs) \<in> set (pb_entries ?b) \<Longrightarrow> ar_utf8 A bs = Inr raw"
    using assms(5) by blast
  from archive_codec.open_scan_all [OF assms(1), where dec = "\<lambda>_. raw", OF this]
  have "open_scan A (map (\<lambda>(p, c). Inr (Inr p, Inr c)) (pb_entries ?b)) [] None =
      Inr ([] @ map fst (pb_entries ?b),
        fold (\<lambda>(p, c) r. if p = ?mp then Some raw else r) (pb_entries ?b) None)"
    by blast
  moreover have "fold (\<lambda>(p, c) r. if p = ?mp then Some raw else r) (pb_entries ?b) None = Some raw"
    using manifest_fold [OF manifest(2), of "\<lambda>_. raw" None] manifest(1) by (simp only:) auto
  ultimately have scan: "open_scan A (map (\<lambda>(p, c). Inr (Inr p, Inr c)) (pb_entries ?b)) [] None =
      Inr (map fst (pb_entries ?b), Some raw)"
    by (simp only: append_Nil)
  have layout: "validate_layout (map fst (pb_entries ?b)) = Inr ()"
    unfolding validate_layout_ok using manifest(1) by force
  define r where "r = \<lparr>pr_tar_bytes = t, pr_manifest = m\<rparr>"
  have opened: "reader_open A parse data = Ret (Inr r)"
    using t scan layout assms(6) by (simp add: reader_open_def r_def)
  have entries: "reader_entries A r = Inr (pb_entries ?b)"
    using t(2) archive_codec.entries_scan_all [OF assms(1)] by (simp add: reader_entries_def r_def)
  have outside: "path \<notin> fst ` set (pb_entries b)" if "starts_with ''signatures/'' path" for path
    using assms(3) that unfolding publishable_def by blast
  note fresh = outside [OF signature_paths(6)] outside [OF signature_paths(7)]
  have at: "entry_at SIGNATURE_MEMBER_PATH (pb_entries ?b) = Some ?sig"
      "entry_at PUBLIC_KEY_MEMBER_PATH (pb_entries ?b) = Some ?kb"
    unfolding es entry_at_skip [OF fresh(1)] entry_at_skip [OF fresh(2)]
    using signature_paths(3) by (simp_all add: entry_at_def)
  have "signable_bytes A (pb_entries ?b) = signable_bytes A (pb_entries b)"
    unfolding signable_bytes_def by simp
  then have valid: "ed_verify E (ed_public E sk) (signable_bytes A (pb_entries ?b)) ?sig"
    by (simp only: ed25519.sign_law [OF assms(2)])
  have verified: "signature_status A E r = Inr Verified"
    unfolding signature_verified
    by (intro exI conjI, rule entries, rule at(1), rule at(2), rule ed25519.sign_length [OF assms(2)],
        rule ed25519.key_length [OF assms(2)], rule ed25519.key_law [OF assms(2)], rule valid)
  have "read_entry A PUBLIC_KEY_MEMBER_PATH r = Inr (Some ?kb)"
    using read_entry_of_entries [OF entries] at(2) by simp
  then have "classify A E r s =
      Inr (case level_for E (ed_public E sk) s of None \<Rightarrow> UnknownTrust | Some l \<Rightarrow> l)"
    using verified ed25519.key_law [OF assms(2)] ed25519.key_length [OF assms(2)]
    by (simp add: classify_def split: option.split)
  moreover have "require_valid_signature A E r = Inr ()"
    by (simp add: require_valid_signature_def verified)
  ultimately show ?thesis
    using opened entries verified by (auto simp: r_def)
qed

text \<open>
  C7. Publishing round trip: a package that is built from one manifest that parses and other members
  with plain paths, none of them under \<open>signatures/\<close>, and that is signed and packed, opens to the
  same members and the same manifest; its signature verifies; strict mode accepts it; and it gets
  the trust level registered for the signing key, or unknown if there is none. That can be any
  level: the documentation of \<open>TrustStore::trust\<close> says that \<open>classify\<close> never gives system, local or
  experimental from a lookup, but nothing in the code excludes them.
\<close>

theorem signed_package_roundtrip:
  assumes "archive_codec A" "ed25519 E" "publishable b mb"
    and "builder_build_archive A (builder_sign A E sk b) = Inr data"
    and "ar_utf8 A mb = Inr raw" "manifest_from_toml parse raw = Inr m"
  shows "\<exists>r. reader_open A parse data = Ret (Inr r) \<and> pr_manifest r = m \<and>
    reader_entries A r = Inr (pb_entries (builder_sign A E sk b)) \<and>
    signature_status A E r = Inr Verified \<and> require_valid_signature A E r = Inr () \<and>
    classify A E r s = Inr (case level_for E (ed_public E sk) s of None \<Rightarrow> UnknownTrust | Some l \<Rightarrow> l)"
  by (rule signed_package_opens [OF assms])

end
