(* ===== verification/Loader_Samples.thy ===== *)
theory Loader_Samples
  imports Conflicts Dependency_Graph Package_Signing
begin

text \<open>
  The properties of manifests, of their resolution and of archives applied to two packages, of
  which \<open>app\<close> depends on \<open>lib\<close>, and to a signed archive with one manifest.
\<close>

subsection \<open>Two manifests\<close>

definition sample_manifest ::
    "string \<Rightarrow> (string \<times> sem_ver dependency_spec) list \<Rightarrow> (sem_ver, sem_ver) package_manifest" where
  "sample_manifest name deps =
     \<lparr>pm_package = \<lparr>pi_name = name, pi_version = SemVer 1 0 0, pi_module_type = FlowModule,
        pi_api_version = ApiVersion 1 0, pi_author = [], pi_description = []\<rparr>,
      pm_dependencies = deps,
      pm_capabilities = \<lparr>ct_required = [], ct_provided = []\<rparr>, pm_platforms = \<lparr>pt_supported = []\<rparr>\<rparr>"

definition sample_manifests :: "(sem_ver, sem_ver) package_manifest list" where
  "sample_manifests =
     [sample_manifest ''app'' [(''lib'', DependencySpec (SemVer 1 1 0) False)], sample_manifest ''lib'' []]"

definition sample_index :: "sem_ver module_index" where
  "sample_index = [''lib'' \<mapsto>
     [\<lparr>dp_path = ''/m/lib-1.0.0.nyp'', dp_name = ''lib'', dp_version = SemVer 1 0 0\<rparr>,
      \<lparr>dp_path = ''/m/lib-1.2.0.nyp'', dp_name = ''lib'', dp_version = SemVer 1 2 0\<rparr>]]"

lemma sample_edges: "dg_build sample_manifests = [''app'' \<mapsto> [''lib''], ''lib'' \<mapsto> []]"
  by (simp add: dg_build_def sample_manifests_def sample_manifest_def)

lemma sample_requirements: "collect_requirements sample_manifests =
    [''lib'' \<mapsto> [\<lparr>rq_requirer = ''app'', rq_version_req = SemVer 1 1 0, rq_optional = False\<rparr>]]"
  by (simp add: collect_requirements_def collect_manifest_def push_requirement_def requirement_of_def
      sample_manifests_def sample_manifest_def)

lemma sample_requirements_on: "requirements_on sample_manifests n =
    (if n = ''lib'' then [\<lparr>rq_requirer = ''app'', rq_version_req = SemVer 1 1 0, rq_optional = False\<rparr>] else [])"
  by (simp add: requirements_on_def requirement_of_def sample_manifests_def sample_manifest_def)

lemma sample_key_order: "is_order [''lib''] (collect_requirements sample_manifests)"
  by (simp add: is_order_def sample_requirements)

lemma sample_available: "index_has sample_index n v \<longleftrightarrow> n = ''lib'' \<and> (v = SemVer 1 0 0 \<or> v = SemVer 1 2 0)"
proof -
  have "map dp_version (index_get n sample_index) = (if n = ''lib'' then [SemVer 1 0 0, SemVer 1 2 0] else [])"
    by (simp add: index_get_def sample_index_def)
  moreover have "index_has sample_index n v \<longleftrightarrow> v \<in> set (map dp_version (index_get n sample_index))"
    unfolding index_has_def by simp
  ultimately show ?thesis
    by simp
qed

theorem load_order_witness:
  "\<exists>r. dg_load_order [''app'', ''lib''] (dg_build sample_manifests) = Ret r \<and>
     (\<forall>order. r = Inr order \<longrightarrow> set order = {''app'', ''lib''})"
proof -
  have "is_order [''app'', ''lib''] (dg_build sample_manifests)"
    by (simp add: is_order_def sample_edges insert_commute)
  from load_order_result [OF this] obtain r where
    "dg_load_order [''app'', ''lib''] (dg_build sample_manifests) = Ret r"
    "\<forall>order. r = Inr order \<longrightarrow> set order = (\<lambda>m. pi_name (pm_package m)) ` set sample_manifests"
    by (elim exE conjE) (rule that, auto)
  then show ?thesis
    by (auto simp: sample_manifests_def sample_manifest_def)
qed

lemma sample_fits:
  "satisfies_all core_semver (requirements_on sample_manifests ''lib'') v \<longleftrightarrow>
   sem_ver_is_compatible_with v (SemVer 1 1 0)"
  by (simp add: satisfies_all_def sample_requirements_on core_semver_def)

theorem resolve_versions_witness:
  "rv_resolved (resolve_versions core_semver [''lib''] sample_manifests sample_index) ''lib'' = Some (SemVer 1 2 0)"
proof -
  have "requirements_on sample_manifests ''lib'' \<noteq> []"
    by (simp add: sample_requirements_on)
  from resolve_versions_result [OF core_semver_laws sample_key_order this, of sample_index]
  have "rv_resolved (resolve_versions core_semver [''lib''] sample_manifests sample_index) ''lib'' = Some (SemVer 1 2 0) \<longleftrightarrow>
    (index_has sample_index ''lib'' (SemVer 1 2 0) \<and>
       satisfies_all core_semver (requirements_on sample_manifests ''lib'') (SemVer 1 2 0)) \<and>
    (\<forall>w. index_has sample_index ''lib'' w \<and>
       satisfies_all core_semver (requirements_on sample_manifests ''lib'') w \<longrightarrow> so_le core_semver w (SemVer 1 2 0))"
    unfolding Let_def by blast
  moreover have "so_le core_semver w (SemVer 1 2 0)" if "index_has sample_index ''lib'' w" for w
    using that by (auto simp: sample_available core_semver_def less_eq_sem_ver_def)
  ultimately show ?thesis
    unfolding sample_fits by (simp add: sample_available sem_ver_is_compatible_with_def)
qed

theorem detect_conflicts_witness:
  "detect_conflicts core_semver [''lib''] sample_manifests sample_index (ApiVersion 1 0) = []"
proof -
  have "loadable core_semver sample_manifests sample_index (ApiVersion 1 0)"
    unfolding loadable_def
  proof (intro conjI allI impI)
    fix name assume "\<exists>r \<in> set (requirements_on sample_manifests name). \<not> rq_optional r"
    then have "name = ''lib''"
      by (simp add: sample_requirements_on split: if_splits)
    then show "\<exists>v. index_has sample_index name v \<and>
        satisfies_all core_semver (requirements_on sample_manifests name) v"
      by (auto simp: sample_available sample_fits sem_ver_is_compatible_with_def)
  qed (simp add: sample_manifests_def sample_manifest_def is_compatible_def)
  then show ?thesis
    by (simp only: detect_conflicts_empty [OF core_semver_laws sample_key_order])
qed

subsection \<open>A signed archive\<close>

definition sample_builder :: package_builder where
  "sample_builder = PackageBuilder [(''manifest.toml'', [1, 2])]"

definition sample_parse :: "string \<Rightarrow> string + (sem_ver, sem_ver) package_manifest" where
  "sample_parse s = Inr (sample_manifest ''app'' [])"

lemma sample_manifest_valid: "manifest_from_toml sample_parse raw = Inr (sample_manifest ''app'' [])"
  by (simp add: manifest_from_toml_def manifest_validate_def sample_parse_def sample_manifest_def
      trim_is_empty_def ascii_blank_def wide_blank_def)

theorem signed_package_witness:
  "\<exists>data r. builder_build_archive ref_archive (builder_sign ref_archive ref_ed25519 7 sample_builder) = Inr data \<and>
     reader_open ref_archive sample_parse data = Ret (Inr r) \<and>
     classify ref_archive ref_ed25519 r (trust ref_ed25519 7 Official trust_store_new) = Inr Official"
proof -
  obtain data where data:
    "builder_build_archive ref_archive (builder_sign ref_archive ref_ed25519 7 sample_builder) = Inr data"
    by (simp add: builder_build_archive_def ref_archive_def)
  have "publishable sample_builder [1, 2]"
    by (simp add: publishable_def sample_builder_def plain_path_def starts_with_def string_bytes_def)
  moreover have "ar_utf8 ref_archive [1, 2] = Inr (bytes_string [1, 2])"
    by (simp add: ref_archive_def)
  moreover have "level_for ref_ed25519 (ed_public ref_ed25519 7) (trust ref_ed25519 7 Official trust_store_new) =
      Some Official"
    by (simp add: level_for_def trust_def ref_ed25519_def)
  ultimately show ?thesis
    using signed_package_roundtrip [OF ref_archive_codec ref_ed25519_laws _ data _ sample_manifest_valid,
        of "[1, 2]" "bytes_string [1, 2]" "trust ref_ed25519 7 Official trust_store_new"] data
    by auto
qed

text \<open>An archive that holds nothing but a signature, and its key.\<close>

definition sample_entries :: "(string \<times> bytes) list" where
  "sample_entries = [(SIGNATURE_MEMBER_PATH, replicate 63 7 @ [0]), (PUBLIC_KEY_MEMBER_PATH, replicate 32 7)]"

definition sample_reader :: "(sem_ver, sem_ver) package_reader" where
  "sample_reader = \<lparr>pr_tar_bytes = concat (map ref_entry sample_entries), pr_manifest = sample_manifest ''app'' []\<rparr>"

lemma sample_reader_entries: "reader_entries ref_archive sample_reader = Inr sample_entries"
proof -
  have "length es \<le> length (concat (map ref_entry es))" for es
    by (induction es) (simp_all add: ref_entry_def)
  then have "ar_entries ref_archive (concat (map ref_entry sample_entries)) =
      Inr (map (\<lambda>(p, c). Inr (Inr p, Inr c)) sample_entries)"
    using ref_entries_all by (simp add: ref_archive_def)
  then show ?thesis
    using archive_codec.entries_scan_all [OF ref_archive_codec, of sample_entries "[]"]
    by (simp add: reader_entries_def sample_reader_def)
qed

lemma sample_entry_at:
  "entry_at SIGNATURE_MEMBER_PATH sample_entries = Some (replicate 63 7 @ [0])"
  "entry_at PUBLIC_KEY_MEMBER_PATH sample_entries = Some (replicate 32 7)"
  by (simp_all add: entry_at_def sample_entries_def signature_paths(3))

lemma sample_signable_bytes: "signable_bytes ref_archive sample_entries = []"
  by (simp add: signable_bytes_def signed_entries_def sample_entries_def signature_paths(6,7) ref_archive_def)

theorem classify_witness:
  "\<exists>kb pk. entry_at PUBLIC_KEY_MEMBER_PATH sample_entries = Some kb \<and>
     ed_key_from_bytes ref_ed25519 kb = Some pk \<and> level_for ref_ed25519 pk [replicate 32 7 \<mapsto> Official] = Some Official"
proof -
  have key: "ed_key_from_bytes ref_ed25519 (replicate 32 7) = Some 7"
    by (simp add: ref_ed25519_def)
  have "ed_verify ref_ed25519 7 (signable_bytes ref_archive sample_entries) (replicate 63 7 @ [0])"
    by (simp add: sample_signable_bytes ref_ed25519_def)
  then have "signature_status ref_archive ref_ed25519 sample_reader = Inr Verified"
    unfolding signature_verified using key sample_entry_at sample_reader_entries by auto
  then have "classify ref_archive ref_ed25519 sample_reader [replicate 32 7 \<mapsto> Official] = Inr Official"
    using read_entry_of_entries [OF sample_reader_entries, of PUBLIC_KEY_MEMBER_PATH] key
    by (simp add: classify_def sample_entry_at level_for_def) (simp add: ref_ed25519_def)
  from classify_needs_signature [OF this] show ?thesis
    by (auto simp: sample_reader_entries)
qed

theorem signable_bytes_witness:
  "signable_bytes ref_archive [(''a'', [1]), (''b'', [])] \<noteq> signable_bytes ref_archive [(''a'', []), (''b'', [1])]"
proof -
  have "sorts_by_path (ar_sort ref_archive)"
    by (simp add: sorts_by_path_def ref_archive_def)
  moreover have "signable [(''a'', [1]), (''b'', [])]" "signable [(''a'', []), (''b'', [1])]"
    by (simp_all add: signable_def string_bytes_def)
  moreover have "(''a'', [1 :: u8]) \<notin># mset [(''a'', []), (''b'', [1])]"
    by simp
  then have "mset [(''a'', [1 :: u8]), (''b'', [])] \<noteq> mset [(''a'', []), (''b'', [1])]"
    by (metis list.set_intros(1) set_mset_mset)
  ultimately show ?thesis
    using signable_bytes_determines [of ref_archive "[(''a'', [1]), (''b'', [])]" "[(''a'', []), (''b'', [1])]"]
    by (auto simp: signed_entries_def starts_with_def)
qed

end
