(* ===== verification/Channels.thy ===== *)
theory Channels
  imports Prelude "HOL-Library.Multiset"
begin

text \<open>
  Bounded channels (\<open>tokio::sync::mpsc\<close>). They are not code of this repository: the operations
  the code calls are a record, an argument of every definition that uses a channel, and what
  the documentation of \<open>tokio\<close> promises of them is the locale \<open>mpsc\<close>. One value of type \<open>'c\<close>
  stands for both halves of a channel.

  The locale \<open>lane_queue\<close> is the contract of the queues built from several channels: lanes in
  order of priority, each first in first out.
\<close>

subsection \<open>The interface of a channel\<close>

datatype 'a try_send_error = Full 'a | Closed 'a
datatype try_recv_error = TryEmpty | TryDisconnected
datatype 'a poll = Ready 'a | Pending

record ('c, 'a) mpsc_ops =
  ch_channel :: "usize \<Rightarrow> 'c outcome"
  ch_try_send :: "'a \<Rightarrow> 'c \<Rightarrow> ('a try_send_error + unit) \<times> 'c"
  ch_send :: "'a \<Rightarrow> 'c \<Rightarrow> ('a + unit) poll \<times> 'c"
  ch_try_recv :: "'c \<Rightarrow> (try_recv_error + 'a) \<times> 'c"
  ch_recv :: "'c \<Rightarrow> 'a option poll \<times> 'c"
  ch_len :: "'c \<Rightarrow> usize"
  ch_capacity :: "'c \<Rightarrow> usize"
  ch_max_capacity :: "'c \<Rightarrow> usize"
  ch_drop_receiver :: "'c \<Rightarrow> 'c"
  ch_drop_senders :: "'c \<Rightarrow> 'c"

text \<open>\<open>Semaphore::MAX_PERMITS\<close>: creating a channel of no or of a larger capacity panics.\<close>

definition max_permits :: nat where
  "max_permits = 2 ^ 61 - 1"

locale mpsc =
  fixes ops :: "('c, 'a) mpsc_ops"
    and queued :: "'c \<Rightarrow> 'a list"
    and bound :: "'c \<Rightarrow> nat"
    and rx_open :: "'c \<Rightarrow> bool"
    and tx_open :: "'c \<Rightarrow> bool"
  assumes channel_new:
      "0 < n \<Longrightarrow> n \<le> max_permits \<Longrightarrow>
       \<exists>c. ch_channel ops n = Ret c \<and> queued c = [] \<and> bound c = n \<and> rx_open c \<and> tx_open c"
    and channel_panics: "n = 0 \<or> max_permits < n \<Longrightarrow> \<exists>m. ch_channel ops n = Panic m"
    and try_send_room:
      "rx_open c \<Longrightarrow> length (queued c) < bound c \<Longrightarrow>
       \<exists>c'. ch_try_send ops a c = (Inr (), c') \<and> queued c' = queued c @ [a] \<and>
            bound c' = bound c \<and> rx_open c' \<and> tx_open c' = tx_open c"
    and try_send_full:
      "rx_open c \<Longrightarrow> \<not> length (queued c) < bound c \<Longrightarrow> ch_try_send ops a c = (Inl (Full a), c)"
    and try_send_closed: "\<not> rx_open c \<Longrightarrow> ch_try_send ops a c = (Inl (Closed a), c)"
    and send_room:
      "rx_open c \<Longrightarrow> length (queued c) < bound c \<Longrightarrow>
       ch_send ops a c = (Ready (Inr ()), snd (ch_try_send ops a c))"
    and send_waits:
      "rx_open c \<Longrightarrow> \<not> length (queued c) < bound c \<Longrightarrow> ch_send ops a c = (Pending, c)"
    and send_closed: "\<not> rx_open c \<Longrightarrow> ch_send ops a c = (Ready (Inl a), c)"
    and try_recv_some:
      "queued c = a # rest \<Longrightarrow>
       \<exists>c'. ch_try_recv ops c = (Inr a, c') \<and> queued c' = rest \<and> bound c' = bound c \<and>
            rx_open c' = rx_open c \<and> tx_open c' = tx_open c"
    and try_recv_none:
      "queued c = [] \<Longrightarrow>
       ch_try_recv ops c = (Inl (if tx_open c then TryEmpty else TryDisconnected), c)"
    and recv_some:
      "queued c = a # rest \<Longrightarrow> ch_recv ops c = (Ready (Some a), snd (ch_try_recv ops c))"
    and recv_none:
      "queued c = [] \<Longrightarrow> ch_recv ops c = (if tx_open c then Pending else Ready None, c)"
    and len_queued: "ch_len ops c = length (queued c)"
    and capacity_free: "ch_capacity ops c = bound c - length (queued c)"
    and max_capacity_bound: "ch_max_capacity ops c = bound c"
    and drop_receiver:
      "\<not> rx_open (ch_drop_receiver ops c) \<and> tx_open (ch_drop_receiver ops c) = tx_open c \<and>
       bound (ch_drop_receiver ops c) = bound c"
    and drop_senders:
      "\<not> tx_open (ch_drop_senders ops c) \<and> rx_open (ch_drop_senders ops c) = rx_open c \<and>
       queued (ch_drop_senders ops c) = queued c \<and> bound (ch_drop_senders ops c) = bound c"
begin

lemma try_send_isr:
  "rx_open c \<Longrightarrow> isl (fst (ch_try_send ops a c)) \<longleftrightarrow> \<not> length (queued c) < bound c"
  using try_send_room [of c a] try_send_full [of c a]
  by (cases "length (queued c) < bound c") auto

lemma try_recv_isl: "isl (fst (ch_try_recv ops c)) \<longleftrightarrow> queued c = []"
  using try_recv_none [of c] try_recv_some [of c] by (cases "queued c") (auto simp: isl_def)

end

subsection \<open>A reference channel\<close>

text \<open>A bounded queue that has every documented property, for concrete runs of the model.\<close>

record 'a fifo =
  ff_queue :: "'a list"
  ff_bound :: nat
  ff_rx :: bool
  ff_tx :: bool

definition fifo_try_send :: "'a \<Rightarrow> 'a fifo \<Rightarrow> ('a try_send_error + unit) \<times> 'a fifo" where
  "fifo_try_send a c =
     (if \<not> ff_rx c then (Inl (Closed a), c)
      else if length (ff_queue c) < ff_bound c then (Inr (), c\<lparr>ff_queue := ff_queue c @ [a]\<rparr>)
      else (Inl (Full a), c))"

definition fifo_send :: "'a \<Rightarrow> 'a fifo \<Rightarrow> ('a + unit) poll \<times> 'a fifo" where
  "fifo_send a c =
     (if \<not> ff_rx c then (Ready (Inl a), c)
      else if length (ff_queue c) < ff_bound c then (Ready (Inr ()), c\<lparr>ff_queue := ff_queue c @ [a]\<rparr>)
      else (Pending, c))"

definition fifo_try_recv :: "'a fifo \<Rightarrow> (try_recv_error + 'a) \<times> 'a fifo" where
  "fifo_try_recv c =
     (case ff_queue c of
        a # rest \<Rightarrow> (Inr a, c\<lparr>ff_queue := rest\<rparr>)
      | [] \<Rightarrow> (Inl (if ff_tx c then TryEmpty else TryDisconnected), c))"

definition fifo_recv :: "'a fifo \<Rightarrow> 'a option poll \<times> 'a fifo" where
  "fifo_recv c =
     (case ff_queue c of
        a # rest \<Rightarrow> (Ready (Some a), c\<lparr>ff_queue := rest\<rparr>)
      | [] \<Rightarrow> (if ff_tx c then Pending else Ready None, c))"

definition fifo_ops :: "('a fifo, 'a) mpsc_ops" where
  "fifo_ops =
     \<lparr>ch_channel = (\<lambda>n. if n = 0 \<or> max_permits < n then Panic ''mpsc bounded channel requires buffer > 0''
        else Ret \<lparr>ff_queue = [], ff_bound = n, ff_rx = True, ff_tx = True\<rparr>),
      ch_try_send = fifo_try_send, ch_send = fifo_send,
      ch_try_recv = fifo_try_recv, ch_recv = fifo_recv,
      ch_len = (\<lambda>c. length (ff_queue c)), ch_capacity = (\<lambda>c. ff_bound c - length (ff_queue c)),
      ch_max_capacity = ff_bound,
      ch_drop_receiver = (\<lambda>c. c\<lparr>ff_rx := False, ff_queue := []\<rparr>),
      ch_drop_senders = (\<lambda>c. c\<lparr>ff_tx := False\<rparr>)\<rparr>"

interpretation ff: mpsc fifo_ops ff_queue ff_bound ff_rx ff_tx
  by unfold_locales
    (auto simp: fifo_ops_def fifo_try_send_def fifo_send_def fifo_try_recv_def fifo_recv_def
      split: list.splits)

lemma fifo_mpsc: "mpsc fifo_ops ff_queue ff_bound ff_rx ff_tx"
  by unfold_locales

subsection \<open>Queues with lanes\<close>

fun pop_first :: "'a list list \<Rightarrow> 'a list list" where
  "pop_first [] = []"
| "pop_first ([] # ls) = [] # pop_first ls"
| "pop_first ((x # xs) # ls) = xs # ls"

lemma concat_pop_first: "concat (pop_first ls) = tl (concat ls)"
  by (induction ls rule: pop_first.induct) auto

lemma length_pop_first [simp]: "length (pop_first ls) = length ls"
  by (induction ls rule: pop_first.induct) auto

lemma pop_first_lane: "i < length ls \<Longrightarrow> length (pop_first ls ! i) \<le> length (ls ! i)"
  by (induction ls arbitrary: i rule: pop_first.induct) (auto simp: nth_Cons split: nat.splits)

lemma concat_update_snoc:
  "i < length ls \<Longrightarrow>
   mset (concat (ls[i := ls ! i @ [a]])) = add_mset a (mset (concat ls))"
  by (induction ls arbitrary: i) (auto split: nat.splits)

lemma concat_update_snoc_empty:
  "i < length ls \<Longrightarrow> concat ls = [] \<Longrightarrow> concat (ls[i := ls ! i @ [a]]) = [a]"
  by (induction ls arbitrary: i) (auto split: nat.splits)

text \<open>What \<open>n\<close> dequeues in a row deliver.\<close>

fun deqs :: "('q \<Rightarrow> 'a option \<times> 'q) \<Rightarrow> nat \<Rightarrow> 'q \<Rightarrow> 'a list" where
  "deqs deq 0 q = []"
| "deqs deq (Suc n) q = (case deq q of (Some a, q') \<Rightarrow> a # deqs deq n q' | (None, q') \<Rightarrow> deqs deq n q')"

locale lane_queue =
  fixes inv :: "'q \<Rightarrow> bool"
    and lanes :: "'q \<Rightarrow> 'a list list"
    and cap :: "'q \<Rightarrow> nat \<Rightarrow> nat"
    and lane_of :: "'a \<Rightarrow> nat"
    and enq :: "'a \<Rightarrow> 'q \<Rightarrow> bool \<times> 'q"
    and deq :: "'q \<Rightarrow> 'a option \<times> 'q"
  assumes lane_of_less: "inv q \<Longrightarrow> lane_of a < length (lanes q)"
    and enq_room:
      "inv q \<Longrightarrow> length (lanes q ! lane_of a) < cap q (lane_of a) \<Longrightarrow>
       \<exists>q'. enq a q = (True, q') \<and> inv q' \<and> cap q' = cap q \<and>
            lanes q' = (lanes q)[lane_of a := lanes q ! lane_of a @ [a]]"
    and enq_full:
      "inv q \<Longrightarrow> \<not> length (lanes q ! lane_of a) < cap q (lane_of a) \<Longrightarrow> enq a q = (False, q)"
    and deq_some:
      "inv q \<Longrightarrow> concat (lanes q) = a # rest \<Longrightarrow>
       \<exists>q'. deq q = (Some a, q') \<and> inv q' \<and> cap q' = cap q \<and> lanes q' = pop_first (lanes q)"
    and deq_none: "inv q \<Longrightarrow> concat (lanes q) = [] \<Longrightarrow> deq q = (None, q)"
begin

text \<open>The packets in the order in which the queue will deliver them.\<close>

definition pending :: "'q \<Rightarrow> 'a list" where
  "pending q = concat (lanes q)"

lemma enq_inv: "inv q \<Longrightarrow> inv (snd (enq a q))"
  using enq_room [of q a] enq_full [of q a]
  by (cases "length (lanes q ! lane_of a) < cap q (lane_of a)") auto

lemma deq_inv: "inv q \<Longrightarrow> inv (snd (deq q))"
  using deq_some [of q] deq_none [of q] by (cases "concat (lanes q)") auto

lemma deq_pending:
  assumes "inv q"
  shows "fst (deq q) = (case pending q of [] \<Rightarrow> None | a # _ \<Rightarrow> Some a)"
    and "pending (snd (deq q)) = tl (pending q)"
proof -
  have "fst (deq q) = (case pending q of [] \<Rightarrow> None | a # _ \<Rightarrow> Some a) \<and>
        pending (snd (deq q)) = tl (pending q)"
  proof (cases "concat (lanes q)")
    case Nil
    from deq_none [OF assms Nil] show ?thesis
      unfolding pending_def by (simp only: Nil fst_conv snd_conv list.case list.sel simp_thms)
  next
    case (Cons a rest)
    from deq_some [OF assms Cons] obtain q' where "deq q = (Some a, q')" "lanes q' = pop_first (lanes q)"
      by blast
    then show ?thesis
      unfolding pending_def
      by (simp only: Cons concat_pop_first fst_conv snd_conv list.case list.sel simp_thms)
  qed
  then show "fst (deq q) = (case pending q of [] \<Rightarrow> None | a # _ \<Rightarrow> Some a)"
    and "pending (snd (deq q)) = tl (pending q)"
    by blast+
qed

lemma enq_keeps:
  assumes "inv q" "fst (enq a q)"
  shows "mset (pending (snd (enq a q))) = add_mset a (mset (pending q))"
  using assms enq_room [of q a] enq_full [of q a] lane_of_less [of q a]
  by (cases "length (lanes q ! lane_of a) < cap q (lane_of a)")
    (auto simp: pending_def concat_update_snoc)

lemma enq_refused: "inv q \<Longrightarrow> \<not> fst (enq a q) \<Longrightarrow> snd (enq a q) = q"
  using enq_room [of q a] enq_full [of q a]
  by (cases "length (lanes q ! lane_of a) < cap q (lane_of a)") auto

text \<open>On an empty queue, what is enqueued is what is dequeued, and the queue is empty again.\<close>

lemma enq_deq_empty:
  assumes "inv q" "pending q = []" "enq a q = (True, q1)"
  shows "\<exists>q2. deq q1 = (Some a, q2) \<and> inv q2 \<and> pending q2 = [] \<and> cap q2 = cap q"
proof -
  have room: "length (lanes q ! lane_of a) < cap q (lane_of a)"
    using assms(1,3) enq_full [of q a] by force
  from enq_room [OF assms(1) room] assms(3) have
    q1: "inv q1" "cap q1 = cap q" "lanes q1 = (lanes q)[lane_of a := lanes q ! lane_of a @ [a]]"
    by auto
  have one: "concat (lanes q1) = [a]"
    using concat_update_snoc_empty [OF lane_of_less [OF assms(1)]] assms(2)
    by (simp add: q1(3) pending_def)
  from deq_some [OF q1(1) one] obtain q2 where
    "deq q1 = (Some a, q2)" "inv q2" "cap q2 = cap q1" "lanes q2 = pop_first (lanes q1)"
    by auto
  moreover have "concat (pop_first (lanes q1)) = []"
    by (simp only: concat_pop_first one) simp
  ultimately show ?thesis
    unfolding pending_def using q1(2) by metis
qed

lemma enq_deq_never_stuck:
  assumes "inv q" "enq a q = (True, q1)"
  shows "fst (deq q1) \<noteq> None"
proof -
  have "inv q1"
    using enq_inv [OF assms(1), of a] assms(2) by simp
  moreover have "pending q1 \<noteq> []"
    using enq_keeps [OF assms(1), of a] assms(2) by auto
  ultimately show ?thesis
    using deq_pending(1) [of q1] by (cases "pending q1") auto
qed

lemma room_enq: "inv q \<Longrightarrow> fst (enq a q) \<longleftrightarrow> length (lanes q ! lane_of a) < cap q (lane_of a)"
  using enq_room [of q a] enq_full [of q a]
  by (cases "length (lanes q ! lane_of a) < cap q (lane_of a)") auto

text \<open>Repeated dequeues deliver the pending packets in order.\<close>

lemma deqs_pending: "inv q \<Longrightarrow> deqs deq n q = take n (pending q)"
proof (induction n arbitrary: q)
  case 0
  then show ?case by simp
next
  case (Suc n)
  obtain r q' where d: "deq q = (r, q')"
    by fastforce
  have "inv q'" "pending q' = tl (pending q)" "r = (case pending q of [] \<Rightarrow> None | a # _ \<Rightarrow> Some a)"
    using deq_inv [OF Suc.prems] deq_pending [OF Suc.prems] d by simp_all
  with Suc.IH [of q'] d show ?case
    by (cases "pending q") simp_all
qed

end

end
