(* ===== verification/Node_Queue.thy ===== *)
theory Node_Queue
  imports Channels Packets
begin

text \<open>
  The input queue of a node (\<open>crates/nyarix-graph/src/queue.rs\<close>): three channels, one per
  class of traffic, read control first, then interactive, then bulk. The two halves of the
  queue are one value, as its channels are.
\<close>

datatype lane = ControlLane | InteractiveLane | BulkLane

definition lane_for :: "packet \<Rightarrow> lane" where
  "lane_for p =
     (let ts = pk_tags p
      in if tags_contains ts TAGS_CONTROL then ControlLane
         else if tags_contains ts TAGS_INTERACTIVE then InteractiveLane
         else BulkLane)"

record 'c node_queue =
  nq_control :: 'c
  nq_interactive :: 'c
  nq_bulk :: 'c

text \<open>\<open>NodeQueueSender\<close>\<close>

definition nq_send ::
    "('c, packet) mpsc_ops \<Rightarrow> packet \<Rightarrow> 'c node_queue \<Rightarrow> (packet + unit) poll \<times> 'c node_queue" where
  "nq_send C p q =
     (case lane_for p of
        ControlLane \<Rightarrow> (case ch_send C p (nq_control q) of (r, c) \<Rightarrow> (r, q\<lparr>nq_control := c\<rparr>))
      | InteractiveLane \<Rightarrow> (case ch_send C p (nq_interactive q) of (r, c) \<Rightarrow> (r, q\<lparr>nq_interactive := c\<rparr>))
      | BulkLane \<Rightarrow> (case ch_send C p (nq_bulk q) of (r, c) \<Rightarrow> (r, q\<lparr>nq_bulk := c\<rparr>)))"

definition nq_try_send ::
    "('c, packet) mpsc_ops \<Rightarrow> packet \<Rightarrow> 'c node_queue \<Rightarrow> (packet try_send_error + unit) \<times> 'c node_queue" where
  "nq_try_send C p q =
     (case lane_for p of
        ControlLane \<Rightarrow> (case ch_try_send C p (nq_control q) of (r, c) \<Rightarrow> (r, q\<lparr>nq_control := c\<rparr>))
      | InteractiveLane \<Rightarrow> (case ch_try_send C p (nq_interactive q) of (r, c) \<Rightarrow> (r, q\<lparr>nq_interactive := c\<rparr>))
      | BulkLane \<Rightarrow> (case ch_try_send C p (nq_bulk q) of (r, c) \<Rightarrow> (r, q\<lparr>nq_bulk := c\<rparr>)))"

text \<open>
  \<open>NodeQueueReceiver\<close>. The biased \<open>select!\<close> polls the lanes in order and takes the first that
  is ready; a lane whose senders are gone is ready with nothing.
\<close>

definition nq_recv :: "('c, packet) mpsc_ops \<Rightarrow> 'c node_queue \<Rightarrow> packet option poll \<times> 'c node_queue" where
  "nq_recv C q =
     (case ch_recv C (nq_control q) of
        (Ready r, c) \<Rightarrow> (Ready r, q\<lparr>nq_control := c\<rparr>)
      | (Pending, c) \<Rightarrow> (let q = q\<lparr>nq_control := c\<rparr> in
     (case ch_recv C (nq_interactive q) of
        (Ready r, c) \<Rightarrow> (Ready r, q\<lparr>nq_interactive := c\<rparr>)
      | (Pending, c) \<Rightarrow> (let q = q\<lparr>nq_interactive := c\<rparr> in
     (case ch_recv C (nq_bulk q) of (r, c) \<Rightarrow> (r, q\<lparr>nq_bulk := c\<rparr>))))))"

definition nq_try_recv_prioritized ::
    "('c, packet) mpsc_ops \<Rightarrow> 'c node_queue \<Rightarrow> packet option \<times> 'c node_queue" where
  "nq_try_recv_prioritized C q =
     (case ch_try_recv C (nq_control q) of
        (Inr p, c) \<Rightarrow> (Some p, q\<lparr>nq_control := c\<rparr>)
      | (Inl _, c) \<Rightarrow> (let q = q\<lparr>nq_control := c\<rparr> in
     (case ch_try_recv C (nq_interactive q) of
        (Inr p, c) \<Rightarrow> (Some p, q\<lparr>nq_interactive := c\<rparr>)
      | (Inl _, c) \<Rightarrow> (let q = q\<lparr>nq_interactive := c\<rparr> in
     (case ch_try_recv C (nq_bulk q) of
        (Inr p, c) \<Rightarrow> (Some p, q\<lparr>nq_bulk := c\<rparr>)
      | (Inl _, c) \<Rightarrow> (None, q\<lparr>nq_bulk := c\<rparr>))))))"

definition nq_len :: "('c, packet) mpsc_ops \<Rightarrow> 'c node_queue \<Rightarrow> usize" where
  "nq_len C q = ch_len C (nq_control q) + ch_len C (nq_interactive q) + ch_len C (nq_bulk q)"

definition nq_is_empty :: "('c, packet) mpsc_ops \<Rightarrow> 'c node_queue \<Rightarrow> bool" where
  "nq_is_empty C q \<longleftrightarrow> nq_len C q = 0"

text \<open>
  One \<open>while let Ok(packet) = lane.try_recv()\<close> loop of \<open>drain\<close>, with fuel: one more than the
  packets in the lane is enough.
\<close>

fun drain_lane :: "('c, packet) mpsc_ops \<Rightarrow> nat \<Rightarrow> packet list \<Rightarrow> 'c \<Rightarrow> (packet list \<times> 'c) outcome" where
  "drain_lane C 0 drained c = NoFuel"
| "drain_lane C (Suc fuel) drained c =
     (case ch_try_recv C c of
        (Inr p, c') \<Rightarrow> drain_lane C fuel (drained @ [p]) c'
      | (Inl _, c') \<Rightarrow> Ret (drained, c'))"

definition nq_drain :: "('c, packet) mpsc_ops \<Rightarrow> nat \<Rightarrow> 'c node_queue \<Rightarrow> (packet list \<times> 'c node_queue) outcome" where
  "nq_drain C fuel q =
     obind (drain_lane C fuel [] (nq_control q)) (\<lambda>(d1, c1).
     obind (drain_lane C fuel d1 (nq_interactive q)) (\<lambda>(d2, c2).
     obind (drain_lane C fuel d2 (nq_bulk q)) (\<lambda>(d3, c3).
       Ret (d3, \<lparr>nq_control = c1, nq_interactive = c2, nq_bulk = c3\<rparr>))))"

definition node_queue_new :: "('c, packet) mpsc_ops \<Rightarrow> usize \<Rightarrow> 'c node_queue outcome" where
  "node_queue_new C capacity =
     obind (ch_channel C capacity) (\<lambda>control.
     obind (ch_channel C capacity) (\<lambda>interactive.
     obind (ch_channel C capacity) (\<lambda>bulk.
       Ret \<lparr>nq_control = control, nq_interactive = interactive, nq_bulk = bulk\<rparr>)))"

subsection \<open>The node queue is a queue with three lanes\<close>

primrec lane_index :: "lane \<Rightarrow> nat" where
  "lane_index ControlLane = 0"
| "lane_index InteractiveLane = 1"
| "lane_index BulkLane = 2"

text \<open>
  The queue as lanes, for channels whose contents and bounds the two functions give. Both
  halves of a node's queue live in the node, so its channels stay open.
\<close>

definition nq_lanes :: "('c \<Rightarrow> packet list) \<Rightarrow> 'c node_queue \<Rightarrow> packet list list" where
  "nq_lanes queued q = [queued (nq_control q), queued (nq_interactive q), queued (nq_bulk q)]"

definition nq_cap :: "('c \<Rightarrow> nat) \<Rightarrow> 'c node_queue \<Rightarrow> nat \<Rightarrow> nat" where
  "nq_cap bound q i = [bound (nq_control q), bound (nq_interactive q), bound (nq_bulk q)] ! i"

definition nq_open :: "('c \<Rightarrow> bool) \<Rightarrow> ('c \<Rightarrow> bool) \<Rightarrow> 'c node_queue \<Rightarrow> bool" where
  "nq_open rx_open tx_open q \<longleftrightarrow>
     (rx_open (nq_control q) \<and> tx_open (nq_control q)) \<and>
     (rx_open (nq_interactive q) \<and> tx_open (nq_interactive q)) \<and>
     (rx_open (nq_bulk q) \<and> tx_open (nq_bulk q))"

definition nq_offer :: "('c, packet) mpsc_ops \<Rightarrow> packet \<Rightarrow> 'c node_queue \<Rightarrow> bool \<times> 'c node_queue" where
  "nq_offer C p q = (case nq_try_send C p q of (r, q') \<Rightarrow> (\<not> isl r, q'))"

lemma lane_index_less: "lane_index l < 3"
  by (cases l) simp_all

context mpsc
begin

lemma ch_try_send_cases:
  assumes "rx_open c"
  obtains (room) c' where "length (queued c) < bound c" "ch_try_send ops a c = (Inr (), c')"
      "queued c' = queued c @ [a]" "bound c' = bound c" "rx_open c'" "tx_open c' = tx_open c"
    | (full) "\<not> length (queued c) < bound c" "ch_try_send ops a c = (Inl (Full a), c)"
  using try_send_room [OF assms, of a] try_send_full [OF assms, of a]
  by (cases "length (queued c) < bound c") auto

lemma ch_try_recv_cases:
  obtains (some) a rest c' where "queued c = a # rest" "ch_try_recv ops c = (Inr a, c')"
      "queued c' = rest" "bound c' = bound c" "rx_open c' = rx_open c" "tx_open c' = tx_open c"
    | (none) e where "queued c = []" "ch_try_recv ops c = (Inl e, c)"
  using try_recv_some [of c] try_recv_none [of c] by (cases "queued c") auto

end

locale packet_channels = mpsc ops queued bound rx_open tx_open
  for ops :: "('c, packet) mpsc_ops"
  and queued :: "'c \<Rightarrow> packet list"
  and bound :: "'c \<Rightarrow> nat"
  and rx_open :: "'c \<Rightarrow> bool"
  and tx_open :: "'c \<Rightarrow> bool"
begin

lemma nq_offer_room:
  assumes "nq_open rx_open tx_open q"
    and "length (nq_lanes queued q ! lane_index (lane_for p)) < nq_cap bound q (lane_index (lane_for p))"
  shows "\<exists>q'. nq_offer ops p q = (True, q') \<and> nq_open rx_open tx_open q' \<and>
      nq_cap bound q' = nq_cap bound q \<and>
      nq_lanes queued q' =
        (nq_lanes queued q)[lane_index (lane_for p) := nq_lanes queued q ! lane_index (lane_for p) @ [p]]"
proof (cases "lane_for p")
  case ControlLane
  with assms try_send_room [of "nq_control q" p] show ?thesis
    by (auto simp: nq_offer_def nq_try_send_def nq_open_def nq_lanes_def nq_cap_def fun_eq_iff)
next
  case InteractiveLane
  with assms try_send_room [of "nq_interactive q" p] show ?thesis
    by (auto simp: nq_offer_def nq_try_send_def nq_open_def nq_lanes_def nq_cap_def fun_eq_iff)
next
  case BulkLane
  with assms try_send_room [of "nq_bulk q" p] show ?thesis
    by (auto simp: nq_offer_def nq_try_send_def nq_open_def nq_lanes_def nq_cap_def fun_eq_iff)
qed

lemma nq_offer_full:
  assumes "nq_open rx_open tx_open q"
    and "\<not> length (nq_lanes queued q ! lane_index (lane_for p)) < nq_cap bound q (lane_index (lane_for p))"
  shows "nq_offer ops p q = (False, q)"
  using assms try_send_full [of "nq_control q" p] try_send_full [of "nq_interactive q" p]
    try_send_full [of "nq_bulk q" p]
  by (cases "lane_for p")
    (auto simp: nq_offer_def nq_try_send_def nq_open_def nq_lanes_def nq_cap_def)

lemma nq_recv_some:
  assumes "nq_open rx_open tx_open q" and "concat (nq_lanes queued q) = p # rest"
  shows "\<exists>q'. nq_try_recv_prioritized ops q = (Some p, q') \<and> nq_open rx_open tx_open q' \<and>
      nq_cap bound q' = nq_cap bound q \<and> nq_lanes queued q' = pop_first (nq_lanes queued q)"
proof -
  have "\<not> (queued (nq_control q) = [] \<and> queued (nq_interactive q) = [] \<and> queued (nq_bulk q) = [])"
    using assms(2) by (auto simp: nq_lanes_def)
  then consider (c) "queued (nq_control q) \<noteq> []"
    | (i) "queued (nq_control q) = []" "queued (nq_interactive q) \<noteq> []"
    | (b) "queued (nq_control q) = []" "queued (nq_interactive q) = []" "queued (nq_bulk q) \<noteq> []"
    by blast
  then show ?thesis
  proof cases
    case c
    then obtain a r where "queued (nq_control q) = a # r" by (cases "queued (nq_control q)") auto
    with assms try_recv_some [of "nq_control q" a r] show ?thesis
      by (auto simp: nq_try_recv_prioritized_def nq_open_def nq_lanes_def nq_cap_def fun_eq_iff)
  next
    case i
    then obtain a r where "queued (nq_interactive q) = a # r" by (cases "queued (nq_interactive q)") auto
    with i assms try_recv_some [of "nq_interactive q" a r] try_recv_none [of "nq_control q"] show ?thesis
      by (auto simp: nq_try_recv_prioritized_def nq_open_def nq_lanes_def nq_cap_def fun_eq_iff)
  next
    case b
    then obtain a r where "queued (nq_bulk q) = a # r" by (cases "queued (nq_bulk q)") auto
    with b assms try_recv_some [of "nq_bulk q" a r] try_recv_none [of "nq_control q"]
      try_recv_none [of "nq_interactive q"] show ?thesis
      by (auto simp: nq_try_recv_prioritized_def nq_open_def nq_lanes_def nq_cap_def fun_eq_iff)
  qed
qed

lemma nq_recv_none:
  assumes "concat (nq_lanes queued q) = []"
  shows "nq_try_recv_prioritized ops q = (None, q)"
  using assms try_recv_none [of "nq_control q"] try_recv_none [of "nq_interactive q"]
    try_recv_none [of "nq_bulk q"]
  by (auto simp: nq_try_recv_prioritized_def nq_lanes_def Let_def)

lemma nq_len_pending: "nq_len ops q = length (concat (nq_lanes queued q))"
  by (simp add: nq_len_def nq_lanes_def len_queued)

lemma drain_lane_all:
  "length (queued c) < fuel \<Longrightarrow>
   \<exists>c'. drain_lane ops fuel d c = Ret (d @ queued c, c') \<and> queued c' = []"
proof (induction fuel arbitrary: d c)
  case 0
  then show ?case by simp
next
  case (Suc fuel)
  show ?case
  proof (cases "queued c")
    case Nil
    then show ?thesis by (simp add: try_recv_none)
  next
    case (Cons a r)
    with try_recv_some [OF Cons] obtain c' where c': "ch_try_recv ops c = (Inr a, c')" "queued c' = r"
      by auto
    with Suc.prems Cons Suc.IH [of c' "d @ [a]"] show ?thesis by simp
  qed
qed

lemma nq_drain_all:
  assumes "length (concat (nq_lanes queued q)) < fuel"
  shows "\<exists>q'. nq_drain ops fuel q = Ret (concat (nq_lanes queued q), q') \<and>
    concat (nq_lanes queued q') = []"
proof -
  have l: "length (queued (nq_control q)) < fuel" "length (queued (nq_interactive q)) < fuel"
      "length (queued (nq_bulk q)) < fuel"
    using assms by (auto simp: nq_lanes_def)
  from drain_lane_all [OF l(1), of "[]"] obtain c1 where
    c1: "drain_lane ops fuel [] (nq_control q) = Ret (queued (nq_control q), c1)" "queued c1 = []"
    by auto
  from drain_lane_all [OF l(2), of "queued (nq_control q)"] obtain c2 where
    c2: "drain_lane ops fuel (queued (nq_control q)) (nq_interactive q) =
      Ret (queued (nq_control q) @ queued (nq_interactive q), c2)" "queued c2 = []"
    by auto
  from drain_lane_all [OF l(3), of "queued (nq_control q) @ queued (nq_interactive q)"] obtain c3 where
    c3: "drain_lane ops fuel (queued (nq_control q) @ queued (nq_interactive q)) (nq_bulk q) =
      Ret ((queued (nq_control q) @ queued (nq_interactive q)) @ queued (nq_bulk q), c3)" "queued c3 = []"
    by auto
  show ?thesis
    using c1 c2 c3 by (simp add: nq_drain_def nq_lanes_def outcome_simps)
qed

lemma node_queue_new_ok:
  assumes "0 < n" "n \<le> max_permits"
  shows "\<exists>q. node_queue_new ops n = Ret q \<and> nq_open rx_open tx_open q \<and>
    concat (nq_lanes queued q) = [] \<and> (\<forall>i < 3. nq_cap bound q i = n)"
  using channel_new [OF assms]
  by (auto simp: node_queue_new_def nq_open_def nq_lanes_def nq_cap_def outcome_simps
      less_Suc_eq numeral_3_eq_3)

end

sublocale packet_channels \<subseteq> nq: lane_queue
  "nq_open rx_open tx_open" "nq_lanes queued" "nq_cap bound" "\<lambda>p. lane_index (lane_for p)"
  "nq_offer ops" "nq_try_recv_prioritized ops"
proof unfold_locales
  fix q p
  show "lane_index (lane_for p) < length (nq_lanes queued q)"
    using lane_index_less [of "lane_for p"] by (simp add: nq_lanes_def)
qed (use nq_offer_room nq_offer_full nq_recv_some nq_recv_none in blast)+

text \<open>
  The blocking receive, after all senders are gone: a control lane that is empty ends it, with
  packets of the other lanes still queued.
\<close>

context packet_channels
begin

lemma nq_recv_closed_loses:
  assumes "queued (nq_control q) = []" "\<not> tx_open (nq_control q)"
  shows "fst (nq_recv ops q) = Ready None"
  using recv_none [OF assms(1)] assms(2) by (simp add: nq_recv_def)

lemma nq_recv_prioritized:
  assumes "nq_open rx_open tx_open q"
  shows "fst (nq_recv ops q) =
    (case concat (nq_lanes queued q) of [] \<Rightarrow> Pending | p # _ \<Rightarrow> Ready (Some p))"
proof (cases "queued (nq_control q)")
  case (Cons a r)
  then show ?thesis by (simp add: nq_recv_def recv_some nq_lanes_def)
next
  case control: Nil
  show ?thesis
  proof (cases "queued (nq_interactive q)")
    case (Cons a r)
    with control assms show ?thesis
      by (simp add: nq_recv_def recv_some recv_none nq_lanes_def nq_open_def)
  next
    case Nil
    with control assms show ?thesis
      by (cases "queued (nq_bulk q)")
        (simp_all add: nq_recv_def recv_some recv_none nq_lanes_def nq_open_def)
  qed
qed

end

context packet_channels
begin

lemma nq_deqs: "nq_open rx_open tx_open q \<Longrightarrow>
  deqs (nq_try_recv_prioritized ops) n q = take n (concat (nq_lanes queued q))"
  using nq.deqs_pending unfolding nq.pending_def .

lemma nq_offer_cases:
  "nq_open rx_open tx_open q \<Longrightarrow>
   case nq_offer ops p q of (accepted, q') \<Rightarrow>
     nq_open rx_open tx_open q' \<and>
     nq_lanes queued q' =
       (if accepted
        then (nq_lanes queued q)[lane_index (lane_for p) := nq_lanes queued q ! lane_index (lane_for p) @ [p]]
        else nq_lanes queued q) \<and>
     accepted = (length (nq_lanes queued q ! lane_index (lane_for p)) < nq_cap bound q (lane_index (lane_for p)))"
  using nq_offer_room [of q p] nq_offer_full [of q p]
  by (cases "length (nq_lanes queued q ! lane_index (lane_for p)) < nq_cap bound q (lane_index (lane_for p))") auto

end

interpretation fifo: packet_channels fifo_ops ff_queue ff_bound ff_rx ff_tx
  by (simp add: packet_channels_def fifo_mpsc)

lemma fifo_channels: "packet_channels fifo_ops ff_queue ff_bound ff_rx ff_tx"
  by (simp add: packet_channels_def fifo_mpsc)

subsection \<open>Properties\<close>

text \<open>
  C35. The input queue of a node delivers by class, and in order within a class: on open channels,
  repeated receives return the queued packets of the control lane, then of the interactive
  lane, then of the bulk lane, each first in, first out; an accepted packet joins the end of the
  lane its tags select and nothing else changes; a refused packet changes nothing, and it is
  refused exactly when its lane is full.
\<close>

theorem node_queue_delivery:
  assumes "packet_channels ops queued bound rx_open tx_open" "nq_open rx_open tx_open q"
  shows "deqs (nq_try_recv_prioritized ops) n q = take n (concat (nq_lanes queued q)) \<and>
    (case nq_offer ops p q of (accepted, q') \<Rightarrow>
       nq_open rx_open tx_open q' \<and>
       nq_lanes queued q' =
         (if accepted
          then (nq_lanes queued q)[lane_index (lane_for p) := nq_lanes queued q ! lane_index (lane_for p) @ [p]]
          else nq_lanes queued q) \<and>
       accepted = (length (nq_lanes queued q ! lane_index (lane_for p)) < nq_cap bound q (lane_index (lane_for p))))"
  using packet_channels.nq_deqs [OF assms] packet_channels.nq_offer_cases [OF assms] by (rule conjI)

text \<open>
  Draining a queue returns every packet of every lane, by class and in order, and leaves it
  empty; one unit of fuel more than there are packets is enough.
\<close>

theorem node_queue_drain_complete:
  assumes "packet_channels ops queued bound rx_open tx_open" "nq_len ops q < fuel"
  shows "\<exists>q'. nq_drain ops fuel q = Ret (concat (nq_lanes queued q), q') \<and> nq_is_empty ops q'"
  using packet_channels.nq_drain_all [OF assms(1), of q fuel] assms(2)
  by (auto simp: packet_channels.nq_len_pending [OF assms(1)] nq_is_empty_def)

text \<open>
  C36. The waiting receive can end early: once the senders of the control lane are gone and the
  lane is empty it answers that the queue is finished, even while the other lanes hold packets.
\<close>

theorem node_queue_recv_ends_early:
  assumes "packet_channels ops queued bound rx_open tx_open"
    and "queued (nq_control q) = []" "\<not> tx_open (nq_control q)" "queued (nq_bulk q) = p # ps"
  shows "fst (nq_recv ops q) = Ready None \<and> 0 < nq_len ops q"
  using packet_channels.nq_recv_closed_loses [OF assms(1-3)] assms(4)
  by (simp add: packet_channels.nq_len_pending [OF assms(1)] nq_lanes_def)

end
