(* ===== verification/Metrics.thy ===== *)
theory Metrics
  imports Prelude
begin

text \<open>
  The metric registry (\<open>crates/nyarix-module-api/src/metrics.rs\<close>). A counter, gauge or
  histogram is shared behind an \<open>Arc\<close> and never removed from the registry, so a handle to one is
  its qualified name; every operation is atomic (an atomic word, or a mutex), and 64-bit sums
  wrap. The registry's concurrent maps are partial functions.

  \<open>f64\<close> is a type \<open>'f\<close> with the operations the code applies to it, given as a record: nothing
  the theorems say depends on rounding.
\<close>

record 'f f64_ops =
  f_of_nat :: "nat \<Rightarrow> 'f"
  f_le :: "'f \<Rightarrow> 'f \<Rightarrow> bool"
  f_lt :: "'f \<Rightarrow> 'f \<Rightarrow> bool"
  f_add :: "'f \<Rightarrow> 'f \<Rightarrow> 'f"
  f_sub :: "'f \<Rightarrow> 'f \<Rightarrow> 'f"
  f_mul :: "'f \<Rightarrow> 'f \<Rightarrow> 'f"
  f_div :: "'f \<Rightarrow> 'f \<Rightarrow> 'f"
  f_ceil_u64 :: "'f \<Rightarrow> u64"
  f_to_i64 :: "'f \<Rightarrow> i64"

definition metric_name :: "string \<Rightarrow> string \<Rightarrow> string" where
  "metric_name module name = ''nyarix.module.'' @ module @ ''.'' @ name"

definition counter_add :: "u64 \<Rightarrow> u64 \<Rightarrow> u64" where
  "counter_add delta c = c + delta"

definition gauge_add :: "i64 \<Rightarrow> i64 \<Rightarrow> i64" where
  "gauge_add delta g = g + delta"

subsection \<open>Histograms\<close>

record 'f histogram =
  hi_bounds :: "'f list"
  hi_counts :: "u64 list"
  hi_sum :: 'f
  hi_count :: u64

definition histogram_new :: "'f f64_ops \<Rightarrow> 'f list \<Rightarrow> 'f histogram" where
  "histogram_new F bounds =
     \<lparr>hi_bounds = bounds, hi_counts = replicate (length bounds + 1) 0,
      hi_sum = f_of_nat F 0, hi_count = 0\<rparr>"

definition histogram_bucket :: "'f f64_ops \<Rightarrow> 'f \<Rightarrow> 'f histogram \<Rightarrow> nat" where
  "histogram_bucket F v h =
     (case position (\<lambda>bound. f_le F v bound) (hi_bounds h) of
        Some i \<Rightarrow> i
      | None \<Rightarrow> length (hi_counts h) - 1)"

definition histogram_observe :: "'f f64_ops \<Rightarrow> 'f \<Rightarrow> 'f histogram \<Rightarrow> 'f histogram" where
  "histogram_observe F v h =
     (let bucket = histogram_bucket F v h
      in h\<lparr>hi_counts := (hi_counts h)[bucket := hi_counts h ! bucket + 1],
           hi_sum := f_add F (hi_sum h) v,
           hi_count := hi_count h + 1\<rparr>)"

definition histogram_snapshot :: "'f histogram \<Rightarrow> 'f histogram" where
  "histogram_snapshot h =
     \<lparr>hi_bounds = hi_bounds h, hi_counts = hi_counts h, hi_sum = hi_sum h, hi_count = hi_count h\<rparr>"

text \<open>The loop of \<open>percentile\<close> over the buckets, from bucket \<open>i\<close> on.\<close>

fun percentile_walk ::
    "'f f64_ops \<Rightarrow> u64 \<Rightarrow> u64 \<Rightarrow> 'f \<Rightarrow> 'f list \<Rightarrow> u64 list \<Rightarrow> 'f option" where
  "percentile_walk F target cumulative prev_bound (b # bs) (n # ns) =
     (let next = cumulative + n
      in if target \<le> next
         then let fraction = (if n = 0 then f_of_nat F 0
                              else f_div F (f_of_nat F (unat (target - cumulative))) (f_of_nat F (unat n)))
              in Some (f_add F prev_bound (f_mul F fraction (f_sub F b prev_bound)))
         else if bs = [] then Some b
         else percentile_walk F target next b bs ns)"
| "percentile_walk F target cumulative prev_bound _ _ = None"

definition f_clamp :: "'f f64_ops \<Rightarrow> 'f \<Rightarrow> 'f \<Rightarrow> 'f \<Rightarrow> 'f" where
  "f_clamp F lo hi x = (let y = (if f_lt F x lo then lo else x) in if f_lt F hi y then hi else y)"

definition percentile :: "'f f64_ops \<Rightarrow> 'f \<Rightarrow> 'f histogram \<Rightarrow> 'f option" where
  "percentile F p h =
     (if hi_count h = 0 then None
      else if hi_bounds h = [] then Some (f_div F (hi_sum h) (f_of_nat F (unat (hi_count h))))
      else let target = f_ceil_u64 F
                 (f_mul F (f_clamp F (f_of_nat F 0) (f_of_nat F 1) p) (f_of_nat F (unat (hi_count h))))
           in percentile_walk F target 0 (f_of_nat F 0) (hi_bounds h) (hi_counts h))"

text \<open>One bucket more than bounds, and every observation is counted in one bucket.\<close>

definition histogram_inv :: "'f histogram \<Rightarrow> bool" where
  "histogram_inv h \<longleftrightarrow>
     length (hi_counts h) = Suc (length (hi_bounds h)) \<and> sum_list (hi_counts h) = hi_count h"

lemma histogram_new_inv [wf_intros]: "histogram_inv (histogram_new F bounds)"
  by (simp add: histogram_inv_def histogram_new_def sum_list_replicate)

lemma histogram_bucket_less:
  "histogram_inv h \<Longrightarrow> histogram_bucket F v h < length (hi_counts h)"
  by (auto simp: histogram_bucket_def histogram_inv_def split: option.splits dest: position_SomeD)

lemma sum_list_bump:
  "i < length ns \<Longrightarrow> sum_list (ns[i := ns ! i + 1]) = sum_list ns + (1 :: 'a::len word)"
  by (induction ns arbitrary: i) (auto split: nat.splits simp: algebra_simps)

lemma histogram_observe_inv [wf_intros]:
  "histogram_inv h \<Longrightarrow> histogram_inv (histogram_observe F v h)"
  using histogram_bucket_less [of h F v]
  by (simp add: histogram_inv_def histogram_observe_def Let_def sum_list_bump)

subsection \<open>The registry\<close>

record 'f metric_registry =
  mr_counters :: "string \<rightharpoonup> u64"
  mr_gauges :: "string \<rightharpoonup> i64"
  mr_histograms :: "string \<rightharpoonup> 'f histogram"

definition registry_new :: "'f metric_registry" where
  "registry_new = \<lparr>mr_counters = Map.empty, mr_gauges = Map.empty, mr_histograms = Map.empty\<rparr>"

text \<open>\<open>entry(k).or_insert_with(..)\<close>\<close>

definition or_insert :: "'k \<Rightarrow> 'v \<Rightarrow> ('k \<rightharpoonup> 'v) \<Rightarrow> 'k \<rightharpoonup> 'v" where
  "or_insert k v m = (case m k of None \<Rightarrow> m(k \<mapsto> v) | Some _ \<Rightarrow> m)"

lemma or_insert_apply: "or_insert k v m k' = (if k' = k then Some (case m k of None \<Rightarrow> v | Some w \<Rightarrow> w) else m k')"
  by (auto simp: or_insert_def split: option.splits)

definition registry_counter :: "string \<Rightarrow> string \<Rightarrow> 'f metric_registry \<Rightarrow> string \<times> 'f metric_registry" where
  "registry_counter module name r =
     (let k = metric_name module name in (k, r\<lparr>mr_counters := or_insert k 0 (mr_counters r)\<rparr>))"

definition registry_gauge :: "string \<Rightarrow> string \<Rightarrow> 'f metric_registry \<Rightarrow> string \<times> 'f metric_registry" where
  "registry_gauge module name r =
     (let k = metric_name module name in (k, r\<lparr>mr_gauges := or_insert k 0 (mr_gauges r)\<rparr>))"

definition registry_histogram ::
    "'f f64_ops \<Rightarrow> string \<Rightarrow> string \<Rightarrow> 'f list \<Rightarrow> 'f metric_registry \<Rightarrow> string \<times> 'f metric_registry" where
  "registry_histogram F module name bounds r =
     (let k = metric_name module name
      in (k, r\<lparr>mr_histograms := or_insert k (histogram_new F bounds) (mr_histograms r)\<rparr>))"

definition registry_get_counter :: "string \<Rightarrow> string \<Rightarrow> 'f metric_registry \<Rightarrow> u64 option" where
  "registry_get_counter module name r = mr_counters r (metric_name module name)"

definition registry_get_gauge :: "string \<Rightarrow> string \<Rightarrow> 'f metric_registry \<Rightarrow> i64 option" where
  "registry_get_gauge module name r = mr_gauges r (metric_name module name)"

definition registry_get_histogram :: "string \<Rightarrow> string \<Rightarrow> 'f metric_registry \<Rightarrow> 'f histogram option" where
  "registry_get_histogram module name r = mr_histograms r (metric_name module name)"

text \<open>The operations of a handle, on the registry that holds what it refers to.\<close>

definition counter_increment :: "u64 \<Rightarrow> string \<times> 'f metric_registry \<Rightarrow> 'f metric_registry" where
  "counter_increment delta = (\<lambda>(k, r).
     r\<lparr>mr_counters := (mr_counters r)(k := map_option (counter_add delta) (mr_counters r k))\<rparr>)"

definition gauge_set :: "i64 \<Rightarrow> string \<times> 'f metric_registry \<Rightarrow> 'f metric_registry" where
  "gauge_set v = (\<lambda>(k, r).
     r\<lparr>mr_gauges := (mr_gauges r)(k := map_option (\<lambda>_. v) (mr_gauges r k))\<rparr>)"

definition histogram_record :: "'f f64_ops \<Rightarrow> 'f \<Rightarrow> string \<times> 'f metric_registry \<Rightarrow> 'f metric_registry" where
  "histogram_record F v = (\<lambda>(k, r).
     r\<lparr>mr_histograms := (mr_histograms r)(k := map_option (histogram_observe F v) (mr_histograms r k))\<rparr>)"

text \<open>The reading of a counter, zero when it is not registered.\<close>

definition counter_value :: "string \<Rightarrow> string \<Rightarrow> 'f metric_registry \<Rightarrow> u64" where
  "counter_value module name r = (case registry_get_counter module name r of None \<Rightarrow> 0 | Some n \<Rightarrow> n)"

definition histogram_total :: "string \<Rightarrow> string \<Rightarrow> 'f metric_registry \<Rightarrow> u64" where
  "histogram_total module name r =
     (case registry_get_histogram module name r of None \<Rightarrow> 0 | Some h \<Rightarrow> hi_count h)"

lemma metric_name_eq_name: "metric_name m a = metric_name m b \<longleftrightarrow> a = b"
  by (simp add: metric_name_def)

lemma counter_value_increment:
  "counter_value m' n' (counter_increment d (registry_counter m n r)) =
   (if metric_name m' n' = metric_name m n then counter_value m' n' r + d else counter_value m' n' r)"
  by (auto simp: counter_value_def registry_get_counter_def counter_increment_def registry_counter_def
      Let_def or_insert_apply counter_add_def split: option.splits)

lemma counter_value_frame [simp]:
  "counter_value m n (gauge_set v (registry_gauge a b r)) = counter_value m n r"
  "counter_value m n (histogram_record F x (registry_histogram F a b bs r)) = counter_value m n r"
  by (simp_all add: counter_value_def registry_get_counter_def gauge_set_def registry_gauge_def
      histogram_record_def registry_histogram_def Let_def)

lemma histogram_total_record:
  "histogram_total m' n' (histogram_record F x (registry_histogram F m n bs r)) =
   (if metric_name m' n' = metric_name m n then histogram_total m' n' r + 1
    else histogram_total m' n' r)"
  by (auto simp: histogram_total_def registry_get_histogram_def histogram_record_def
      registry_histogram_def Let_def or_insert_apply histogram_observe_def histogram_new_def
      split: option.splits)

lemma histogram_total_frame [simp]:
  "histogram_total m n (gauge_set v (registry_gauge a b r)) = histogram_total m n r"
  "histogram_total m n (counter_increment d (registry_counter a b r)) = histogram_total m n r"
  by (simp_all add: histogram_total_def registry_get_histogram_def gauge_set_def registry_gauge_def
      counter_increment_def registry_counter_def Let_def)

subsection \<open>The handle of a module\<close>

definition handle_counter ::
    "'f metric_registry option \<Rightarrow> string \<Rightarrow> string \<Rightarrow> (string \<times> 'f metric_registry) option" where
  "handle_counter h module name = map_option (registry_counter module name) h"

definition handle_gauge ::
    "'f metric_registry option \<Rightarrow> string \<Rightarrow> string \<Rightarrow> (string \<times> 'f metric_registry) option" where
  "handle_gauge h module name = map_option (registry_gauge module name) h"

definition handle_histogram ::
    "'f f64_ops \<Rightarrow> 'f metric_registry option \<Rightarrow> string \<Rightarrow> string \<Rightarrow> 'f list \<Rightarrow>
     (string \<times> 'f metric_registry) option" where
  "handle_histogram F h module name bounds = map_option (registry_histogram F module name bounds) h"

subsection \<open>Properties\<close>

lemma histogram_observe_fields:
  "hi_bounds (histogram_observe F v h) = hi_bounds h"
  "hi_count (histogram_observe F v h) = hi_count h + 1"
  by (simp_all add: histogram_observe_def Let_def)

lemma histogram_run:
  "histogram_inv h \<Longrightarrow> histogram_inv (fold (histogram_observe F) vs h) \<and>
   hi_bounds (fold (histogram_observe F) vs h) = hi_bounds h \<and>
   hi_count (fold (histogram_observe F) vs h) = hi_count h + of_nat (length vs)"
proof (induction vs arbitrary: h)
  case Nil
  then show ?case by simp
next
  case (Cons v vs)
  from Cons.IH [OF histogram_observe_inv [OF Cons.prems]] show ?case
    by (simp add: histogram_observe_fields)
qed

text \<open>
  A histogram counts every observation in exactly one bucket: after any sequence of
  observations it has one bucket more than bounds, its total is the number of observations
  (modulo the width of the counter), and its buckets add up to its total.
\<close>

theorem histogram_counts_once:
  "length (hi_counts (fold (histogram_observe F) vs (histogram_new F bounds))) = Suc (length bounds) \<and>
   hi_count (fold (histogram_observe F) vs (histogram_new F bounds)) = of_nat (length vs) \<and>
   sum_list (hi_counts (fold (histogram_observe F) vs (histogram_new F bounds))) = of_nat (length vs)"
  using histogram_run [OF histogram_new_inv, of F vs F bounds]
  by (simp add: histogram_inv_def histogram_new_def)

end
