(* ===== verification/Graph_Node.thy ===== *)
theory Graph_Node
  imports Module_Api Node_Queue Metrics
begin

text \<open>
  A node of the flow graph (\<open>crates/nyarix-graph/src/node.rs\<close>): a module, its configuration and
  state, and its input queue.

  \<open>Arc<dyn Node>\<close> is a pointer's identity, the module behind it and the number of its owners:
  \<open>Arc::get_mut\<close> gives access to the only owner. The packages and traits the graph calls are the
  record \<open>ext\<close>: the module's methods, the channels, \<open>f64\<close>, how a UUID prints, and the
  cancellation of a context's event subscriptions. Logging has no effect on the state.
\<close>

record ('v, 'm, 'ctx, 'c, 'f) ext =
  x_node :: "('v, 'm, 'ctx) node_ops"
  x_mpsc :: "('c, packet) mpsc_ops"
  x_f64 :: "'f f64_ops"
  x_uuid :: "uuid \<Rightarrow> string"
  x_cancel_subscriptions :: "'ctx \<Rightarrow> 'ctx"

definition node_id_str :: "('v, 'm, 'ctx, 'c, 'f) ext \<Rightarrow> node_id \<Rightarrow> string" where
  "node_id_str X n = x_uuid X (node_uuid n)"

record 'm arc =
  arc_ptr :: nat
  arc_value :: 'm
  arc_owners :: nat

definition arc_get_mut :: "'m arc \<Rightarrow> 'm option" where
  "arc_get_mut a = (if arc_owners a = 1 then Some (arc_value a) else None)"

definition arc_ptr_eq :: "'m arc \<Rightarrow> 'm arc \<Rightarrow> bool" where
  "arc_ptr_eq a b \<longleftrightarrow> arc_ptr a = arc_ptr b"

datatype node_state = Uninitialized | Initializing | Running | DegradedState | Stopping | Stopped

definition DEFAULT_QUEUE_CAPACITY :: usize where
  "DEFAULT_QUEUE_CAPACITY = 64"

record 'cfg node_config =
  nc_module_config :: 'cfg
  nc_queue_capacity :: usize

definition node_config_default :: "'cfg \<Rightarrow> 'cfg node_config" where
  "node_config_default empty_config =
     \<lparr>nc_module_config = empty_config, nc_queue_capacity = DEFAULT_QUEUE_CAPACITY\<rparr>"

record ('m, 'c, 'cfg) graph_node =
  gn_id :: node_id
  gn_node_type :: node_type
  gn_module :: "'m arc"
  gn_config :: "'cfg node_config"
  gn_state :: node_state
  gn_queue :: "'c node_queue"

definition graph_node_new ::
    "('v, 'm, 'ctx, 'c, 'f) ext \<Rightarrow> node_id \<Rightarrow> 'm arc \<Rightarrow> 'cfg node_config \<Rightarrow>
     ('m, 'c, 'cfg) graph_node outcome" where
  "graph_node_new X i module config =
     (let node_type = op_node_type (x_node X) (arc_value module)
      in obind (node_queue_new (x_mpsc X) (nc_queue_capacity config)) (\<lambda>queue.
           Ret \<lparr>gn_id = i, gn_node_type = node_type, gn_module = module, gn_config = config,
                gn_state = Uninitialized, gn_queue = queue\<rparr>))"

definition gn_metadata :: "('v, 'm, 'ctx, 'c, 'f) ext \<Rightarrow> ('m, 'c, 'cfg) graph_node \<Rightarrow> 'v module_metadata" where
  "gn_metadata X node = op_metadata (x_node X) (arc_value (gn_module node))"

definition gn_name :: "('v, 'm, 'ctx, 'c, 'f) ext \<Rightarrow> ('m, 'c, 'cfg) graph_node \<Rightarrow> string" where
  "gn_name X node = mm_name (gn_metadata X node)"

definition gn_queue_depth :: "('v, 'm, 'ctx, 'c, 'f) ext \<Rightarrow> ('m, 'c, 'cfg) graph_node \<Rightarrow> usize" where
  "gn_queue_depth X node = nq_len (x_mpsc X) (gn_queue node)"

definition gn_set_state :: "node_state \<Rightarrow> ('m, 'c, 'cfg) graph_node \<Rightarrow> ('m, 'c, 'cfg) graph_node" where
  "gn_set_state s node = node\<lparr>gn_state := s\<rparr>"

definition gn_write_module :: "'m \<Rightarrow> ('m, 'c, 'cfg) graph_node \<Rightarrow> ('m, 'c, 'cfg) graph_node" where
  "gn_write_module m node = node\<lparr>gn_module := (gn_module node)\<lparr>arc_value := m\<rparr>\<rparr>"

definition gn_process ::
    "('v, 'm, 'ctx, 'c, 'f) ext \<Rightarrow> packet \<Rightarrow> ('m, 'c, 'cfg) graph_node \<Rightarrow>
     (module_error + packet option) outcome \<times> ('m, 'c, 'cfg) graph_node" where
  "gn_process X p node =
     (let name = gn_name X node
      in case arc_get_mut (gn_module node) of
           None \<Rightarrow> (Ret (Inl (NotExclusivelyOwned name)), node)
         | Some m \<Rightarrow> (case op_process (x_node X) p m of (r, m') \<Rightarrow> (r, gn_write_module m' node)))"

definition gn_migrate ::
    "('v, 'm, 'ctx, 'c, 'f) ext \<Rightarrow> 'ctx \<Rightarrow> ('m, 'c, 'cfg) graph_node \<Rightarrow>
     (module_error + unit) outcome \<times> ('m, 'c, 'cfg) graph_node \<times> 'ctx" where
  "gn_migrate X ctx node =
     (let name = gn_name X node
      in case arc_get_mut (gn_module node) of
           None \<Rightarrow> (Ret (Inl (NotExclusivelyOwned name)), node, ctx)
         | Some m \<Rightarrow> (case op_migrate (x_node X) ctx m of (r, m', ctx') \<Rightarrow> (r, gn_write_module m' node, ctx')))"

definition gn_initialize ::
    "('v, 'm, 'ctx, 'c, 'f) ext \<Rightarrow> 'ctx \<Rightarrow> ('m, 'c, 'cfg) graph_node \<Rightarrow>
     (module_error + unit) outcome \<times> ('m, 'c, 'cfg) graph_node \<times> 'ctx" where
  "gn_initialize X ctx node =
     (let node = gn_set_state Initializing node;
          name = gn_name X node;
          (result, node, ctx) =
            (case arc_get_mut (gn_module node) of
               None \<Rightarrow> (Ret (Inl (NotExclusivelyOwned name)), node, ctx)
             | Some m \<Rightarrow> (case op_initialize (x_node X) ctx m of (r, m', ctx') \<Rightarrow> (r, gn_write_module m' node, ctx')))
      in if result = Ret (Inr ()) then (result, gn_set_state Running node, ctx) else (result, node, ctx))"

definition gn_shutdown ::
    "('v, 'm, 'ctx, 'c, 'f) ext \<Rightarrow> 'ctx \<Rightarrow> ('m, 'c, 'cfg) graph_node \<Rightarrow>
     (module_error + unit) outcome \<times> ('m, 'c, 'cfg) graph_node \<times> 'ctx" where
  "gn_shutdown X ctx node =
     (let node = gn_set_state Stopping node;
          name = gn_name X node;
          (result, node, ctx) =
            (case arc_get_mut (gn_module node) of
               None \<Rightarrow> (Ret (Inl (NotExclusivelyOwned name)), node, ctx)
             | Some m \<Rightarrow> (case op_shutdown (x_node X) ctx m of (r, m', ctx') \<Rightarrow> (r, gn_write_module m' node, ctx')))
      in case result of
           Ret v \<Rightarrow>
             (let ctx = x_cancel_subscriptions X ctx
              in if v = Inr () then (result, gn_set_state Stopped node, ctx) else (result, node, ctx))
         | _ \<Rightarrow> (result, node, ctx))"

subsection \<open>What each operation leaves alone, and the lifecycle\<close>

lemma gn_write_module_fields [simp]:
  "gn_id (gn_write_module m node) = gn_id node"
  "gn_node_type (gn_write_module m node) = gn_node_type node"
  "gn_config (gn_write_module m node) = gn_config node"
  "gn_queue (gn_write_module m node) = gn_queue node"
  "gn_state (gn_write_module m node) = gn_state node"
  "arc_ptr (gn_module (gn_write_module m node)) = arc_ptr (gn_module node)"
  "arc_owners (gn_module (gn_write_module m node)) = arc_owners (gn_module node)"
  by (simp_all add: gn_write_module_def)

lemma gn_process_frame:
  assumes "gn_process X p node = (r, node')"
  shows "gn_id node' = gn_id node \<and> gn_node_type node' = gn_node_type node \<and>
    gn_config node' = gn_config node \<and> gn_queue node' = gn_queue node \<and>
    gn_state node' = gn_state node \<and> arc_ptr (gn_module node') = arc_ptr (gn_module node) \<and>
    arc_owners (gn_module node') = arc_owners (gn_module node)"
  using assms by (auto simp: gn_process_def Let_def split: option.splits prod.splits)

lemma gn_process_shared:
  "arc_owners (gn_module node) \<noteq> 1 \<Longrightarrow>
   gn_process X p node = (Ret (Inl (NotExclusivelyOwned (gn_name X node))), node)"
  by (simp add: gn_process_def arc_get_mut_def)

lemma gn_initialize_state:
  assumes "gn_initialize X ctx node = (r, node', ctx')"
  shows "gn_state node' = (if r = Ret (Inr ()) then Running else Initializing) \<and>
    gn_id node' = gn_id node \<and> gn_queue node' = gn_queue node \<and>
    arc_owners (gn_module node') = arc_owners (gn_module node)"
  using assms
  by (auto simp: gn_initialize_def gn_set_state_def Let_def split: option.splits prod.splits if_splits)

lemma gn_shutdown_state:
  assumes "gn_shutdown X ctx node = (r, node', ctx')"
  shows "gn_state node' = (if r = Ret (Inr ()) then Stopped else Stopping) \<and>
    gn_id node' = gn_id node \<and> gn_queue node' = gn_queue node"
  using assms
  by (auto simp: gn_shutdown_def gn_set_state_def Let_def
      split: option.splits prod.splits if_splits outcome.splits)

lemma graph_node_new_fields:
  assumes "graph_node_new X i m cfg = Ret node"
  shows "gn_id node = i \<and> gn_module node = m \<and> gn_config node = cfg \<and>
    gn_state node = Uninitialized \<and> gn_node_type node = op_node_type (x_node X) (arc_value m) \<and>
    node_queue_new (x_mpsc X) (nc_queue_capacity cfg) = Ret (gn_queue node)"
  using assms by (auto simp: graph_node_new_def Let_def obind_eq_Ret)

end
