(* ===== verification/Edges.thy ===== *)
theory Edges
  imports Node_Queue
begin

text \<open>
  Routing conditions and edges (\<open>crates/nyarix-graph/src/condition.rs\<close>, \<open>edge.rs\<close>). The queue of
  an edge is both halves of its channel: dropping the receiver that \<open>Edge::new\<close> returns is an
  operation on the edge.
\<close>

subsection \<open>Conditions\<close>

datatype condition =
    HasTag tag
  | TagsIntersect tags
  | PriorityAtLeast u8
  | NotC condition
  | AllC "condition list"
  | AnyC "condition list"

fun evaluate :: "condition \<Rightarrow> packet \<Rightarrow> bool" where
  "evaluate (HasTag t) p = packet_has_tag p t"
| "evaluate (TagsIntersect ts) p = tags_intersects (pk_tags p) ts"
| "evaluate (PriorityAtLeast m) p = (m \<le> md_priority (pk_metadata p))"
| "evaluate (NotC c) p = (\<not> evaluate c p)"
| "evaluate (AllC cs) p = list_all (\<lambda>c. evaluate c p) cs"
| "evaluate (AnyC cs) p = list_ex (\<lambda>c. evaluate c p) cs"

text \<open>A condition reads a packet's tags and priority, and nothing else of it.\<close>

lemma evaluate_cong:
  "pk_tags p = pk_tags q \<Longrightarrow> md_priority (pk_metadata p) = md_priority (pk_metadata q) \<Longrightarrow>
   evaluate c p = evaluate c q"
  by (induction c p rule: evaluate.induct)
    (auto simp: packet_has_tag_def list_all_iff list_ex_iff)

lemma evaluate_de_morgan: "evaluate (NotC (AllC cs)) p = evaluate (AnyC (map NotC cs)) p"
  by (simp add: list_all_iff list_ex_iff)

subsection \<open>Edges\<close>

datatype edge_type = Sequential | Conditional | Parallel | FallbackEdge

record 'c edge =
  ed_from :: node_id
  ed_to :: node_id
  ed_type :: edge_type
  ed_condition :: "condition option"
  ed_queue :: 'c
  ed_dropped :: u64

definition edge_new ::
    "('c, packet) mpsc_ops \<Rightarrow> node_id \<Rightarrow> node_id \<Rightarrow> edge_type \<Rightarrow> condition option \<Rightarrow> usize \<Rightarrow>
     'c edge outcome" where
  "edge_new C from to ty cond capacity =
     obind (ch_channel C capacity) (\<lambda>channel.
       Ret \<lparr>ed_from = from, ed_to = to, ed_type = ty, ed_condition = cond, ed_queue = channel,
            ed_dropped = 0\<rparr>)"

definition edge_drop_receiver :: "('c, packet) mpsc_ops \<Rightarrow> 'c edge \<Rightarrow> 'c edge" where
  "edge_drop_receiver C e = e\<lparr>ed_queue := ch_drop_receiver C (ed_queue e)\<rparr>"

definition edge_accepts :: "'c edge \<Rightarrow> packet \<Rightarrow> bool" where
  "edge_accepts e p = (case ed_condition e of None \<Rightarrow> True | Some c \<Rightarrow> evaluate c p)"

definition edge_try_send ::
    "('c, packet) mpsc_ops \<Rightarrow> packet \<Rightarrow> 'c edge \<Rightarrow> (packet try_send_error + unit) \<times> 'c edge" where
  "edge_try_send C p e =
     (case ch_try_send C p (ed_queue e) of (r, c) \<Rightarrow> (r, e\<lparr>ed_queue := c\<rparr>))"

definition edge_send ::
    "('c, packet) mpsc_ops \<Rightarrow> packet \<Rightarrow> 'c edge \<Rightarrow> (packet + unit) poll \<times> 'c edge" where
  "edge_send C p e =
     (case ch_send C p (ed_queue e) of (r, c) \<Rightarrow> (r, e\<lparr>ed_queue := c\<rparr>))"

definition edge_try_send_or_drop ::
    "('c, packet) mpsc_ops \<Rightarrow> packet \<Rightarrow> 'c edge \<Rightarrow> bool \<times> 'c edge" where
  "edge_try_send_or_drop C p e =
     (case ch_try_send C p (ed_queue e) of
        (Inr _, c) \<Rightarrow> (True, e\<lparr>ed_queue := c\<rparr>)
      | (Inl _, c) \<Rightarrow> (False, e\<lparr>ed_queue := c, ed_dropped := ed_dropped e + 1\<rparr>))"

definition edge_queue_depth :: "('c, packet) mpsc_ops \<Rightarrow> 'c edge \<Rightarrow> usize" where
  "edge_queue_depth C e = ch_max_capacity C (ed_queue e) - ch_capacity C (ed_queue e)"

text \<open>A new edge, whose receiver the caller lets go at the end of its scope.\<close>

definition edge_new_unread ::
    "('c, packet) mpsc_ops \<Rightarrow> node_id \<Rightarrow> node_id \<Rightarrow> edge_type \<Rightarrow> condition option \<Rightarrow> usize \<Rightarrow>
     'c edge outcome" where
  "edge_new_unread C from to ty cond capacity =
     obind (edge_new C from to ty cond capacity) (\<lambda>e. Ret (edge_drop_receiver C e))"

lemma edge_new_unread_fields:
  "edge_new_unread C from to ty cond n = Ret e \<Longrightarrow>
   ed_from e = from \<and> ed_to e = to \<and> ed_type e = ty \<and> ed_condition e = cond"
  by (auto simp: edge_new_unread_def edge_new_def edge_drop_receiver_def obind_eq_Ret)

context packet_channels
begin

lemma edge_new_ok:
  "0 < n \<Longrightarrow> n \<le> max_permits \<Longrightarrow> \<exists>e. edge_new ops a b ty cond n = Ret e \<and>
     ed_from e = a \<and> ed_to e = b \<and> queued (ed_queue e) = [] \<and> rx_open (ed_queue e)"
  using channel_new [of n] by (auto simp: edge_new_def outcome_simps)

lemma edge_new_unread_ok:
  "0 < n \<Longrightarrow> n \<le> max_permits \<Longrightarrow> \<exists>e. edge_new_unread ops a b ty cond n = Ret e"
  using edge_new_ok [of n a b ty cond] by (auto simp: edge_new_unread_def outcome_simps)

lemma edge_queue_depth_queued:
  assumes "length (queued (ed_queue e)) \<le> bound (ed_queue e)"
  shows "edge_queue_depth ops e = length (queued (ed_queue e))"
  using assms by (simp add: edge_queue_depth_def max_capacity_bound capacity_free)

text \<open>Either the packet is at the end of the queue, or it is counted as dropped.\<close>

lemma edge_try_send_or_drop_room:
  assumes "rx_open (ed_queue e)" "length (queued (ed_queue e)) < bound (ed_queue e)"
  shows "\<exists>e'. edge_try_send_or_drop ops p e = (True, e') \<and>
    queued (ed_queue e') = queued (ed_queue e) @ [p] \<and> ed_dropped e' = ed_dropped e"
  using try_send_room [OF assms, of p] by (auto simp: edge_try_send_or_drop_def)

lemma edge_try_send_or_drop_full:
  assumes "\<not> (rx_open (ed_queue e) \<and> length (queued (ed_queue e)) < bound (ed_queue e))"
  shows "edge_try_send_or_drop ops p e = (False, e\<lparr>ed_dropped := ed_dropped e + 1\<rparr>)"
  using assms try_send_full [of "ed_queue e" p] try_send_closed [of "ed_queue e" p]
  by (cases "rx_open (ed_queue e)") (auto simp: edge_try_send_or_drop_def)

lemma edge_unread_drops:
  assumes "edge_new_unread ops a b ty cond n = Ret e"
  shows "fst (edge_try_send_or_drop ops p e) = False"
proof -
  have "\<not> rx_open (ed_queue e)"
    using assms drop_receiver
    by (auto simp: edge_new_unread_def edge_drop_receiver_def obind_eq_Ret)
  then show ?thesis
    using edge_try_send_or_drop_full [of e p] by simp
qed

end

subsection \<open>Properties\<close>

definition edge_offer_all :: "('c, packet) mpsc_ops \<Rightarrow> packet list \<Rightarrow> 'c edge \<Rightarrow> 'c edge" where
  "edge_offer_all C ps e = fold (\<lambda>p e. snd (edge_try_send_or_drop C p e)) ps e"

context packet_channels
begin

lemma edge_offer_all_result:
  "rx_open (ed_queue e) \<Longrightarrow>
   queued (ed_queue (edge_offer_all ops ps e)) =
     queued (ed_queue e) @ take (bound (ed_queue e) - length (queued (ed_queue e))) ps \<and>
   ed_dropped (edge_offer_all ops ps e) =
     ed_dropped e + of_nat (length ps - (bound (ed_queue e) - length (queued (ed_queue e))))"
proof (induction ps arbitrary: e)
  case Nil
  then show ?case by (simp add: edge_offer_all_def)
next
  case (Cons p ps)
  have step: "edge_offer_all ops (p # ps) e = edge_offer_all ops ps (snd (edge_try_send_or_drop ops p e))" for e
    by (simp add: edge_offer_all_def)
  show ?case
  proof (cases "length (queued (ed_queue e)) < bound (ed_queue e)")
    case True
    from try_send_room [OF Cons.prems True, of p] obtain c' where c':
      "ch_try_send ops p (ed_queue e) = (Inr (), c')" "queued c' = queued (ed_queue e) @ [p]"
      "bound c' = bound (ed_queue e)" "rx_open c'"
      by blast
    then have "snd (edge_try_send_or_drop ops p e) = e\<lparr>ed_queue := c'\<rparr>"
      by (simp add: edge_try_send_or_drop_def edge_try_send_def)
    moreover obtain m where "bound (ed_queue e) - length (queued (ed_queue e)) = Suc m"
      using True by (metis Suc_diff_Suc)
    moreover from this have "bound (ed_queue e) - Suc (length (queued (ed_queue e))) = m"
      by simp
    ultimately show ?thesis
      using Cons.IH [of "e\<lparr>ed_queue := c'\<rparr>"] c' by (simp add: step)
  next
    case False
    then have "snd (edge_try_send_or_drop ops p e) = e\<lparr>ed_dropped := ed_dropped e + 1\<rparr>"
      using edge_try_send_or_drop_full [of e p] by simp
    with Cons.IH [of "e\<lparr>ed_dropped := ed_dropped e + 1\<rparr>"] Cons.prems False show ?thesis
      by (simp add: step)
  qed
qed

end

text \<open>
  Back pressure on an edge drops the newest packets and counts every one: of any burst offered
  to an edge whose receiver is open, exactly those that fit are queued, in order, behind what is
  there, and the drop counter grows by the number of the others.
\<close>

theorem edge_burst_accounting:
  assumes "packet_channels ops queued bound rx_open tx_open" "rx_open (ed_queue e)"
  shows "queued (ed_queue (edge_offer_all ops ps e)) =
      queued (ed_queue e) @ take (bound (ed_queue e) - length (queued (ed_queue e))) ps \<and>
    ed_dropped (edge_offer_all ops ps e) =
      ed_dropped e + of_nat (length ps - (bound (ed_queue e) - length (queued (ed_queue e))))"
  by (rule packet_channels.edge_offer_all_result [OF assms])

end
