(* ===== verification/Flow_Graph.thy ===== *)
theory Flow_Graph
  imports Graph_Node Edges
begin

text \<open>
  Storage of the flow graph (\<open>crates/nyarix-graph/src/graph.rs\<close>): nodes, edges, and the adjacency
  index that is kept in step with the edges. \<open>wf_graph\<close> is the invariant; the relation
  \<open>graph_step\<close> collects the public mutations, and every graph they can build satisfies it.
\<close>

record ('m, 'c, 'cfg) flow_graph =
  fg_nodes :: "node_id \<rightharpoonup> ('m, 'c, 'cfg) graph_node"
  fg_edges :: "'c edge list"
  fg_adjacency :: "node_id \<rightharpoonup> node_id list"
  fg_entry_points :: "node_id list"
  fg_exit_points :: "node_id list"
  fg_allowed_feedback :: "(node_id \<times> node_id) set"

definition fg_new :: "('m, 'c, 'cfg) flow_graph" where
  "fg_new = \<lparr>fg_nodes = Map.empty, fg_edges = [], fg_adjacency = Map.empty,
     fg_entry_points = [], fg_exit_points = [], fg_allowed_feedback = {}\<rparr>"

definition fg_mark_entry_point :: "node_id \<Rightarrow> ('m, 'c, 'cfg) flow_graph \<Rightarrow> ('m, 'c, 'cfg) flow_graph" where
  "fg_mark_entry_point i g =
     (if i \<notin> set (fg_entry_points g) then g\<lparr>fg_entry_points := fg_entry_points g @ [i]\<rparr> else g)"

definition fg_mark_exit_point :: "node_id \<Rightarrow> ('m, 'c, 'cfg) flow_graph \<Rightarrow> ('m, 'c, 'cfg) flow_graph" where
  "fg_mark_exit_point i g =
     (if i \<notin> set (fg_exit_points g) then g\<lparr>fg_exit_points := fg_exit_points g @ [i]\<rparr> else g)"

definition fg_add_node :: "('m, 'c, 'cfg) graph_node \<Rightarrow> ('m, 'c, 'cfg) flow_graph \<Rightarrow> ('m, 'c, 'cfg) flow_graph" where
  "fg_add_node node g =
     (let i = gn_id node;
          g1 = (case gn_node_type node of
                  Source \<Rightarrow> fg_mark_entry_point i g
                | Sink \<Rightarrow> fg_mark_exit_point i g
                | _ \<Rightarrow> g);
          g2 = g1\<lparr>fg_nodes := (fg_nodes g1)(i \<mapsto> node)\<rparr>
      in g2\<lparr>fg_adjacency := or_insert i [] (fg_adjacency g2)\<rparr>)"

definition fg_remove_node ::
    "node_id \<Rightarrow> ('m, 'c, 'cfg) flow_graph \<Rightarrow> ('m, 'c, 'cfg) graph_node option \<times> ('m, 'c, 'cfg) flow_graph" where
  "fg_remove_node i g =
     (case fg_nodes g i of
        None \<Rightarrow> (None, g)
      | Some removed \<Rightarrow>
          (Some removed,
           g\<lparr>fg_nodes := (fg_nodes g)(i := None),
             fg_edges := filter (\<lambda>e. ed_from e \<noteq> i \<and> ed_to e \<noteq> i) (fg_edges g),
             fg_adjacency := (\<lambda>n. map_option (filter (\<lambda>t. t \<noteq> i)) (((fg_adjacency g)(i := None)) n)),
             fg_entry_points := filter (\<lambda>n. n \<noteq> i) (fg_entry_points g),
             fg_exit_points := filter (\<lambda>n. n \<noteq> i) (fg_exit_points g)\<rparr>))"

definition fg_connect ::
    "('v, 'm, 'ctx, 'c, 'f) ext \<Rightarrow> 'c edge \<Rightarrow> ('m, 'c, 'cfg) flow_graph \<Rightarrow>
     (graph_error + unit) \<times> ('m, 'c, 'cfg) flow_graph" where
  "fg_connect X e g =
     (if fg_nodes g (ed_from e) = None then (Inl (MissingNode (node_id_str X (ed_from e))), g)
      else if fg_nodes g (ed_to e) = None then (Inl (MissingNode (node_id_str X (ed_to e))), g)
      else let adj = or_insert (ed_from e) [] (fg_adjacency g);
               g1 = g\<lparr>fg_adjacency := adj(ed_from e \<mapsto> the (adj (ed_from e)) @ [ed_to e])\<rparr>
           in (Inr (), g1\<lparr>fg_edges := fg_edges g1 @ [e]\<rparr>))"

text \<open>Taking the first target \<open>to\<close> out of the adjacency of \<open>from\<close>.\<close>

definition adj_remove_first :: "node_id \<Rightarrow> node_id \<Rightarrow> (node_id \<rightharpoonup> node_id list) \<Rightarrow> (node_id \<rightharpoonup> node_id list)" where
  "adj_remove_first from to adj =
     (case adj from of
        None \<Rightarrow> adj
      | Some targets \<Rightarrow>
          (case position (\<lambda>t. t = to) targets of
             None \<Rightarrow> adj
           | Some pos \<Rightarrow> adj(from \<mapsto> vec_remove pos targets)))"

definition fg_disconnect ::
    "node_id \<Rightarrow> node_id \<Rightarrow> ('m, 'c, 'cfg) flow_graph \<Rightarrow> 'c edge option \<times> ('m, 'c, 'cfg) flow_graph" where
  "fg_disconnect from to g =
     (case position (\<lambda>e. ed_from e = from \<and> ed_to e = to) (fg_edges g) of
        None \<Rightarrow> (None, g)
      | Some index \<Rightarrow>
          (let e = fg_edges g ! index;
               g1 = g\<lparr>fg_edges := vec_remove index (fg_edges g)\<rparr>
           in (Some e, g1\<lparr>fg_adjacency := adj_remove_first from to (fg_adjacency g1)\<rparr>)))"

definition fg_node_count :: "('m, 'c, 'cfg) flow_graph \<Rightarrow> usize" where
  "fg_node_count g = card (dom (fg_nodes g))"

definition fg_edge_count :: "('m, 'c, 'cfg) flow_graph \<Rightarrow> usize" where
  "fg_edge_count g = length (fg_edges g)"

definition fg_edges_from :: "node_id \<Rightarrow> ('m, 'c, 'cfg) flow_graph \<Rightarrow> 'c edge list" where
  "fg_edges_from i g = filter (\<lambda>e. ed_from e = i) (fg_edges g)"

definition fg_allow_feedback_edge ::
    "node_id \<Rightarrow> node_id \<Rightarrow> ('m, 'c, 'cfg) flow_graph \<Rightarrow> ('m, 'c, 'cfg) flow_graph" where
  "fg_allow_feedback_edge from to g =
     g\<lparr>fg_allowed_feedback := insert (from, to) (fg_allowed_feedback g)\<rparr>"

text \<open>\<open>*graph.node_mut(id)? = node\<close>: writing back a node obtained by \<open>node_mut\<close>.\<close>

definition fg_write_node :: "node_id \<Rightarrow> ('m, 'c, 'cfg) graph_node \<Rightarrow> ('m, 'c, 'cfg) flow_graph \<Rightarrow> ('m, 'c, 'cfg) flow_graph" where
  "fg_write_node i node g = g\<lparr>fg_nodes := (fg_nodes g)(i \<mapsto> node)\<rparr>"

subsection \<open>The invariant\<close>

definition edge_targets :: "node_id \<Rightarrow> 'c edge list \<Rightarrow> node_id list" where
  "edge_targets i es = map ed_to (filter (\<lambda>e. ed_from e = i) es)"

definition wf_graph :: "('m, 'c, 'cfg) flow_graph \<Rightarrow> bool" where
  "wf_graph g \<longleftrightarrow>
     finite (dom (fg_nodes g)) \<and>
     dom (fg_adjacency g) = dom (fg_nodes g) \<and>
     (\<forall>i node. fg_nodes g i = Some node \<longrightarrow> gn_id node = i) \<and>
     (\<forall>e \<in> set (fg_edges g). ed_from e \<in> dom (fg_nodes g) \<and> ed_to e \<in> dom (fg_nodes g)) \<and>
     (\<forall>i ts. fg_adjacency g i = Some ts \<longrightarrow> ts = edge_targets i (fg_edges g)) \<and>
     distinct (fg_entry_points g) \<and> distinct (fg_exit_points g)"

lemma wf_graphI:
  assumes "finite (dom (fg_nodes g))" "dom (fg_adjacency g) = dom (fg_nodes g)"
    "\<And>i node. fg_nodes g i = Some node \<Longrightarrow> gn_id node = i"
    "\<And>e. e \<in> set (fg_edges g) \<Longrightarrow> ed_from e \<in> dom (fg_nodes g) \<and> ed_to e \<in> dom (fg_nodes g)"
    "\<And>i ts. fg_adjacency g i = Some ts \<Longrightarrow> ts = edge_targets i (fg_edges g)"
    "distinct (fg_entry_points g)" "distinct (fg_exit_points g)"
  shows "wf_graph g"
  using assms by (simp add: wf_graph_def)

lemma wf_graphD:
  assumes "wf_graph g"
  shows "finite (dom (fg_nodes g))" "dom (fg_adjacency g) = dom (fg_nodes g)"
    "\<And>i node. fg_nodes g i = Some node \<Longrightarrow> gn_id node = i"
    "\<And>e. e \<in> set (fg_edges g) \<Longrightarrow> ed_from e \<in> dom (fg_nodes g)"
    "\<And>e. e \<in> set (fg_edges g) \<Longrightarrow> ed_to e \<in> dom (fg_nodes g)"
    "\<And>i ts. fg_adjacency g i = Some ts \<Longrightarrow> ts = edge_targets i (fg_edges g)"
    "distinct (fg_entry_points g)" "distinct (fg_exit_points g)"
  using assms by (auto simp: wf_graph_def)

lemma wf_adjacency:
  "wf_graph g \<Longrightarrow>
   fg_adjacency g i = (if i \<in> dom (fg_nodes g) then Some (edge_targets i (fg_edges g)) else None)"
  using wf_graphD(2) [of g] wf_graphD(6) [of g i] by (cases "fg_adjacency g i") auto

lemma fg_new_wf [wf_intros]: "wf_graph fg_new"
  by (simp add: wf_graph_def fg_new_def)

lemma fg_mark_entry_point_fields [simp]:
  "fg_nodes (fg_mark_entry_point i g) = fg_nodes g"
  "fg_edges (fg_mark_entry_point i g) = fg_edges g"
  "fg_adjacency (fg_mark_entry_point i g) = fg_adjacency g"
  "fg_exit_points (fg_mark_entry_point i g) = fg_exit_points g"
  "fg_allowed_feedback (fg_mark_entry_point i g) = fg_allowed_feedback g"
  "set (fg_entry_points (fg_mark_entry_point i g)) = insert i (set (fg_entry_points g))"
  by (auto simp: fg_mark_entry_point_def)

lemma fg_mark_exit_point_fields [simp]:
  "fg_nodes (fg_mark_exit_point i g) = fg_nodes g"
  "fg_edges (fg_mark_exit_point i g) = fg_edges g"
  "fg_adjacency (fg_mark_exit_point i g) = fg_adjacency g"
  "fg_entry_points (fg_mark_exit_point i g) = fg_entry_points g"
  "fg_allowed_feedback (fg_mark_exit_point i g) = fg_allowed_feedback g"
  "set (fg_exit_points (fg_mark_exit_point i g)) = insert i (set (fg_exit_points g))"
  by (auto simp: fg_mark_exit_point_def)

lemma fg_mark_wf [wf_intros]:
  "wf_graph g \<Longrightarrow> wf_graph (fg_mark_entry_point i g)"
  "wf_graph g \<Longrightarrow> wf_graph (fg_mark_exit_point i g)"
  by (auto simp: wf_graph_def) (auto simp: fg_mark_entry_point_def fg_mark_exit_point_def)

lemma fg_allow_feedback_wf [wf_intros]:
  "wf_graph g \<Longrightarrow> wf_graph (fg_allow_feedback_edge a b g)"
  by (simp add: wf_graph_def fg_allow_feedback_edge_def)

subsection \<open>Adding and removing nodes\<close>

lemma fg_add_node_fields:
  "fg_nodes (fg_add_node node g) = (fg_nodes g)(gn_id node \<mapsto> node)"
  "fg_edges (fg_add_node node g) = fg_edges g"
  "fg_adjacency (fg_add_node node g) = or_insert (gn_id node) [] (fg_adjacency g)"
  "fg_allowed_feedback (fg_add_node node g) = fg_allowed_feedback g"
  "set (fg_entry_points (fg_add_node node g)) =
     (if gn_node_type node = Source then insert (gn_id node) else id) (set (fg_entry_points g))"
  "set (fg_exit_points (fg_add_node node g)) =
     (if gn_node_type node = Sink then insert (gn_id node) else id) (set (fg_exit_points g))"
  by (auto simp: fg_add_node_def Let_def split: node_type.splits)

lemma or_insert_dom [simp]: "dom (or_insert k v m) = insert k (dom m)"
  by (auto simp: or_insert_apply)

lemma edge_targets_fresh:
  "wf_graph g \<Longrightarrow> i \<notin> dom (fg_nodes g) \<Longrightarrow> edge_targets i (fg_edges g) = []"
  by (auto simp: edge_targets_def filter_empty_conv dest: wf_graphD(4))

lemma fg_add_node_wf [wf_intros]:
  assumes "wf_graph g"
  shows "wf_graph (fg_add_node node g)"
proof (rule wf_graphI)
  show "finite (dom (fg_nodes (fg_add_node node g)))"
    using wf_graphD(1) [OF assms] by (simp add: fg_add_node_fields)
  show "dom (fg_adjacency (fg_add_node node g)) = dom (fg_nodes (fg_add_node node g))"
    using wf_graphD(2) [OF assms] by (simp add: fg_add_node_fields)
  show "gn_id n = i" if "fg_nodes (fg_add_node node g) i = Some n" for i n
    using that wf_graphD(3) [OF assms] by (auto simp: fg_add_node_fields split: if_splits)
  show "ed_from e \<in> dom (fg_nodes (fg_add_node node g)) \<and> ed_to e \<in> dom (fg_nodes (fg_add_node node g))"
    if "e \<in> set (fg_edges (fg_add_node node g))" for e
    using that wf_graphD(4,5) [OF assms] by (auto simp: fg_add_node_fields)
  show "ts = edge_targets i (fg_edges (fg_add_node node g))"
    if "fg_adjacency (fg_add_node node g) i = Some ts" for i ts
    using that wf_adjacency [OF assms, of i] edge_targets_fresh [OF assms, of i]
    by (auto simp: fg_add_node_fields or_insert_apply split: if_splits)
  show "distinct (fg_entry_points (fg_add_node node g))"
    using wf_graphD(7) [OF assms]
    by (auto simp: fg_add_node_def Let_def fg_mark_entry_point_def fg_mark_exit_point_def
        split: node_type.splits)
  show "distinct (fg_exit_points (fg_add_node node g))"
    using wf_graphD(8) [OF assms]
    by (auto simp: fg_add_node_def Let_def fg_mark_entry_point_def fg_mark_exit_point_def
        split: node_type.splits)
qed

lemma edge_targets_filter:
  "filter (\<lambda>t. t \<noteq> i) (edge_targets n es) =
   edge_targets n (filter (\<lambda>e. ed_from e \<noteq> i \<and> ed_to e \<noteq> i) es)" if "n \<noteq> i"
  using that by (induction es) (auto simp: edge_targets_def)

lemma fg_remove_node_wf [wf_intros]:
  assumes "wf_graph g"
  shows "wf_graph (snd (fg_remove_node i g))"
proof (cases "fg_nodes g i")
  case None
  then show ?thesis using assms by (simp add: fg_remove_node_def)
next
  case (Some node)
  show ?thesis
  proof (rule wf_graphI)
    show "ts = edge_targets n (fg_edges (snd (fg_remove_node i g)))"
      if "fg_adjacency (snd (fg_remove_node i g)) n = Some ts" for n ts
      using that Some wf_graphD(6) [OF assms, of n] edge_targets_filter [of n i]
      by (auto simp: fg_remove_node_def split: if_splits)
    show "ed_from e \<in> dom (fg_nodes (snd (fg_remove_node i g))) \<and>
          ed_to e \<in> dom (fg_nodes (snd (fg_remove_node i g)))"
      if "e \<in> set (fg_edges (snd (fg_remove_node i g)))" for e
      using that Some wf_graphD(4,5) [OF assms, of e] by (auto simp: fg_remove_node_def)
    show "dom (fg_adjacency (snd (fg_remove_node i g))) = dom (fg_nodes (snd (fg_remove_node i g)))"
      using Some wf_graphD(2) [OF assms] by (auto simp: fg_remove_node_def dom_def split: if_splits)
  qed (use Some assms in \<open>auto simp: fg_remove_node_def wf_graph_def split: if_splits\<close>)
qed

subsection \<open>Connecting and disconnecting\<close>

lemma edge_targets_append [simp]: "edge_targets i (es @ fs) = edge_targets i es @ edge_targets i fs"
  by (simp add: edge_targets_def)

lemma edge_targets_single [simp]: "edge_targets i [e] = (if ed_from e = i then [ed_to e] else [])"
  by (simp add: edge_targets_def)

lemma edge_targets_position:
  assumes "position (\<lambda>e. ed_from e = a \<and> ed_to e = b) es = Some k"
  shows "\<exists>j. position (\<lambda>t. t = b) (edge_targets a es) = Some j \<and>
    vec_remove j (edge_targets a es) = edge_targets a (vec_remove k es)"
proof -
  from filter_vec_remove_first [of "\<lambda>e. ed_from e = a" "\<lambda>e. ed_to e = b", OF assms]
  obtain j where "position (\<lambda>e. ed_to e = b) (filter (\<lambda>e. ed_from e = a) es) = Some j"
    "vec_remove j (filter (\<lambda>e. ed_from e = a) es) = filter (\<lambda>e. ed_from e = a) (vec_remove k es)"
    by blast
  then show ?thesis
    by (auto simp: edge_targets_def position_map o_def vec_remove_map)
qed

lemma edge_targets_other:
  assumes "position (\<lambda>e. ed_from e = a \<and> ed_to e = b) es = Some k" "i \<noteq> a"
  shows "edge_targets i (vec_remove k es) = edge_targets i es"
  unfolding edge_targets_def
  using filter_vec_remove_other [OF assms(1), of "\<lambda>e. ed_from e = i"] assms(2) by auto

text \<open>A change of the edges that leave one node, recorded in the adjacency of that node.\<close>

definition set_edges :: "node_id \<Rightarrow> 'c edge list \<Rightarrow> ('m, 'c, 'cfg) flow_graph \<Rightarrow> ('m, 'c, 'cfg) flow_graph" where
  "set_edges a es g =
     g\<lparr>fg_edges := es, fg_adjacency := (fg_adjacency g)(a \<mapsto> edge_targets a es)\<rparr>"

lemma set_edges_fields [simp]:
  "fg_nodes (set_edges a es g) = fg_nodes g"
  "fg_edges (set_edges a es g) = es"
  "fg_adjacency (set_edges a es g) = (fg_adjacency g)(a \<mapsto> edge_targets a es)"
  "fg_entry_points (set_edges a es g) = fg_entry_points g"
  "fg_exit_points (set_edges a es g) = fg_exit_points g"
  "fg_allowed_feedback (set_edges a es g) = fg_allowed_feedback g"
  by (simp_all add: set_edges_def)

lemma set_edges_wf:
  assumes "wf_graph g" "a \<in> dom (fg_nodes g)"
    and "\<And>e. e \<in> set es \<Longrightarrow> ed_from e \<in> dom (fg_nodes g) \<and> ed_to e \<in> dom (fg_nodes g)"
    and "\<And>i. i \<noteq> a \<Longrightarrow> edge_targets i es = edge_targets i (fg_edges g)"
  shows "wf_graph (set_edges a es g)"
proof (rule wf_graphI)
  show "dom (fg_adjacency (set_edges a es g)) = dom (fg_nodes (set_edges a es g))"
    using assms(2) wf_graphD(2) [OF assms(1)] by auto
  show "ts = edge_targets i (fg_edges (set_edges a es g))"
    if "fg_adjacency (set_edges a es g) i = Some ts" for i ts
    using that assms(4) [of i] wf_graphD(6) [OF assms(1), of i ts] by (auto split: if_splits)
qed (use assms(3) wf_graphD [OF assms(1)] in simp_all)

text \<open>\<open>fg_connect\<close> on both branches.\<close>

lemma fg_connect_ok:
  assumes "wf_graph g" "ed_from e \<in> dom (fg_nodes g)" "ed_to e \<in> dom (fg_nodes g)"
  shows "fg_connect X e g = (Inr (), set_edges (ed_from e) (fg_edges g @ [e]) g)"
  using assms wf_adjacency [OF assms(1), of "ed_from e"]
  by (auto simp: fg_connect_def Let_def or_insert_def set_edges_def)

lemma fg_connect_missing:
  "fg_nodes g (ed_from e) = None \<Longrightarrow>
   fg_connect X e g = (Inl (MissingNode (node_id_str X (ed_from e))), g)"
  "fg_nodes g (ed_from e) \<noteq> None \<Longrightarrow> fg_nodes g (ed_to e) = None \<Longrightarrow>
   fg_connect X e g = (Inl (MissingNode (node_id_str X (ed_to e))), g)"
  unfolding fg_connect_def by simp_all auto

lemma fg_connect_wf [wf_intros]:
  assumes "wf_graph g"
  shows "wf_graph (snd (fg_connect X e g))"
proof (cases "fg_nodes g (ed_from e) = None \<or> fg_nodes g (ed_to e) = None")
  case True
  then show ?thesis
    using assms by (auto simp: fg_connect_def)
next
  case False
  then have ends: "ed_from e \<in> dom (fg_nodes g)" "ed_to e \<in> dom (fg_nodes g)"
    by auto
  show ?thesis
    unfolding fg_connect_ok [OF assms ends] snd_conv
  proof (rule set_edges_wf [OF assms ends(1)])
    show "ed_from e' \<in> dom (fg_nodes g) \<and> ed_to e' \<in> dom (fg_nodes g)"
      if "e' \<in> set (fg_edges g @ [e])" for e'
      using that ends wf_graphD(4,5) [OF assms] by auto
  qed simp
qed

lemma fg_disconnect_None:
  "fst (fg_disconnect a b g) = None \<longleftrightarrow> \<not> (\<exists>e \<in> set (fg_edges g). ed_from e = a \<and> ed_to e = b)"
proof -
  have "fst (fg_disconnect a b g) = None \<longleftrightarrow>
      position (\<lambda>e. ed_from e = a \<and> ed_to e = b) (fg_edges g) = None"
    by (simp add: fg_disconnect_def Let_def split: option.split)
  then show ?thesis
    by (simp only: position_None) blast
qed

lemma fg_disconnect_Some:
  assumes "wf_graph g" "fg_disconnect a b g = (Some e, g')"
  obtains k where "k < length (fg_edges g)" "e = fg_edges g ! k" "ed_from e = a" "ed_to e = b"
    "\<forall>j < k. \<not> (ed_from (fg_edges g ! j) = a \<and> ed_to (fg_edges g ! j) = b)"
    "g' = set_edges a (vec_remove k (fg_edges g)) g"
    "position (\<lambda>e. ed_from e = a \<and> ed_to e = b) (fg_edges g) = Some k" "a \<in> dom (fg_nodes g)"
proof -
  from assms(2) obtain k where k: "position (\<lambda>e. ed_from e = a \<and> ed_to e = b) (fg_edges g) = Some k"
      "e = fg_edges g ! k"
      "g' = g\<lparr>fg_edges := vec_remove k (fg_edges g),
              fg_adjacency := adj_remove_first a b (fg_adjacency g)\<rparr>"
    by (auto simp: fg_disconnect_def Let_def split: option.splits)
  from position_SomeD [OF k(1)] have at: "k < length (fg_edges g)" "ed_from e = a" "ed_to e = b"
      "\<forall>j < k. \<not> (ed_from (fg_edges g ! j) = a \<and> ed_to (fg_edges g ! j) = b)"
    using k(2) by auto
  then have "e \<in> set (fg_edges g)"
    using k(2) by simp
  then have "a \<in> dom (fg_nodes g)"
    using wf_graphD(4) [OF assms(1)] at(2) by auto
  then have "adj_remove_first a b (fg_adjacency g) =
      (fg_adjacency g)(a \<mapsto> edge_targets a (vec_remove k (fg_edges g)))"
    using wf_adjacency [OF assms(1), of a] edge_targets_position [OF k(1)]
    by (auto simp: adj_remove_first_def)
  with k(3) that [OF at(1) k(2) at(2,3,4) _ k(1) \<open>a \<in> dom (fg_nodes g)\<close>] show thesis
    by (simp add: set_edges_def)
qed

lemma fg_disconnect_wf [wf_intros]:
  assumes "wf_graph g"
  shows "wf_graph (snd (fg_disconnect a b g))"
proof (cases "fg_disconnect a b g")
  case (Pair r g')
  show ?thesis
  proof (cases r)
    case None
    then show ?thesis
      using assms Pair by (auto simp: fg_disconnect_def Let_def split: option.splits)
  next
    case (Some e)
    from fg_disconnect_Some [OF assms Pair [unfolded Some]] obtain k where
      k: "g' = set_edges a (vec_remove k (fg_edges g)) g"
        "position (\<lambda>e. ed_from e = a \<and> ed_to e = b) (fg_edges g) = Some k" "a \<in> dom (fg_nodes g)"
      by blast
    show ?thesis
      unfolding Pair snd_conv k(1)
    proof (rule set_edges_wf [OF assms k(3)])
      show "ed_from e \<in> dom (fg_nodes g) \<and> ed_to e \<in> dom (fg_nodes g)"
        if "e \<in> set (vec_remove k (fg_edges g))" for e
        using that set_vec_remove [of k "fg_edges g"] wf_graphD(4,5) [OF assms] by blast
    qed (rule edge_targets_other [OF k(2)])
  qed
qed

lemma fg_write_node_wf [wf_intros]:
  "wf_graph g \<Longrightarrow> i \<in> dom (fg_nodes g) \<Longrightarrow> gn_id node = i \<Longrightarrow> wf_graph (fg_write_node i node g)"
  by (auto simp: wf_graph_def fg_write_node_def)

subsection \<open>Properties\<close>

text \<open>
  Connecting and disconnecting are inverse on the graph: connecting two present nodes adds one
  edge at the end of the list and nothing else; disconnecting a pair removes the first edge
  between them and gives it back; connecting to an absent node is refused and changes nothing,
  and so is disconnecting a pair without an edge.
\<close>

theorem connect_disconnect:
  assumes "wf_graph g"
  shows "(case fg_connect X e g of
       (Inr _, g') \<Rightarrow> ed_from e \<in> dom (fg_nodes g) \<and> ed_to e \<in> dom (fg_nodes g) \<and>
         fg_edges g' = fg_edges g @ [e] \<and> fg_nodes g' = fg_nodes g \<and> wf_graph g' \<and>
         fst (fg_disconnect (ed_from e) (ed_to e) g') \<noteq> None
     | (Inl _, g') \<Rightarrow> g' = g \<and> \<not> (ed_from e \<in> dom (fg_nodes g) \<and> ed_to e \<in> dom (fg_nodes g))) \<and>
    (case fg_disconnect a b g of
       (Some d, g') \<Rightarrow> ed_from d = a \<and> ed_to d = b \<and> wf_graph g' \<and> fg_nodes g' = fg_nodes g \<and>
         (\<exists>es fs. fg_edges g = es @ d # fs \<and> fg_edges g' = es @ fs \<and>
            filter (\<lambda>c. ed_from c = a \<and> ed_to c = b) es = [])
     | (None, g') \<Rightarrow> g' = g \<and> filter (\<lambda>c. ed_from c = a \<and> ed_to c = b) (fg_edges g) = [])"
proof (intro conjI)
  show "case fg_connect X e g of
       (Inr _, g') \<Rightarrow> ed_from e \<in> dom (fg_nodes g) \<and> ed_to e \<in> dom (fg_nodes g) \<and>
         fg_edges g' = fg_edges g @ [e] \<and> fg_nodes g' = fg_nodes g \<and> wf_graph g' \<and>
         fst (fg_disconnect (ed_from e) (ed_to e) g') \<noteq> None
     | (Inl _, g') \<Rightarrow> g' = g \<and> \<not> (ed_from e \<in> dom (fg_nodes g) \<and> ed_to e \<in> dom (fg_nodes g))"
  proof (cases "ed_from e \<in> dom (fg_nodes g) \<and> ed_to e \<in> dom (fg_nodes g)")
    case True
    let ?g = "set_edges (ed_from e) (fg_edges g @ [e]) g"
    have ok: "fg_connect X e g = (Inr (), ?g)"
      using fg_connect_ok [OF assms] True by blast
    have edges: "fg_edges ?g = fg_edges g @ [e]"
      by simp
    have "position (\<lambda>c. ed_from c = ed_from e \<and> ed_to c = ed_to e) (fg_edges ?g) \<noteq> None"
      unfolding edges position_None by auto
    then have "fst (fg_disconnect (ed_from e) (ed_to e) ?g) \<noteq> None"
      by (auto simp: fg_disconnect_def Let_def)
    moreover have "wf_graph ?g"
      using fg_connect_wf [OF assms, of X e] ok by simp
    ultimately show ?thesis
      using True ok by simp
  next
    case False
    then consider (no_from) "fg_nodes g (ed_from e) = None"
      | (no_to) "fg_nodes g (ed_from e) \<noteq> None" "fg_nodes g (ed_to e) = None"
      by blast
    then show ?thesis
    proof cases
      case no_from
      with fg_connect_missing(1) [OF no_from, of X] show ?thesis by auto
    next
      case no_to
      with fg_connect_missing(2) [OF no_to, of X] show ?thesis by auto
    qed
  qed
  show "case fg_disconnect a b g of
       (Some d, g') \<Rightarrow> ed_from d = a \<and> ed_to d = b \<and> wf_graph g' \<and> fg_nodes g' = fg_nodes g \<and>
         (\<exists>es fs. fg_edges g = es @ d # fs \<and> fg_edges g' = es @ fs \<and>
            filter (\<lambda>c. ed_from c = a \<and> ed_to c = b) es = [])
     | (None, g') \<Rightarrow> g' = g \<and> filter (\<lambda>c. ed_from c = a \<and> ed_to c = b) (fg_edges g) = []"
  proof (cases "position (\<lambda>c. ed_from c = a \<and> ed_to c = b) (fg_edges g)")
    case None
    then have "fg_disconnect a b g = (None, g)"
      by (simp add: fg_disconnect_def)
    moreover have "filter (\<lambda>c. ed_from c = a \<and> ed_to c = b) (fg_edges g) = []"
      using None by (auto simp: position_None filter_empty_conv)
    ultimately show ?thesis by simp
  next
    case (Some k)
    obtain es d fs where split: "fg_edges g = es @ d # fs" "length es = k" "ed_from d = a \<and> ed_to d = b"
      "\<forall>c \<in> set es. \<not> (ed_from c = a \<and> ed_to c = b)"
      using position_Some_split [OF Some] by metis
    then have "fg_disconnect a b g = (Some d, snd (fg_disconnect a b g))"
      and edges: "fg_edges (snd (fg_disconnect a b g)) = es @ fs"
      and nodes: "fg_nodes (snd (fg_disconnect a b g)) = fg_nodes g"
      using Some by (simp_all add: fg_disconnect_def Let_def nth_append)
    then obtain g' where g': "fg_disconnect a b g = (Some d, g')" "fg_edges g' = es @ fs"
      "fg_nodes g' = fg_nodes g" "wf_graph g'"
      using fg_disconnect_wf [OF assms, of a b] by (metis snd_conv)
    have "filter (\<lambda>c. ed_from c = a \<and> ed_to c = b) es = []"
      using split(4) by (auto simp: filter_empty_conv)
    then have "\<exists>es fs. fg_edges g = es @ d # fs \<and> fg_edges g' = es @ fs \<and>
            filter (\<lambda>c. ed_from c = a \<and> ed_to c = b) es = []"
      using split(1) g'(2) by (intro exI [of _ es] exI [of _ fs] conjI)
    with split(3) g' show ?thesis
      by simp
  qed
qed

end
