(* ===== verification/Graph_Cycle.thy ===== *)
theory Graph_Cycle
  imports Flow_Graph Digraph
begin

text \<open>
  Cycle detection in the flow graph (\<open>detect_cycle\<close>, \<open>dfs_detect_cycle\<close>, \<open>describe_cycle\<close> of
  \<open>crates/nyarix-graph/src/graph.rs\<close>). The recursion has fuel; one more than the number of
  nodes is enough. The search refines the depth-first search of theory \<open>Digraph\<close>.
\<close>

subsection \<open>The flow graph as a directed graph\<close>

definition fg_succs :: "('m, 'c, 'cfg) flow_graph \<Rightarrow> node_id \<Rightarrow> node_id list" where
  "fg_succs g n = (case fg_adjacency g n of None \<Rightarrow> [] | Some ts \<Rightarrow> ts)"

text \<open>The successors along edges that are not marked as feedback.\<close>

definition fg_live :: "('m, 'c, 'cfg) flow_graph \<Rightarrow> node_id \<Rightarrow> node_id list" where
  "fg_live g n = filter (\<lambda>t. (n, t) \<notin> fg_allowed_feedback g) (fg_succs g n)"

lemma fg_succs_wf:
  assumes "wf_graph g"
  shows "fg_succs g n = edge_targets n (fg_edges g)"
proof (cases "n \<in> dom (fg_nodes g)")
  case True
  then show ?thesis
    using wf_adjacency [OF assms, of n] by (simp add: fg_succs_def)
next
  case False
  then show ?thesis
    using wf_adjacency [OF assms, of n] edge_targets_fresh [OF assms False] by (simp add: fg_succs_def)
qed

lemma fg_succs_edge:
  "wf_graph g \<Longrightarrow> t \<in> set (fg_succs g n) \<longleftrightarrow> (\<exists>e \<in> set (fg_edges g). ed_from e = n \<and> ed_to e = t)"
  by (auto simp: fg_succs_wf edge_targets_def)

interpretation fg: digraph wf_graph "\<lambda>g. dom (fg_nodes g)" fg_succs
proof (unfold_locales, goal_cases)
  case (1 g)
  then show ?case by (rule wf_graphD(1))
next
  case (2 g v)
  show ?case
  proof
    fix t
    assume "t \<in> set (fg_succs g v)"
    then obtain e where "e \<in> set (fg_edges g)" "ed_to e = t"
      using fg_succs_edge [OF 2(1)] by blast
    then show "t \<in> dom (fg_nodes g)"
      using wf_graphD(5) [OF 2(1)] by blast
  qed
qed

lemma fg_live_subset: "set (fg_live g n) \<subseteq> set (fg_succs g n)"
  by (auto simp: fg_live_def)

interpretation live: digraph wf_graph "\<lambda>g. dom (fg_nodes g)" fg_live
proof (unfold_locales, goal_cases)
  case (1 g)
  then show ?case by (rule wf_graphD(1))
next
  case (2 g v)
  then show ?case
    using fg.succ_verts [OF 2] fg_live_subset [of g v] by blast
qed

subsection \<open>The search\<close>

datatype dfs_mark = Visiting | Visited

type_synonym fg_dfs_state = "(node_id \<rightharpoonup> dfs_mark) \<times> node_id list"

primrec fg_dfs_scan ::
    "(node_id \<Rightarrow> fg_dfs_state \<Rightarrow> (node_id list option \<times> fg_dfs_state) outcome) \<Rightarrow>
     ('m, 'c, 'cfg) flow_graph \<Rightarrow> node_id \<Rightarrow> node_id list \<Rightarrow> fg_dfs_state \<Rightarrow>
     (node_id list option \<times> fg_dfs_state) outcome" where
  "fg_dfs_scan rec g node [] st = Ret (None, st)"
| "fg_dfs_scan rec g node (next # ns) st =
     (if (node, next) \<in> fg_allowed_feedback g then fg_dfs_scan rec g node ns st
      else case fst st next of
        Some Visiting \<Rightarrow>
          (let start_pos = (case position (\<lambda>n. n = next) (snd st) of Some i \<Rightarrow> i | None \<Rightarrow> 0);
               cycle = drop start_pos (snd st) @ [next]
           in Ret (Some cycle, st))
      | Some Visited \<Rightarrow> fg_dfs_scan rec g node ns st
      | None \<Rightarrow>
          obind (rec next st) (\<lambda>(r, st').
            case r of
              Some cycle \<Rightarrow> Ret (Some cycle, st')
            | None \<Rightarrow> fg_dfs_scan rec g node ns st'))"

primrec fg_dfs_detect_cycle ::
    "('m, 'c, 'cfg) flow_graph \<Rightarrow> nat \<Rightarrow> node_id \<Rightarrow> fg_dfs_state \<Rightarrow>
     (node_id list option \<times> fg_dfs_state) outcome" where
  "fg_dfs_detect_cycle g 0 node st = NoFuel"
| "fg_dfs_detect_cycle g (Suc fuel) node st =
     (let st1 = ((fst st)(node \<mapsto> Visiting), snd st @ [node])
      in obind
           (case fg_adjacency g node of
              Some neighbors \<Rightarrow> fg_dfs_scan (fg_dfs_detect_cycle g fuel) g node neighbors st1
            | None \<Rightarrow> Ret (None, st1))
           (\<lambda>(r, st2).
             case r of
               Some cycle \<Rightarrow> Ret (Some cycle, st2)
             | None \<Rightarrow> Ret (None, (fst st2)(node \<mapsto> Visited), butlast (snd st2))))"

fun fg_detect_from ::
    "('m, 'c, 'cfg) flow_graph \<Rightarrow> nat \<Rightarrow> node_id list \<Rightarrow> fg_dfs_state \<Rightarrow> node_id list option outcome" where
  "fg_detect_from g fuel [] st = Ret None"
| "fg_detect_from g fuel (start # rest) st =
     (if fst st start \<noteq> None then fg_detect_from g fuel rest st
      else obind (fg_dfs_detect_cycle g fuel start st) (\<lambda>(r, st').
             case r of Some cycle \<Rightarrow> Ret (Some cycle) | None \<Rightarrow> fg_detect_from g fuel rest st'))"

text \<open>The first argument is the order in which the hash map of nodes is iterated.\<close>

definition fg_detect_cycle :: "node_id list \<Rightarrow> ('m, 'c, 'cfg) flow_graph \<Rightarrow> node_id list option outcome" where
  "fg_detect_cycle ks g = fg_detect_from g (Suc (fg_node_count g)) ks (Map.empty, [])"

definition arrow :: string where
  "arrow = '' '' @ [CHR 0xE2, CHR 0x86, CHR 0x92] @ '' ''"

fun join :: "string \<Rightarrow> string list \<Rightarrow> string" where
  "join sep [] = []"
| "join sep [x] = x"
| "join sep (x # y # xs) = x @ sep @ join sep (y # xs)"

definition fg_node_label :: "('v, 'm, 'ctx, 'c, 'f) ext \<Rightarrow> ('m, 'c, 'cfg) flow_graph \<Rightarrow> node_id \<Rightarrow> string" where
  "fg_node_label X g i =
     (case fg_nodes g i of None \<Rightarrow> node_id_str X i | Some node \<Rightarrow> gn_name X node)"

definition fg_describe_cycle ::
    "('v, 'm, 'ctx, 'c, 'f) ext \<Rightarrow> node_id list \<Rightarrow> ('m, 'c, 'cfg) flow_graph \<Rightarrow> string" where
  "fg_describe_cycle X cycle g = join arrow (map (fg_node_label X g) cycle)"

subsection \<open>Refinement of the depth-first search\<close>

fun abs_mark :: "dfs_mark option \<Rightarrow> mark" where
  "abs_mark None = Unvisited"
| "abs_mark (Some Visiting) = InProgress"
| "abs_mark (Some Visited) = Done"

lemma abs_mark_iff [simp]:
  "abs_mark m = Unvisited \<longleftrightarrow> m = None"
  "abs_mark m = InProgress \<longleftrightarrow> m = Some Visiting"
  "abs_mark m = Done \<longleftrightarrow> m = Some Visited"
  by (cases m rule: abs_mark.cases; simp)+

definition dfs_rel :: "fg_dfs_state \<Rightarrow> node_id dfs_state \<Rightarrow> bool" where
  "dfs_rel st d \<longleftrightarrow> df_marks d = (\<lambda>v. abs_mark (fst st v)) \<and> df_path d = snd st"

definition dfs_match ::
    "(node_id list option \<times> fg_dfs_state) outcome \<Rightarrow> node_id list + node_id dfs_state \<Rightarrow> bool" where
  "dfs_match out r \<longleftrightarrow>
     (case r of
        Inl c \<Rightarrow> (\<exists>st. out = Ret (Some c, st))
      | Inr d \<Rightarrow> (\<exists>st. out = Ret (None, st) \<and> dfs_rel st d))"

lemma fg_dfs_scan_refines:
  assumes rec: "\<And>v st d r. dfs_rel st d \<Longrightarrow> fst st v = None \<Longrightarrow>
      dfs_visit (fg_live g) n v d = Ret r \<Longrightarrow> dfs_match (rec v st) r"
  shows "dfs_rel st d \<Longrightarrow>
    dfs_all (dfs_visit (fg_live g) n) (filter (\<lambda>t. (node, t) \<notin> fg_allowed_feedback g) ns) d = Ret r \<Longrightarrow>
    dfs_match (fg_dfs_scan rec g node ns st) r"
proof (induction ns arbitrary: st d)
  case Nil
  then show ?case by (auto simp: dfs_match_def)
next
  case (Cons t ns)
  show ?case
  proof (cases "(node, t) \<in> fg_allowed_feedback g")
    case True
    with Cons show ?thesis by simp
  next
    case False
    with Cons.prems(2) obtain r1 where r1: "dfs_visit (fg_live g) n t d = Ret r1"
      "(case r1 of Inl c \<Rightarrow> Ret (Inl c)
        | Inr d' \<Rightarrow> dfs_all (dfs_visit (fg_live g) n)
            (filter (\<lambda>t. (node, t) \<notin> fg_allowed_feedback g) ns) d') = Ret r"
      by (auto simp: obind_eq_Ret)
    from r1(1) obtain m where m: "n = Suc m"
      by (cases n) auto
    have marks: "df_marks d t = abs_mark (fst st t)" "df_path d = snd st"
      using Cons.prems(1) by (simp_all add: dfs_rel_def)
    consider (new) "fst st t = None" | (busy) "fst st t = Some Visiting" | (closed) "fst st t = Some Visited"
      by (cases "fst st t" rule: abs_mark.cases) auto
    then show ?thesis
    proof cases
      case new
      have match: "dfs_match (rec t st) r1"
        by (rule rec [OF Cons.prems(1) new r1(1)])
      show ?thesis
      proof (cases r1)
        case (Inl c)
        with match obtain st' where "rec t st = Ret (Some c, st')"
          by (auto simp: dfs_match_def)
        with new False r1(2) Inl show ?thesis
          by (auto simp: dfs_match_def outcome_simps)
      next
        case (Inr d')
        with match obtain st' where st': "rec t st = Ret (None, st')" "dfs_rel st' d'"
          by (auto simp: dfs_match_def)
        have "dfs_match (fg_dfs_scan rec g node ns st') r"
          by (rule Cons.IH [OF st'(2)]) (use r1(2) Inr in simp)
        with st'(1) new False show ?thesis
          by (simp add: outcome_simps)
      qed
    next
      case busy
      then have "r1 = Inl (dfs_cycle t (snd st))"
        using r1(1) marks m by simp
      with r1(2) False busy show ?thesis
        by (auto simp: dfs_match_def dfs_cycle_def Let_def)
    next
      case closed
      then have "r1 = Inr d"
        using r1(1) marks m by simp
      with r1(2) False closed Cons.IH [OF Cons.prems(1)] show ?thesis
        by simp
    qed
  qed
qed

lemma fg_dfs_refines:
  "dfs_rel st d \<Longrightarrow> fst st v = None \<Longrightarrow> dfs_visit (fg_live g) n v d = Ret r \<Longrightarrow>
   dfs_match (fg_dfs_detect_cycle g n v st) r"
proof (induction n arbitrary: v st d r)
  case 0
  then show ?case by simp
next
  case (Suc n)
  let ?st = "((fst st)(v \<mapsto> Visiting), snd st @ [v])"
  let ?d = "d\<lparr>df_marks := (df_marks d)(v := InProgress), df_path := df_path d @ [v]\<rparr>"
  have rel: "dfs_rel ?st ?d"
    using Suc.prems(1) by (auto simp: dfs_rel_def)
  have "df_marks d v = Unvisited"
    using Suc.prems(1,2) by (simp add: dfs_rel_def)
  with Suc.prems(3) obtain r1 where r1:
    "dfs_all (dfs_visit (fg_live g) n) (fg_live g v) ?d = Ret r1"
    "(case r1 of
        Inl c \<Rightarrow> Ret (Inl c)
      | Inr d' \<Rightarrow> Ret (Inr (d'\<lparr>df_marks := (df_marks d')(v := Done),
          df_path := butlast (df_path d'), df_order := df_order d' @ [v]\<rparr>))) = Ret r"
    by (auto simp: obind_eq_Ret)
  have scan: "dfs_match (fg_dfs_scan (fg_dfs_detect_cycle g n) g v (fg_succs g v) ?st) r1"
    by (rule fg_dfs_scan_refines [OF Suc.IH rel]) (use r1(1) in \<open>simp_all add: fg_live_def [of g v]\<close>)
  moreover have "(case fg_adjacency g v of
      Some ns \<Rightarrow> fg_dfs_scan (fg_dfs_detect_cycle g n) g v ns ?st | None \<Rightarrow> Ret (None, ?st)) =
    fg_dfs_scan (fg_dfs_detect_cycle g n) g v (fg_succs g v) ?st"
    by (simp add: fg_succs_def split: option.split)
  ultimately show ?case
    using r1(2)
    by (cases r1) (auto simp: dfs_match_def dfs_rel_def Let_def outcome_simps fun_eq_iff)
qed

lemma fg_detect_from_refines:
  "dfs_rel st d \<Longrightarrow> snd st = [] \<Longrightarrow> live.dfs_inv g d \<Longrightarrow> wf_graph g \<Longrightarrow> set vs \<subseteq> dom (fg_nodes g) \<Longrightarrow>
   card (dom (fg_nodes g)) < n \<Longrightarrow> dfs_all (dfs_visit (fg_live g) n) vs d = Ret r \<Longrightarrow>
   fg_detect_from g n vs st = Ret (case r of Inl c \<Rightarrow> Some c | Inr _ \<Rightarrow> None)"
proof (induction vs arbitrary: st d)
  case Nil
  then show ?case by auto
next
  case (Cons v vs)
  have d: "df_path d = []" "df_marks d v = abs_mark (fst st v)"
    using Cons.prems(1,2) by (auto simp: dfs_rel_def)
  have "v \<notin> {w. df_marks d w = InProgress}"
    using Cons.prems(3) d(1) unfolding live.dfs_inv_def by (metis empty_iff list.set(1))
  then have not_open: "df_marks d v \<noteq> InProgress"
    by simp
  have "card (live.unvisited g d) \<le> card (dom (fg_nodes g))"
    using wf_graphD(1) [OF Cons.prems(4)] by (intro card_mono) (auto simp: live.unvisited_def)
  then obtain r1 where r1: "dfs_visit (fg_live g) n v d = Ret r1" "live.dfs_result g [v] d r1"
    using live.dfs_visit_result [OF Cons.prems(4,3), of v n] d(1) not_open Cons.prems(5,6) by auto
  obtain m where m: "n = Suc m"
    using Cons.prems(6) by (cases n) auto
  show ?case
  proof (cases "fst st v")
    case (Some mk)
    with d(2) not_open have fin: "df_marks d v = Done"
      by (cases mk) auto
    then have "dfs_visit (fg_live g) n v d = Ret (Inr d)"
      by (simp add: m)
    then have "dfs_all (dfs_visit (fg_live g) n) vs d = Ret r"
      using Cons.prems(7) by (simp add: outcome_simps)
    with Some Cons.IH [OF Cons.prems(1-4)] Cons.prems(5,6) show ?thesis
      by simp
  next
    case None
    have match: "dfs_match (fg_dfs_detect_cycle g n v st) r1"
      by (rule fg_dfs_refines [OF Cons.prems(1) None r1(1)])
    show ?thesis
    proof (cases r1)
      case (Inl c)
      with match None Cons.prems(7) r1(1) show ?thesis
        by (auto simp: dfs_match_def outcome_simps)
    next
      case (Inr d')
      with match obtain st' where st': "fg_dfs_detect_cycle g n v st = Ret (None, st')" "dfs_rel st' d'"
        by (auto simp: dfs_match_def)
      have d': "live.dfs_inv g d'" "df_path d' = []"
        using r1(2) Inr d(1) by (auto simp: live.dfs_result_def)
      then have "snd st' = []"
        using st'(2) by (simp add: dfs_rel_def)
      moreover have "dfs_all (dfs_visit (fg_live g) n) vs d' = Ret r"
        using Cons.prems(7) r1(1) Inr by (simp add: outcome_simps)
      ultimately show ?thesis
        using Cons.IH [OF st'(2) _ d'(1) Cons.prems(4) _ Cons.prems(6)] Cons.prems(5) None st'(1)
        by (simp add: outcome_simps)
    qed
  qed
qed

lemma fg_live_cycle_in: "wf_graph g \<Longrightarrow> is_cycle (fg_live g) c \<Longrightarrow> set c \<subseteq> dom (fg_nodes g)"
proof -
  assume wf: "wf_graph g" and c: "is_cycle (fg_live g) c"
  then obtain u v p where p: "c = u # v # p"
    by (cases c; cases "tl c") (auto simp: is_cycle_def)
  then have "v \<in> set (fg_succs g u)"
    using c by (auto simp: is_cycle_def path_in_def fg_live_def)
  then obtain e where "e \<in> set (fg_edges g)" "ed_from e = u"
    using fg_succs_edge [OF wf] by blast
  then have "hd c \<in> dom (fg_nodes g)"
    using wf_graphD(4) [OF wf] p by auto
  moreover have "path_in (fg_live g) c"
    using c by (simp add: is_cycle_def)
  ultimately show ?thesis
    by (rule live.path_verts [OF wf, rotated])
qed

lemma fg_detect_cycle_result:
  assumes "wf_graph g" "is_order ks (fg_nodes g)"
  shows "\<exists>r. fg_detect_cycle ks g = Ret r \<and>
    (case r of
       Some c \<Rightarrow> is_cycle (fg_live g) c \<and> set c \<subseteq> dom (fg_nodes g)
     | None \<Rightarrow> \<nexists>c. is_cycle (fg_live g) c)"
proof -
  let ?n = "Suc (fg_node_count g)"
  have ks: "set ks = dom (fg_nodes g)" "card (dom (fg_nodes g)) < ?n"
    using assms(2) by (simp_all add: fg_node_count_def)
  from live.dfs_roots_result [OF assms(1) ks] obtain r where
    r: "dfs_all (dfs_visit (fg_live g) ?n) ks dfs_init = Ret r"
      "case r of Inl c \<Rightarrow> is_cycle (fg_live g) c \<and> set c \<subseteq> dom (fg_nodes g)
        | Inr d \<Rightarrow> set (df_order d) = dom (fg_nodes g) \<and> distinct (df_order d) \<and>
            topo (fg_live g) (df_order d)"
    by blast
  have "fg_detect_cycle ks g = Ret (case r of Inl c \<Rightarrow> Some c | Inr _ \<Rightarrow> None)"
    unfolding fg_detect_cycle_def
    by (rule fg_detect_from_refines [OF _ _ live.dfs_init_inv assms(1) _ ks(2) r(1)])
      (use ks(1) in \<open>simp_all add: dfs_rel_def dfs_init_def\<close>)
  moreover have "\<not> is_cycle (fg_live g) c" if "r = Inr d" for c d
    using r(2) that live.topological_no_cycle [of "df_order d" g c] fg_live_cycle_in [OF assms(1), of c]
    by auto
  ultimately show ?thesis
    using r(2) by (cases r) auto
qed

text \<open>
  C12. Cycle detection is sound and complete and always ends: on any graph the operations build, and
  in whatever order the nodes are visited, it reports a cycle exactly when the edges that are
  not marked as feedback contain one, and what it reports is such a cycle.
\<close>

theorem detect_cycle_exact:
  assumes "wf_graph g" "is_order ks (fg_nodes g)"
  shows "\<exists>r. fg_detect_cycle ks g = Ret r \<and>
    (case r of
       Some c \<Rightarrow> is_cycle (fg_live g) c \<and> set c \<subseteq> dom (fg_nodes g)
     | None \<Rightarrow> \<nexists>c. is_cycle (fg_live g) c)"
  by (rule fg_detect_cycle_result [OF assms])

end
