(* ===== verification/Graph_Search.thy ===== *)
theory Graph_Search
  imports Graph_Cycle
begin

text \<open>
  Path finding in the flow graph (\<open>find_path\<close> and \<open>reconstruct_path\<close> of
  \<open>crates/nyarix-graph/src/graph.rs\<close>): a breadth-first search. One more than the number of nodes
  is enough fuel for either loop.
\<close>

type_synonym bfs_state = "node_id set \<times> node_id list \<times> (node_id \<rightharpoonup> node_id)"

text \<open>The loop over the neighbours of a node; \<open>Inl\<close> is the predecessor map when \<open>to\<close> is found.\<close>

fun bfs_scan ::
    "node_id \<Rightarrow> node_id \<Rightarrow> node_id list \<Rightarrow> bfs_state \<Rightarrow> (node_id \<rightharpoonup> node_id) + bfs_state" where
  "bfs_scan to current [] st = Inr st"
| "bfs_scan to current (next # ns) (visited, queue, predecessor) =
     (if next \<in> visited then bfs_scan to current ns (visited, queue, predecessor)
      else let visited' = insert next visited;
               predecessor' = predecessor(next \<mapsto> current)
           in if next = to then Inl predecessor'
              else bfs_scan to current ns (visited', queue @ [next], predecessor'))"

fun reconstruct_path ::
    "nat \<Rightarrow> (node_id \<rightharpoonup> node_id) \<Rightarrow> node_id \<Rightarrow> node_id \<Rightarrow> node_id list \<Rightarrow> node_id list outcome" where
  "reconstruct_path 0 predecessor from current path = NoFuel"
| "reconstruct_path (Suc fuel) predecessor from current path =
     (if current = from then Ret (rev path)
      else case predecessor current of
             None \<Rightarrow> Panic ''no entry found for key''
           | Some p \<Rightarrow> reconstruct_path fuel predecessor from p (path @ [p]))"

fun bfs_loop ::
    "nat \<Rightarrow> nat \<Rightarrow> ('m, 'c, 'cfg) flow_graph \<Rightarrow> node_id \<Rightarrow> node_id \<Rightarrow> bfs_state \<Rightarrow>
     node_id list option outcome" where
  "bfs_loop 0 fuel g from to st = NoFuel"
| "bfs_loop (Suc n) fuel g from to (visited, [], predecessor) = Ret None"
| "bfs_loop (Suc n) fuel g from to (visited, current # queue, predecessor) =
     (case fg_adjacency g current of
        None \<Rightarrow> bfs_loop n fuel g from to (visited, queue, predecessor)
      | Some neighbors \<Rightarrow>
          (case bfs_scan to current neighbors (visited, queue, predecessor) of
             Inl pred \<Rightarrow> obind (reconstruct_path fuel pred from to [to]) (\<lambda>p. Ret (Some p))
           | Inr st' \<Rightarrow> bfs_loop n fuel g from to st'))"

definition fg_find_path :: "('m, 'c, 'cfg) flow_graph \<Rightarrow> node_id \<Rightarrow> node_id \<Rightarrow> node_id list option outcome" where
  "fg_find_path g from to =
     (if fg_nodes g from = None \<or> fg_nodes g to = None then Ret None
      else if from = to then Ret (Some [from])
      else let fuel = Suc (fg_node_count g)
           in bfs_loop fuel fuel g from to ({from}, [from], Map.empty))"

subsection \<open>The tree of predecessors\<close>

text \<open>\<open>d\<close> is the number of hops from \<open>from\<close> at which a visited node was found.\<close>

definition bfs_tree ::
    "(node_id \<Rightarrow> node_id list) \<Rightarrow> node_id \<Rightarrow> (node_id \<Rightarrow> nat) \<Rightarrow> node_id set \<Rightarrow> (node_id \<rightharpoonup> node_id) \<Rightarrow> bool" where
  "bfs_tree s from d V pred \<longleftrightarrow>
     from \<in> V \<and> d from = 0 \<and>
     (\<forall>v \<in> V. v \<noteq> from \<longrightarrow> (\<exists>u \<in> V. pred v = Some u \<and> v \<in> set (s u) \<and> d v = Suc (d u)))"

lemma bfs_tree_add:
  assumes "bfs_tree s from d V pred" "u \<in> V" "w \<notin> V" "w \<in> set (s u)"
  shows "bfs_tree s from (d(w := Suc (d u))) (insert w V) (pred(w \<mapsto> u))"
proof -
  have "u \<noteq> w" "from \<noteq> w"
    using assms by (auto simp: bfs_tree_def)
  moreover have "\<exists>x \<in> insert w V. (pred(w \<mapsto> u)) v = Some x \<and> v \<in> set (s x) \<and>
      (d(w := Suc (d u))) v = Suc ((d(w := Suc (d u))) x)"
    if "v \<in> V" "v \<noteq> from" for v
  proof -
    from assms(1) that obtain x where "x \<in> V" "pred v = Some x" "v \<in> set (s x)" "d v = Suc (d x)"
      by (auto simp: bfs_tree_def)
    with that(1) assms(3) show ?thesis
      by (intro bexI [of _ x]) auto
  qed
  ultimately show ?thesis
    using assms by (auto simp: bfs_tree_def)
qed

lemma bfs_tree_levels:
  assumes "bfs_tree s from d V pred"
  shows "v \<in> V \<Longrightarrow> i \<le> d v \<Longrightarrow> i \<in> d ` V"
proof (induction "d v" arbitrary: v)
  case 0
  then show ?case by (metis image_eqI le_zero_eq)
next
  case (Suc n)
  show ?case
  proof (cases "i = d v")
    case True
    with Suc.prems(1) show ?thesis by blast
  next
    case False
    have "v \<noteq> from"
      using Suc.hyps(2) assms by (auto simp: bfs_tree_def)
    with assms Suc.prems(1) obtain u where "u \<in> V" "d v = Suc (d u)"
      by (auto simp: bfs_tree_def)
    with Suc False show ?thesis
      by (metis Suc_inject le_Suc_eq)
  qed
qed

lemma bfs_tree_depth:
  assumes "bfs_tree s from d V pred" "finite V" "v \<in> V"
  shows "d v < card V"
proof -
  have "{..d v} \<subseteq> d ` V"
    using bfs_tree_levels [OF assms(1,3)] by blast
  then have "card {..d v} \<le> card (d ` V)"
    using assms(2) by (intro card_mono) auto
  also have "\<dots> \<le> card V"
    by (rule card_image_le [OF assms(2)])
  finally show ?thesis by simp
qed

lemma reconstruct_path_tree:
  assumes "bfs_tree s from d V pred"
  shows "v \<in> V \<Longrightarrow> d v < n \<Longrightarrow>
    \<exists>p. reconstruct_path n pred from v (rr @ [v]) = Ret (p @ rev rr) \<and>
      path_in s p \<and> hd p = from \<and> last p = v \<and> length p = Suc (d v)"
proof (induction n arbitrary: v rr)
  case 0
  then show ?case by simp
next
  case (Suc n)
  show ?case
  proof (cases "v = from")
    case True
    then show ?thesis
      using assms by (intro exI [of _ "[from]"]) (auto simp: bfs_tree_def)
  next
    case False
    with assms Suc.prems(1) obtain u where
      u: "u \<in> V" "pred v = Some u" "v \<in> set (s u)" "d v = Suc (d u)"
      by (auto simp: bfs_tree_def)
    with Suc.IH [OF u(1), of "rr @ [v]"] Suc.prems(2) obtain p where
      p: "reconstruct_path n pred from u ((rr @ [v]) @ [u]) = Ret (p @ rev (rr @ [v]))"
        "path_in s p" "hd p = from" "last p = u" "length p = Suc (d u)"
      by auto
    have "p \<noteq> []"
      using p(5) by auto
    then show ?thesis
      using p u False
      by (intro exI [of _ "p @ [v]"]) (auto simp: path_in_snoc)
  qed
qed

subsection \<open>The frontier\<close>

text \<open>
  The nodes of \<open>O'\<close> are still to be processed, the others have all their successors visited.
  A path to a node that is not visited leaves through the frontier, so it is long.
\<close>

definition bfs_frontier ::
    "(node_id \<Rightarrow> node_id list) \<Rightarrow> (node_id \<Rightarrow> nat) \<Rightarrow> nat \<Rightarrow> node_id set \<Rightarrow> node_id set \<Rightarrow> bool" where
  "bfs_frontier s d D V F \<longleftrightarrow>
     F \<subseteq> V \<and> (\<forall>u \<in> F. D \<le> d u) \<and> (\<forall>v \<in> V. d v \<le> Suc D) \<and>
     (\<forall>u \<in> V - F. set (s u) \<subseteq> V \<and> (\<forall>w \<in> set (s u). d w \<le> Suc (d u)))"

lemma bfs_frontier_path:
  assumes "bfs_frontier s d D V F" "from \<in> V" "d from = 0"
  shows "path_in s p \<Longrightarrow> hd p = from \<Longrightarrow>
    (last p \<in> V \<and> Suc (d (last p)) \<le> length p) \<or> Suc (Suc D) \<le> length p"
proof (induction p rule: rev_induct)
  case Nil
  then show ?case by (simp add: path_in_def)
next
  case (snoc v p)
  show ?case
  proof (cases "p = []")
    case True
    with snoc.prems assms show ?thesis by simp
  next
    case False
    with snoc.prems have p: "path_in s p" "hd p = from" "v \<in> set (s (last p))"
      by (auto simp: path_in_snoc)
    from snoc.IH [OF p(1,2)] show ?thesis
    proof
      assume u: "last p \<in> V \<and> Suc (d (last p)) \<le> length p"
      show ?thesis
      proof (cases "last p \<in> F")
        case True
        with assms(1) have "D \<le> d (last p)"
          by (auto simp: bfs_frontier_def)
        with u show ?thesis by simp
      next
        case notF: False
        with assms(1) u p(3) have "v \<in> V" "d v \<le> Suc (d (last p))"
          by (auto simp: bfs_frontier_def)
        with u show ?thesis by simp
      qed
    qed simp
  qed
qed

definition bfs_scanning ::
    "('m, 'c, 'cfg) flow_graph \<Rightarrow> node_id \<Rightarrow> node_id \<Rightarrow> node_id \<Rightarrow> (node_id \<Rightarrow> nat) \<Rightarrow> node_id list \<Rightarrow>
     bfs_state \<Rightarrow> bool" where
  "bfs_scanning g from to c d seen = (\<lambda>(V, q, pred).
     bfs_tree (fg_succs g) from d V pred \<and> V \<subseteq> dom (fg_nodes g) \<and> to \<notin> V \<and> c \<in> V \<and>
     sorted (map d q) \<and> (\<forall>x \<in> set q. d c \<le> d x \<and> d x \<le> Suc (d c)) \<and>
     bfs_frontier (fg_succs g) d (d c) V (insert c (set q)) \<and> set seen \<subseteq> V)"

definition bfs_inv ::
    "('m, 'c, 'cfg) flow_graph \<Rightarrow> node_id \<Rightarrow> node_id \<Rightarrow> (node_id \<Rightarrow> nat) \<Rightarrow> bfs_state \<Rightarrow> bool" where
  "bfs_inv g from to d = (\<lambda>(V, q, pred).
     bfs_tree (fg_succs g) from d V pred \<and> V \<subseteq> dom (fg_nodes g) \<and> to \<notin> V \<and>
     sorted (map d q) \<and> (\<forall>x \<in> set q. d x \<le> Suc (d (hd q))) \<and>
     (if q = [] then \<forall>u \<in> V. set (fg_succs g u) \<subseteq> V
      else bfs_frontier (fg_succs g) d (d (hd q)) V (set q)))"

text \<open>How much work is left: nodes not visited, and nodes in the queue.\<close>

definition bfs_work :: "('m, 'c, 'cfg) flow_graph \<Rightarrow> bfs_state \<Rightarrow> nat" where
  "bfs_work g = (\<lambda>(V, q, pred). card (dom (fg_nodes g) - V) + length q)"

definition bfs_found ::
    "('m, 'c, 'cfg) flow_graph \<Rightarrow> node_id \<Rightarrow> node_id \<Rightarrow> (node_id \<rightharpoonup> node_id) \<Rightarrow> bool" where
  "bfs_found g from to pred \<longleftrightarrow>
     (\<exists>d V. bfs_tree (fg_succs g) from d V pred \<and> V \<subseteq> dom (fg_nodes g) \<and> to \<in> V \<and>
       (\<forall>p. path_in (fg_succs g) p \<longrightarrow> hd p = from \<longrightarrow> last p = to \<longrightarrow> d to < length p))"

lemma bfs_visit_found:
  assumes "bfs_scanning g from to c d seen (V, q, pred)" "to \<in> set (fg_succs g c)"
    and "to \<in> dom (fg_nodes g)"
  shows "bfs_found g from to (pred(to \<mapsto> c))"
proof -
  let ?d = "d(to := Suc (d c))"
  have t: "bfs_tree (fg_succs g) from d V pred" "to \<notin> V" "c \<in> V" "V \<subseteq> dom (fg_nodes g)"
      "bfs_frontier (fg_succs g) d (d c) V (insert c (set q))"
    using assms(1) by (auto simp: bfs_scanning_def)
  have "bfs_tree (fg_succs g) from ?d (insert to V) (pred(to \<mapsto> c))"
    by (rule bfs_tree_add [OF t(1,3,2) assms(2)])
  moreover have "?d to < length p"
    if "path_in (fg_succs g) p" "hd p = from" "last p = to" for p
    using bfs_frontier_path [OF t(5) _ _ that(1,2)] t(1,2) that(3) by (auto simp: bfs_tree_def)
  ultimately show ?thesis
    unfolding bfs_found_def
    by (intro exI [of _ ?d] exI [of _ "insert to V"]) (use t(4) assms(3) in auto)
qed

lemma bfs_visit_new:
  assumes "bfs_scanning g from to c d seen (V, q, pred)" "w \<in> set (fg_succs g c)"
    and "w \<notin> V" "w \<noteq> to" "w \<in> dom (fg_nodes g)"
  shows "bfs_scanning g from to c (d(w := Suc (d c))) (seen @ [w]) (insert w V, q @ [w], pred(w \<mapsto> c))"
    (is "bfs_scanning _ _ _ _ ?d _ _")
proof -
  have t: "bfs_tree (fg_succs g) from d V pred" "to \<notin> V" "c \<in> V" "V \<subseteq> dom (fg_nodes g)"
      "bfs_frontier (fg_succs g) d (d c) V (insert c (set q))" "set seen \<subseteq> V"
      "sorted (map d q)" "\<forall>x \<in> set q. d c \<le> d x \<and> d x \<le> Suc (d c)"
    using assms(1) by (auto simp: bfs_scanning_def)
  have q: "set q \<subseteq> V" "w \<notin> set q" "w \<noteq> c"
    using t(3,5) assms(3) by (auto simp: bfs_frontier_def)
  have dq: "map ?d q = map d q"
    using q(2) by auto
  have "sorted (map ?d (q @ [w]))"
    using t(7,8) q(2) by (auto simp: sorted_append dq)
  moreover have "\<forall>x \<in> set (q @ [w]). ?d c \<le> ?d x \<and> ?d x \<le> Suc (?d c)"
    using t(8) q by auto
  moreover have "bfs_frontier (fg_succs g) ?d (?d c) (insert w V) (insert c (set (q @ [w])))"
    unfolding bfs_frontier_def
  proof (intro conjI ballI)
    fix u
    assume u: "u \<in> insert w V - insert c (set (q @ [w]))"
    then have "u \<in> V - insert c (set q)" "u \<noteq> w"
      by auto
    then have s: "set (fg_succs g u) \<subseteq> V" "\<forall>x \<in> set (fg_succs g u). d x \<le> Suc (d u)"
      using t(5) by (auto simp: bfs_frontier_def)
    then show "set (fg_succs g u) \<subseteq> insert w V" by blast
    fix x
    assume "x \<in> set (fg_succs g u)"
    with s \<open>u \<noteq> w\<close> assms(3) show "?d x \<le> Suc (?d u)"
      by auto
  next
    show "insert c (set (q @ [w])) \<subseteq> insert w V"
      using q(1) t(3) by auto
  next
    show "?d c \<le> ?d u" if "u \<in> insert c (set (q @ [w]))" for u
      using that t(8) q(3) by auto
  next
    show "?d v \<le> Suc (?d c)" if "v \<in> insert w V" for v
      using that t(5) q(3) by (auto simp: bfs_frontier_def)
  qed
  ultimately show ?thesis
    using t assms bfs_tree_add [OF t(1,3) assms(3,2)] by (auto simp: bfs_scanning_def)
qed

lemma bfs_scan_result:
  assumes "wf_graph g"
  shows "bfs_scanning g from to c d seen st \<Longrightarrow> fg_succs g c = seen @ ns \<Longrightarrow>
    (case bfs_scan to c ns st of
       Inl pred \<Rightarrow> bfs_found g from to pred
     | Inr st' \<Rightarrow> (\<exists>d'. bfs_scanning g from to c d' (fg_succs g c) st') \<and> bfs_work g st' = bfs_work g st)"
proof (induction to c ns st arbitrary: seen d rule: bfs_scan.induct)
  case (1 to c st)
  then show ?case by auto
next
  case (2 to c w ns V q pred)
  have c: "c \<in> dom (fg_nodes g)"
    using "2.prems"(1) by (auto simp: bfs_scanning_def)
  have w: "w \<in> set (fg_succs g c)" "w \<in> dom (fg_nodes g)"
    using "2.prems"(2) fg.succ_verts [OF assms c] by auto
  consider (old) "w \<in> V" | (found) "w \<notin> V" "w = to" | (new) "w \<notin> V" "w \<noteq> to"
    by blast
  then show ?case
  proof cases
    case old
    then have "bfs_scanning g from to c d (seen @ [w]) (V, q, pred)"
      using "2.prems"(1) by (auto simp: bfs_scanning_def)
    with old "2.IH"(1) [OF old, of d "seen @ [w]"] "2.prems"(2) show ?thesis
      by simp
  next
    case found
    with bfs_visit_found [OF "2.prems"(1)] w show ?thesis
      by simp
  next
    case new
    have "bfs_work g (insert w V, q @ [w], pred(w \<mapsto> c)) = bfs_work g (V, q, pred)"
    proof -
      have "dom (fg_nodes g) - V = insert w (dom (fg_nodes g) - insert w V)"
        using w(2) new(1) by blast
      then have "card (dom (fg_nodes g) - V) = Suc (card (dom (fg_nodes g) - insert w V))"
        using wf_graphD(1) [OF assms] by (metis Diff_iff card_insert_disjoint finite_Diff insertI1)
      then show ?thesis by (simp add: bfs_work_def)
    qed
    with new "2.IH"(2) [OF new(1) refl refl new(2) bfs_visit_new [OF "2.prems"(1) w(1) new w(2)]]
      "2.prems"(2) show ?thesis
      by (auto simp: Let_def split: sum.splits)
  qed
qed

lemma bfs_scanning_start:
  assumes "bfs_inv g from to d (V, c # q, pred)"
  shows "bfs_scanning g from to c d [] (V, q, pred)"
  using assms by (auto simp: bfs_inv_def bfs_scanning_def bfs_frontier_def)

lemma bfs_scanning_end:
  assumes "bfs_scanning g from to c d (fg_succs g c) (V, q, pred)"
  shows "bfs_inv g from to d (V, q, pred)"
proof -
  have t: "\<forall>x \<in> set q. d c \<le> d x \<and> d x \<le> Suc (d c)" "sorted (map d q)"
      "bfs_frontier (fg_succs g) d (d c) V (insert c (set q))" "set (fg_succs g c) \<subseteq> V"
    using assms by (auto simp: bfs_scanning_def)
  have done_c: "set (fg_succs g u) \<subseteq> V \<and> (\<forall>w \<in> set (fg_succs g u). d w \<le> Suc (d u))"
    if "u \<in> V - set q" for u
    using that t(3,4) by (cases "u = c") (auto simp: bfs_frontier_def)
  show ?thesis
  proof (cases q)
    case Nil
    with assms done_c show ?thesis
      by (auto simp: bfs_inv_def bfs_scanning_def)
  next
    case (Cons x q')
    have "d c \<le> d x" "\<forall>y \<in> set q. d x \<le> d y"
      using t(1,2) Cons by auto
    moreover have "\<forall>v \<in> V. d v \<le> Suc (d c)"
      using t(3) by (simp add: bfs_frontier_def)
    ultimately have "bfs_frontier (fg_succs g) d (d x) V (set q)"
      using t(3) done_c unfolding bfs_frontier_def by (metis Diff_iff insert_subset le_trans Suc_le_mono)
    moreover have "\<forall>y \<in> set q. d y \<le> Suc (d x)"
      using t(1) \<open>d c \<le> d x\<close> by fastforce
    ultimately show ?thesis
      using assms Cons by (auto simp: bfs_inv_def bfs_scanning_def)
  qed
qed

subsection \<open>The search is correct\<close>

text \<open>What a search from \<open>from\<close> for a node \<open>to\<close> must answer.\<close>

definition path_answer ::
    "('m, 'c, 'cfg) flow_graph \<Rightarrow> node_id \<Rightarrow> node_id \<Rightarrow> node_id list option \<Rightarrow> bool" where
  "path_answer g from to r \<longleftrightarrow>
     (case r of
        Some p \<Rightarrow> path_in (fg_succs g) p \<and> hd p = from \<and> last p = to \<and>
          (\<forall>q. path_in (fg_succs g) q \<longrightarrow> hd q = from \<longrightarrow> last q = to \<longrightarrow> length p \<le> length q)
      | None \<Rightarrow> \<not> reaches (fg_succs g) from to)"

lemma bfs_found_path:
  assumes "wf_graph g" "bfs_found g from to pred"
  shows "\<exists>p. reconstruct_path (Suc (fg_node_count g)) pred from to [to] = Ret p \<and>
    path_answer g from to (Some p)"
proof -
  from assms(2) obtain d V where
    t: "bfs_tree (fg_succs g) from d V pred" "V \<subseteq> dom (fg_nodes g)" "to \<in> V"
      "\<forall>p. path_in (fg_succs g) p \<longrightarrow> hd p = from \<longrightarrow> last p = to \<longrightarrow> d to < length p"
    by (auto simp: bfs_found_def)
  have fin: "finite (dom (fg_nodes g))"
    by (rule wf_graphD(1) [OF assms(1)])
  have "d to < card V"
    by (rule bfs_tree_depth [OF t(1) finite_subset [OF t(2) fin] t(3)])
  also have "card V \<le> fg_node_count g"
    unfolding fg_node_count_def by (rule card_mono [OF fin t(2)])
  finally have "d to < Suc (fg_node_count g)"
    by simp
  from reconstruct_path_tree [OF t(1,3) this, of "[]"] obtain p where
    p: "reconstruct_path (Suc (fg_node_count g)) pred from to [to] = Ret p"
      "path_in (fg_succs g) p" "hd p = from" "last p = to" "length p = Suc (d to)"
    by auto
  with t(4) show ?thesis
    by (auto simp: path_answer_def Suc_le_eq)
qed

lemma bfs_closed_unreachable:
  assumes "bfs_inv g from to d (V, [], pred)"
  shows "\<not> reaches (fg_succs g) from to"
  using assms reaches_closed [of "fg_succs g" "from" to V]
  by (auto simp: bfs_inv_def bfs_tree_def)

lemma bfs_loop_result:
  assumes "wf_graph g"
  shows "bfs_inv g from to d st \<Longrightarrow> bfs_work g st < n \<Longrightarrow>
    \<exists>r. bfs_loop n (Suc (fg_node_count g)) g from to st = Ret r \<and> path_answer g from to r"
proof (induction n arbitrary: st d)
  case 0
  then show ?case by simp
next
  case (Suc n)
  obtain V q pred where st: "st = (V, q, pred)"
    by (cases st)
  show ?case
  proof (cases q)
    case Nil
    with Suc.prems(1) st bfs_closed_unreachable [of g "from" to d V pred] show ?thesis
      by (simp add: path_answer_def)
  next
    case (Cons c q')
    have start: "bfs_scanning g from to c d [] (V, q', pred)"
      using Suc.prems(1) st Cons by (auto intro: bfs_scanning_start)
    have "c \<in> V" "V \<subseteq> dom (fg_nodes g)"
      using start by (simp_all add: bfs_scanning_def)
    then obtain ns where ns: "fg_adjacency g c = Some ns"
      using wf_graphD(2) [OF assms] by blast
    then have succs: "fg_succs g c = [] @ ns"
      by (simp add: fg_succs_def)
    show ?thesis
    proof (cases "bfs_scan to c ns (V, q', pred)")
      case (Inl pred')
      with bfs_scan_result [OF assms start succs] bfs_found_path [OF assms, of "from" to pred'] ns st Cons
      show ?thesis
        by (auto simp: outcome_simps)
    next
      case (Inr st')
      with bfs_scan_result [OF assms start succs] obtain d' where
        d': "bfs_scanning g from to c d' (fg_succs g c) st'" "bfs_work g st' = bfs_work g (V, q', pred)"
        by auto
      then have "bfs_inv g from to d' st'"
        by (cases st') (auto intro: bfs_scanning_end)
      moreover have "bfs_work g st' < n"
        using d'(2) Suc.prems(2) st Cons by (simp add: bfs_work_def)
      ultimately show ?thesis
        using Suc.IH Inr ns st Cons by simp
    qed
  qed
qed

lemma fg_find_path_result:
  assumes "wf_graph g" "from \<in> dom (fg_nodes g)" "to \<in> dom (fg_nodes g)"
  shows "\<exists>r. fg_find_path g from to = Ret r \<and> path_answer g from to r"
proof (cases "from = to")
  case True
  moreover have "1 \<le> length q" if "path_in (fg_succs g) q" for q
    using that by (cases q) (auto simp: path_in_def)
  ultimately show ?thesis
    using assms by (auto simp: fg_find_path_def path_answer_def)
next
  case False
  let ?st = "({from}, [from], Map.empty) :: bfs_state"
  have inv: "bfs_inv g from to (\<lambda>_. 0) ?st"
    using False assms(2) by (auto simp: bfs_inv_def bfs_tree_def bfs_frontier_def)
  have "bfs_work g ?st < Suc (fg_node_count g)"
    using card_Suc_Diff1 [OF wf_graphD(1) [OF assms(1)] assms(2)]
    by (simp add: bfs_work_def fg_node_count_def)
  from bfs_loop_result [OF assms(1) inv this] False assms(2,3) show ?thesis
    by (auto simp: fg_find_path_def Let_def)
qed

lemma fg_find_path_missing:
  "from \<notin> dom (fg_nodes g) \<or> to \<notin> dom (fg_nodes g) \<Longrightarrow> fg_find_path g from to = Ret None"
  by (auto simp: fg_find_path_def)

lemma fg_find_path_reaches:
  assumes "wf_graph g" "from \<in> dom (fg_nodes g)" "to \<in> dom (fg_nodes g)"
  shows "(\<exists>p. fg_find_path g from to = Ret (Some p)) \<longleftrightarrow> reaches (fg_succs g) from to"
proof -
  from fg_find_path_result [OF assms] obtain r where
    r: "fg_find_path g from to = Ret r" "path_answer g from to r"
    by blast
  then show ?thesis
    by (cases r) (auto simp: path_answer_def reaches_def)
qed

subsection \<open>Properties\<close>

text \<open>
  C13. Path finding is exact and always ends: on any graph the operations build, asking for a path
  between two nodes returns a shortest one, or nothing exactly when the target cannot be reached
  or one of the nodes is absent.
\<close>

theorem find_path_shortest:
  assumes "wf_graph g"
  shows "\<exists>r. fg_find_path g a b = Ret r \<and>
    (case r of
       Some p \<Rightarrow> path_in (fg_succs g) p \<and> hd p = a \<and> last p = b \<and> set p \<subseteq> dom (fg_nodes g) \<and>
         (\<nexists>q. path_in (fg_succs g) q \<and> hd q = a \<and> last q = b \<and> length q < length p)
     | None \<Rightarrow> a \<notin> dom (fg_nodes g) \<or> b \<notin> dom (fg_nodes g) \<or> \<not> reaches (fg_succs g) a b)"
proof (cases "a \<in> dom (fg_nodes g) \<and> b \<in> dom (fg_nodes g)")
  case True
  then obtain r where r: "fg_find_path g a b = Ret r" "path_answer g a b r"
    using fg_find_path_result [OF assms] by blast
  have "set p \<subseteq> dom (fg_nodes g)" if "r = Some p" for p
    using r(2) that True fg.path_verts [OF assms, of p] by (simp add: path_answer_def)
  with r show ?thesis
    by (cases r) (auto simp: path_answer_def not_less)
next
  case False
  then show ?thesis
    using fg_find_path_missing [of a g b] by auto
qed

end
