(* ===== verification/Graph_Validate.thy ===== *)
theory Graph_Validate
  imports Graph_Search
begin

text \<open>
  Validation of a flow graph (\<open>validate\<close> of \<open>crates/nyarix-graph/src/graph.rs\<close>). The hash map of
  nodes is iterated in the order \<open>ks\<close>.
\<close>

fun any_path :: "('m, 'c, 'cfg) flow_graph \<Rightarrow> node_id \<Rightarrow> node_id list \<Rightarrow> bool outcome" where
  "any_path g entry [] = Ret False"
| "any_path g entry (ex # exits) =
     obind (fg_find_path g entry ex) (\<lambda>r. if r \<noteq> None then Ret True else any_path g entry exits)"

fun validate_entries ::
    "('v, 'm, 'ctx, 'c, 'f) ext \<Rightarrow> ('m, 'c, 'cfg) flow_graph \<Rightarrow> node_id list \<Rightarrow>
     (graph_error + unit) outcome" where
  "validate_entries X g [] = Ret (Inr ())"
| "validate_entries X g (entry # rest) =
     obind (any_path g entry (fg_exit_points g)) (\<lambda>reaches_an_exit.
       if \<not> reaches_an_exit
       then Ret (Inl (BuildFailed (''entry point '' @ node_id_str X entry @ '' cannot reach any exit point'')))
       else validate_entries X g rest)"

fun validate_orphans ::
    "('v, 'm, 'ctx, 'c, 'f) ext \<Rightarrow> ('m, 'c, 'cfg) flow_graph \<Rightarrow> node_id list \<Rightarrow> graph_error + unit" where
  "validate_orphans X g [] = Inr ()"
| "validate_orphans X g (i # rest) =
     (if i \<in> set (fg_entry_points g) \<or> i \<in> set (fg_exit_points g) then validate_orphans X g rest
      else let has_incoming = list_ex (\<lambda>e. ed_to e = i) (fg_edges g);
               has_outgoing = (case fg_adjacency g i of None \<Rightarrow> False | Some out \<Rightarrow> out \<noteq> [])
           in if \<not> has_incoming \<and> \<not> has_outgoing
              then Inl (BuildFailed (''node '' @ quot @ fg_node_label X g i @ quot @ '' ('' @
                     node_id_str X i @ '') is orphaned: no incoming or outgoing edges''))
              else validate_orphans X g rest)"

definition fg_validate ::
    "('v, 'm, 'ctx, 'c, 'f) ext \<Rightarrow> node_id list \<Rightarrow> ('m, 'c, 'cfg) flow_graph \<Rightarrow>
     (graph_error + unit) outcome" where
  "fg_validate X ks g =
     obind (fg_detect_cycle ks g) (\<lambda>found.
       case found of
         Some cycle \<Rightarrow> Ret (Inl (Cycle (fg_describe_cycle X cycle g)))
       | None \<Rightarrow>
           obind (validate_entries X g (fg_entry_points g)) (\<lambda>r.
             case r of Inl e \<Rightarrow> Ret (Inl e) | Inr _ \<Rightarrow> Ret (validate_orphans X g ks)))"

subsection \<open>What a valid graph is\<close>

definition entries_reach_exit :: "('m, 'c, 'cfg) flow_graph \<Rightarrow> bool" where
  "entries_reach_exit g \<longleftrightarrow>
     (\<forall>i \<in> set (fg_entry_points g). \<exists>x \<in> set (fg_exit_points g).
        i \<in> dom (fg_nodes g) \<and> x \<in> dom (fg_nodes g) \<and> reaches (fg_succs g) i x)"

definition no_orphans :: "('m, 'c, 'cfg) flow_graph \<Rightarrow> bool" where
  "no_orphans g \<longleftrightarrow>
     (\<forall>i \<in> dom (fg_nodes g). i \<in> set (fg_entry_points g) \<or> i \<in> set (fg_exit_points g) \<or>
        (\<exists>e \<in> set (fg_edges g). ed_from e = i \<or> ed_to e = i))"

definition valid_graph :: "('m, 'c, 'cfg) flow_graph \<Rightarrow> bool" where
  "valid_graph g \<longleftrightarrow> (\<nexists>c. is_cycle (fg_live g) c) \<and> entries_reach_exit g \<and> no_orphans g"

lemma fg_find_path_Some_iff:
  assumes "wf_graph g"
  shows "\<exists>r. fg_find_path g i x = Ret r \<and>
    (r \<noteq> None \<longleftrightarrow> i \<in> dom (fg_nodes g) \<and> x \<in> dom (fg_nodes g) \<and> reaches (fg_succs g) i x)"
proof (cases "i \<in> dom (fg_nodes g) \<and> x \<in> dom (fg_nodes g)")
  case True
  then show ?thesis
    using fg_find_path_result [OF assms, of i x] fg_find_path_reaches [OF assms, of i x] by auto
next
  case False
  then show ?thesis
    using fg_find_path_missing [of i g x] by auto
qed

lemma any_path_result:
  assumes "wf_graph g"
  shows "any_path g i xs = Ret (\<exists>x \<in> set xs.
    i \<in> dom (fg_nodes g) \<and> x \<in> dom (fg_nodes g) \<and> reaches (fg_succs g) i x)"
proof (induction xs)
  case Nil
  then show ?case by simp
next
  case (Cons x xs)
  from fg_find_path_Some_iff [OF assms, of i x] obtain r where
    "fg_find_path g i x = Ret r"
    "r \<noteq> None \<longleftrightarrow> i \<in> dom (fg_nodes g) \<and> x \<in> dom (fg_nodes g) \<and> reaches (fg_succs g) i x"
    by blast
  with Cons show ?case
    by (cases r) (auto simp: outcome_simps)
qed

lemma validate_entries_result:
  assumes "wf_graph g"
  shows "\<exists>r. validate_entries X g is = Ret r \<and>
    (r = Inr () \<longleftrightarrow> (\<forall>i \<in> set is. \<exists>x \<in> set (fg_exit_points g).
        i \<in> dom (fg_nodes g) \<and> x \<in> dom (fg_nodes g) \<and> reaches (fg_succs g) i x))"
  by (induction "is") (auto simp: any_path_result [OF assms] outcome_simps)

lemma validate_orphans_result:
  assumes "wf_graph g" "set ks \<subseteq> dom (fg_nodes g)"
  shows "validate_orphans X g ks = Inr () \<longleftrightarrow>
    (\<forall>i \<in> set ks. i \<in> set (fg_entry_points g) \<or> i \<in> set (fg_exit_points g) \<or>
        (\<exists>e \<in> set (fg_edges g). ed_from e = i \<or> ed_to e = i))"
  using assms(2)
proof (induction ks)
  case Nil
  then show ?case by simp
next
  case (Cons i ks)
  have out: "(case fg_adjacency g i of None \<Rightarrow> False | Some out \<Rightarrow> out \<noteq> []) \<longleftrightarrow>
      (\<exists>e \<in> set (fg_edges g). ed_from e = i)"
    using wf_adjacency [OF assms(1), of i] Cons.prems
    by (auto simp: edge_targets_def filter_empty_conv)
  have inc: "list_ex (\<lambda>e. ed_to e = i) (fg_edges g) \<longleftrightarrow> (\<exists>e \<in> set (fg_edges g). ed_to e = i)"
    by (simp add: list_ex_iff)
  show ?case
    unfolding validate_orphans.simps Let_def out inc using Cons by auto
qed

lemma fg_validate_result:
  assumes "wf_graph g" "is_order ks (fg_nodes g)"
  shows "\<exists>r. fg_validate X ks g = Ret r \<and> (r = Inr () \<longleftrightarrow> valid_graph g)"
proof -
  from fg_detect_cycle_result [OF assms] obtain c where
    c: "fg_detect_cycle ks g = Ret c"
      "case c of Some c \<Rightarrow> is_cycle (fg_live g) c \<and> set c \<subseteq> dom (fg_nodes g)
        | None \<Rightarrow> \<nexists>c. is_cycle (fg_live g) c"
    by blast
  from validate_entries_result [OF assms(1), of X "fg_entry_points g"] obtain r where
    r: "validate_entries X g (fg_entry_points g) = Ret r" "r = Inr () \<longleftrightarrow> entries_reach_exit g"
    unfolding entries_reach_exit_def by blast
  have orphans: "validate_orphans X g ks = Inr () \<longleftrightarrow> no_orphans g"
    using validate_orphans_result [OF assms(1), of ks X] assms(2) by (simp add: no_orphans_def)
  show ?thesis
  proof (cases c)
    case (Some cyc)
    with c show ?thesis
      by (auto simp: fg_validate_def valid_graph_def outcome_simps)
  next
    case None
    with c r orphans show ?thesis
      by (cases r) (auto simp: fg_validate_def valid_graph_def outcome_simps)
  qed
qed

lemma fg_validate_cycle:
  assumes "wf_graph g" "is_order ks (fg_nodes g)"
  shows "(\<exists>c. fg_validate X ks g = Ret (Inl (Cycle c))) \<longleftrightarrow> (\<exists>c. is_cycle (fg_live g) c)"
proof -
  from fg_detect_cycle_result [OF assms] obtain c where
    c: "fg_detect_cycle ks g = Ret c"
      "case c of Some c \<Rightarrow> is_cycle (fg_live g) c \<and> set c \<subseteq> dom (fg_nodes g)
        | None \<Rightarrow> \<nexists>c. is_cycle (fg_live g) c"
    by blast
  have "validate_orphans X g js \<noteq> Inl (Cycle s)" for js s
    by (induction js) (auto simp: Let_def)
  moreover have "validate_entries X g is \<noteq> Ret (Inl (Cycle s))" for "is" s
    by (induction "is") (auto simp: any_path_result [OF assms(1)] outcome_simps)
  ultimately show ?thesis
    using c by (cases c) (auto simp: fg_validate_def obind_eq_Ret outcome_simps split: sum.splits)
qed

text \<open>
  C11. Validation decides what it promises: it ends, and succeeds exactly when there is no cycle
  outside the feedback edges, every entry point reaches an exit point, and no node is isolated;
  and it reports a cycle exactly when there is one.
\<close>

theorem validate_decides:
  assumes "wf_graph g" "is_order ks (fg_nodes g)"
  shows "\<exists>r. fg_validate X ks g = Ret r \<and> (r = Inr ()) = valid_graph g \<and>
    (\<exists>c. r = Inl (Cycle c)) = (\<exists>c. is_cycle (fg_live g) c)"
  using fg_validate_result [OF assms, of X] fg_validate_cycle [OF assms, of X] by auto

end
