(* ===== verification/Graph_Edit.thy ===== *)
theory Graph_Edit
  imports Graph_Validate
begin

text \<open>
  Edits of a flow graph in use (\<open>insert_after\<close>, \<open>remove_and_reconnect\<close>, \<open>swap_node\<close>, \<open>diff\<close> of
  \<open>crates/nyarix-graph/src/graph.rs\<close>). The edges they create are made with \<open>Edge::new\<close>, whose
  receiver they let go at the end of the call.
\<close>

subsection \<open>Inserting a node after another\<close>

definition outgoing_indices :: "node_id \<Rightarrow> 'c edge list \<Rightarrow> nat list" where
  "outgoing_indices i es = map fst (filter (\<lambda>(_, e). ed_from e = i) (enumerate 0 es))"

definition fg_insert_after ::
    "('v, 'm, 'ctx, 'c, 'f) ext \<Rightarrow> node_id \<Rightarrow> ('m, 'c, 'cfg) graph_node \<Rightarrow> ('m, 'c, 'cfg) flow_graph \<Rightarrow>
     ((graph_error + unit) \<times> ('m, 'c, 'cfg) flow_graph) outcome" where
  "fg_insert_after X after_id new_node g =
     (if fg_nodes g after_id = None then Ret (Inl (MissingNode (node_id_str X after_id)), g)
      else let outgoing = outgoing_indices after_id (fg_edges g)
      in if 1 < length outgoing
         then Ret (Inl (BuildFailed (''node '' @ node_id_str X after_id @ '' has '' @
                show_nat (length outgoing) @ '' outgoing edges; insert_after is ambiguous here'')), g)
         else let new_id = gn_id new_node;
                  capacity = nc_queue_capacity (gn_config new_node);
                  g1 = fg_add_node new_node g
         in case outgoing of
              index # _ \<Rightarrow>
                (let old_edge = fg_edges g1 ! index;
                     g2 = g1\<lparr>fg_edges := vec_remove index (fg_edges g1)\<rparr>;
                     g3 = g2\<lparr>fg_adjacency := adj_remove_first after_id (ed_to old_edge) (fg_adjacency g2)\<rparr>
                 in obind (edge_new_unread (x_mpsc X) after_id new_id (ed_type old_edge)
                             (ed_condition old_edge) capacity) (\<lambda>splice_in.
                    obind (edge_new_unread (x_mpsc X) new_id (ed_to old_edge) Sequential None capacity)
                      (\<lambda>splice_out.
                      case fg_connect X splice_in g3 of
                        (Inl e, g4) \<Rightarrow> Ret (Inl e, g4)
                      | (Inr _, g4) \<Rightarrow> Ret (fg_connect X splice_out g4))))
            | [] \<Rightarrow>
                obind (edge_new_unread (x_mpsc X) after_id new_id Sequential None capacity) (\<lambda>e.
                  Ret (fg_connect X e g1)))"

subsection \<open>Removing a node and bridging the gap\<close>

fun connect_pairs ::
    "('v, 'm, 'ctx, 'c, 'f) ext \<Rightarrow> usize \<Rightarrow> (node_id \<times> node_id) list \<Rightarrow> ('m, 'c, 'cfg) flow_graph \<Rightarrow>
     ((graph_error + unit) \<times> ('m, 'c, 'cfg) flow_graph) outcome" where
  "connect_pairs X capacity [] g = Ret (Inr (), g)"
| "connect_pairs X capacity ((p, s) # ps) g =
     obind (edge_new_unread (x_mpsc X) p s Sequential None capacity) (\<lambda>e.
       case fg_connect X e g of
         (Inl err, g') \<Rightarrow> Ret (Inl err, g')
       | (Inr _, g') \<Rightarrow> connect_pairs X capacity ps g')"

definition fg_remove_and_reconnect ::
    "('v, 'm, 'ctx, 'c, 'f) ext \<Rightarrow> node_id \<Rightarrow> ('m, 'c, 'cfg) flow_graph \<Rightarrow>
     ((graph_error + ('m, 'c, 'cfg) graph_node) \<times> ('m, 'c, 'cfg) flow_graph) outcome" where
  "fg_remove_and_reconnect X i g =
     (if fg_nodes g i = None then Ret (Inl (MissingNode (node_id_str X i)), g)
      else let predecessors = map ed_from (filter (\<lambda>e. ed_to e = i) (fg_edges g));
               successors = map ed_to (filter (\<lambda>e. ed_from e = i) (fg_edges g))
      in if 1 < length predecessors \<and> 1 < length successors
         then Ret (Inl (BuildFailed (''node '' @ node_id_str X i @ '' has '' @
                show_nat (length predecessors) @ '' predecessors and '' @
                show_nat (length successors) @ '' successors; '' @
                ''remove_and_reconnect only supports 1-to-many or many-to-1'')), g)
         else let capacity = (case fg_nodes g i of
                                None \<Rightarrow> DEFAULT_QUEUE_CAPACITY
                              | Some node \<Rightarrow> nc_queue_capacity (gn_config node))
         in case fg_remove_node i g of
              (None, g1) \<Rightarrow> Ret (Inl (MissingNode (node_id_str X i)), g1)
            | (Some removed, g1) \<Rightarrow>
                obind (connect_pairs X capacity (List.product predecessors successors) g1) (\<lambda>(r, g2).
                  case r of Inl e \<Rightarrow> Ret (Inl e, g2) | Inr _ \<Rightarrow> Ret (Inr removed, g2)))"

subsection \<open>Swapping a module\<close>

record ('m, 'c, 'cfg) swap_outcome =
  so_replaced :: "('m, 'c, 'cfg) graph_node"
  so_migrate_result :: "module_error + unit"

definition fg_swap_node ::
    "('v, 'm, 'ctx, 'c, 'f) ext \<Rightarrow> node_id \<Rightarrow> 'm arc \<Rightarrow> 'ctx \<Rightarrow> ('m, 'c, 'cfg) flow_graph \<Rightarrow>
     ((graph_error + ('m, 'c, 'cfg) swap_outcome) \<times> ('m, 'c, 'cfg) flow_graph \<times> 'ctx) outcome" where
  "fg_swap_node X i new_module ctx g =
     (case fg_nodes g i of
        None \<Rightarrow> Ret (Inl (MissingNode (node_id_str X i)), g, ctx)
      | Some old_node \<Rightarrow>
          (case gn_migrate X ctx old_node of (migrated, old_node, ctx) \<Rightarrow>
             obind migrated (\<lambda>migrate_result.
             obind (graph_node_new X i new_module (gn_config old_node)) (\<lambda>new_node.
               Ret (Inr \<lparr>so_replaced = old_node, so_migrate_result = migrate_result\<rparr>,
                    g\<lparr>fg_nodes := (fg_nodes g)(i \<mapsto> new_node)\<rparr>, ctx)))))"

subsection \<open>The difference of two graphs\<close>

text \<open>
  The code collects each field from a hash set, in an order of no meaning and without
  repetition: the fields are sets.
\<close>

record graph_diff =
  gd_added_nodes :: "node_id set"
  gd_removed_nodes :: "node_id set"
  gd_changed_nodes :: "node_id set"
  gd_added_edges :: "(node_id \<times> node_id \<times> edge_type) set"
  gd_removed_edges :: "(node_id \<times> node_id \<times> edge_type) set"

definition edge_keys :: "('m, 'c, 'cfg) flow_graph \<Rightarrow> (node_id \<times> node_id \<times> edge_type) set" where
  "edge_keys g = (\<lambda>e. (ed_from e, ed_to e, ed_type e)) ` set (fg_edges g)"

definition fg_diff :: "('m, 'c, 'cfg) flow_graph \<Rightarrow> ('m, 'c, 'cfg) flow_graph \<Rightarrow> graph_diff" where
  "fg_diff g other =
     (let old_ids = dom (fg_nodes g); new_ids = dom (fg_nodes other)
      in \<lparr>gd_added_nodes = new_ids - old_ids,
          gd_removed_nodes = old_ids - new_ids,
          gd_changed_nodes = {i \<in> old_ids \<inter> new_ids.
             \<not> arc_ptr_eq (gn_module (the (fg_nodes g i))) (gn_module (the (fg_nodes other i)))},
          gd_added_edges = edge_keys other - edge_keys g,
          gd_removed_edges = edge_keys g - edge_keys other\<rparr>)"

subsection \<open>Every edit keeps the invariant\<close>

lemma outgoing_indices_Cons:
  assumes "outgoing_indices a es = k # ks"
  shows "k < length es \<and> ed_from (es ! k) = a"
proof -
  have "k \<in> set (outgoing_indices a es)"
    using assms by simp
  then show ?thesis
    by (auto simp: outgoing_indices_def in_set_enumerate_eq)
qed

lemma outgoing_indices_length: "length (outgoing_indices a es) = length (edge_targets a es)"
proof -
  have "length (filter (\<lambda>(_, e). ed_from e = a) (enumerate n es)) = length (filter (\<lambda>e. ed_from e = a) es)" for n
    by (induction es arbitrary: n) simp_all
  then show ?thesis
    by (simp add: outgoing_indices_def edge_targets_def)
qed

lemma outgoing_single:
  assumes "outgoing_indices a es = [k]"
  obtains ys zs where "es = ys @ es ! k # zs" "length ys = k" "ed_from (es ! k) = a"
    "\<forall>e \<in> set ys \<union> set zs. ed_from e \<noteq> a"
proof -
  have k: "k < length es" "ed_from (es ! k) = a"
    using outgoing_indices_Cons [OF assms] by auto
  let ?ys = "take k es" and ?zs = "drop (Suc k) es"
  have split: "es = ?ys @ es ! k # ?zs"
    by (rule id_take_nth_drop [OF k(1)])
  have "edge_targets a es = edge_targets a (?ys @ es ! k # ?zs)"
    using split by simp
  also have "\<dots> = edge_targets a ?ys @ ed_to (es ! k) # edge_targets a ?zs"
    using k(2) by (simp add: edge_targets_def)
  finally have "length (edge_targets a ?ys) + length (edge_targets a ?zs) = 0"
    using outgoing_indices_length [of a es] assms by simp
  then have "\<forall>e \<in> set ?ys \<union> set ?zs. ed_from e \<noteq> a"
    by (auto simp: edge_targets_def filter_empty_conv)
  with that [OF split _ k(2)] k(1) show thesis by simp
qed

text \<open>What routing sees of an edge.\<close>

definition edge_route :: "'c edge \<Rightarrow> node_id \<times> node_id \<times> edge_type \<times> condition option" where
  "edge_route e = (ed_from e, ed_to e, ed_type e, ed_condition e)"

definition spliced_routes ::
    "node_id \<Rightarrow> node_id \<Rightarrow> 'c edge list \<Rightarrow> (node_id \<times> node_id \<times> edge_type \<times> condition option) list" where
  "spliced_routes a i es =
     (case filter (\<lambda>e. ed_from e = a) es of
        [] \<Rightarrow> [(a, i, Sequential, None)]
      | old # _ \<Rightarrow> [(a, i, ed_type old, ed_condition old), (i, ed_to old, Sequential, None)])"

lemma edge_targets_route:
  "edge_targets n es = map (\<lambda>(_, t, _). t) (filter (\<lambda>(f, _). f = n) (map edge_route es))"
  by (induction es) (simp_all add: edge_targets_def edge_route_def)

lemma edge_new_unread_route:
  "edge_new_unread C a b ty cond n = Ret e \<Longrightarrow> edge_route e = (a, b, ty, cond)"
  by (auto simp: edge_route_def dest!: edge_new_unread_fields)

lemma edge_new_unread_ends:
  "edge_new_unread C a b ty cond n = Ret e \<Longrightarrow> ed_from e = a"
  "edge_new_unread C a b ty cond n = Ret e \<Longrightarrow> ed_to e = b"
  by (auto dest!: edge_new_unread_fields)

lemma insert_after_empty:
  assumes "wf_graph g" "a \<in> dom (fg_nodes g)" "outgoing_indices a (fg_edges g) = []"
    and "fg_insert_after X a new g = Ret (r, g')"
  shows "r = Inr () \<and> wf_graph g' \<and> fg_nodes g' = (fg_nodes g)(gn_id new \<mapsto> new) \<and>
    map edge_route (fg_edges g') =
      map edge_route (filter (\<lambda>e. ed_from e \<noteq> a) (fg_edges g)) @ spliced_routes a (gn_id new) (fg_edges g)"
proof -
  let ?g1 = "fg_add_node new g"
  have wf1: "wf_graph ?g1"
    by (rule fg_add_node_wf [OF assms(1)])
  from assms(2-4) obtain e where
    e: "edge_new_unread (x_mpsc X) a (gn_id new) Sequential None (nc_queue_capacity (gn_config new)) = Ret e"
      "fg_connect X e ?g1 = (r, g')"
    by (auto simp: fg_insert_after_def Let_def obind_eq_Ret)
  have ends: "ed_from e \<in> dom (fg_nodes ?g1)" "ed_to e \<in> dom (fg_nodes ?g1)"
    using assms(2) edge_new_unread_ends [OF e(1)] by (auto simp: fg_add_node_fields)
  have none: "edge_targets a (fg_edges g) = []"
    using outgoing_indices_length [of a "fg_edges g"] assms(3) by simp
  have keep: "filter (\<lambda>e. ed_from e = a) (fg_edges g) = []" "filter (\<lambda>e. ed_from e \<noteq> a) (fg_edges g) = fg_edges g"
    using none by (auto simp: edge_targets_def filter_id_conv filter_empty_conv)
  have g': "r = Inr ()" "g' = set_edges (ed_from e) (fg_edges ?g1 @ [e]) ?g1"
    using fg_connect_ok [OF wf1 ends, of X] e(2) by auto
  moreover have "wf_graph g'"
    using fg_connect_wf [OF wf1, of X e] e(2) by simp
  ultimately show ?thesis
    using keep edge_new_unread_route [OF e(1)]
    by (simp add: fg_add_node_fields spliced_routes_def)
qed

lemma insert_after_single:
  assumes "wf_graph g" "a \<in> dom (fg_nodes g)" "outgoing_indices a (fg_edges g) = [k]"
    and "fg_insert_after X a new g = Ret (r, g')"
  shows "r = Inr () \<and> wf_graph g' \<and> fg_nodes g' = (fg_nodes g)(gn_id new \<mapsto> new) \<and>
    map edge_route (fg_edges g') =
      map edge_route (filter (\<lambda>e. ed_from e \<noteq> a) (fg_edges g)) @ spliced_routes a (gn_id new) (fg_edges g)"
proof -
  let ?g1 = "fg_add_node new g"
  define old where "old = fg_edges g ! k"
  have wf1: "wf_graph ?g1"
    by (rule fg_add_node_wf [OF assms(1)])
  from outgoing_single [OF assms(3)] obtain ys zs where
    s: "fg_edges g = ys @ old # zs" "length ys = k" "ed_from old = a"
      "\<forall>e \<in> set ys \<union> set zs. ed_from e \<noteq> a"
    unfolding old_def by metis
  have parts: "filter (\<lambda>e. ed_from e = a) (fg_edges g) = [old]"
      "filter (\<lambda>e. ed_from e \<noteq> a) (fg_edges g) = ys @ zs" "vec_remove k (fg_edges g) = ys @ zs"
    using s by (auto simp: filter_empty_conv filter_id_conv)
  have targets: "edge_targets a (fg_edges g) = [ed_to old]" "edge_targets a (ys @ zs) = []"
    using s(4) by (auto simp: edge_targets_def parts(1) filter_empty_conv)
  have adj: "adj_remove_first a (ed_to old) (fg_adjacency ?g1) = (fg_adjacency ?g1)(a \<mapsto> [])"
    using wf_adjacency [OF wf1, of a] assms(2) targets(1)
    by (simp add: adj_remove_first_def fg_add_node_fields vec_remove_def)
  let ?g3 = "set_edges a (ys @ zs) ?g1"
  have g3: "?g1\<lparr>fg_edges := ys @ zs, fg_adjacency := (fg_adjacency ?g1)(a \<mapsto> [])\<rparr> = ?g3"
    by (simp add: set_edges_def targets(2) del: edge_targets_append)
  have sub: "e \<in> set (fg_edges g)" if "e \<in> set (ys @ zs)" for e
    using that s(1) by auto
  have wf3: "wf_graph ?g3"
  proof (rule set_edges_wf [OF wf1])
    show "a \<in> dom (fg_nodes ?g1)"
      using assms(2) by (simp add: fg_add_node_fields)
    show "ed_from e \<in> dom (fg_nodes ?g1) \<and> ed_to e \<in> dom (fg_nodes ?g1)" if "e \<in> set (ys @ zs)" for e
      using sub [OF that] wf_graphD(4,5) [OF wf1, of e] by (simp add: fg_add_node_fields)
    show "edge_targets i (ys @ zs) = edge_targets i (fg_edges ?g1)" if "i \<noteq> a" for i
      using that s(3) by (simp add: fg_add_node_fields(2) s(1) edge_targets_def)
  qed
  from assms(2-4) obtain e1 e2 where
    e1: "edge_new_unread (x_mpsc X) a (gn_id new) (ed_type old) (ed_condition old)
        (nc_queue_capacity (gn_config new)) = Ret e1"
    and e2: "edge_new_unread (x_mpsc X) (gn_id new) (ed_to old) Sequential None
        (nc_queue_capacity (gn_config new)) = Ret e2"
    and res: "(case fg_connect X e1 ?g3 of
        (Inl e, g4) \<Rightarrow> Ret (Inl e, g4) | (Inr _, g4) \<Rightarrow> Ret (fg_connect X e2 g4)) = Ret (r, g')"
    by (auto simp: fg_insert_after_def Let_def obind_eq_Ret fg_add_node_fields(2) parts(3) adj
        old_def [symmetric] g3)
  have "old \<in> set (fg_edges g)"
    using s(1) by simp
  then have old_to: "ed_to old \<in> dom (fg_nodes ?g1)"
    using wf_graphD(5) [OF assms(1)] by (auto simp: fg_add_node_fields)
  have ends1: "ed_from e1 \<in> dom (fg_nodes ?g3)" "ed_to e1 \<in> dom (fg_nodes ?g3)"
    using edge_new_unread_ends [OF e1] assms(2) by (auto simp: fg_add_node_fields)
  let ?g4 = "set_edges a (ys @ zs @ [e1]) ?g3"
  have c1: "fg_connect X e1 ?g3 = (Inr (), ?g4)"
    using fg_connect_ok [OF wf3 ends1, of X] edge_new_unread_ends [OF e1] by simp
  have wf4: "wf_graph ?g4"
    using fg_connect_wf [OF wf3, of X e1] c1 by simp
  have ends2: "ed_from e2 \<in> dom (fg_nodes ?g4)" "ed_to e2 \<in> dom (fg_nodes ?g4)"
    using edge_new_unread_ends [OF e2] old_to by (auto simp: fg_add_node_fields)
  have c2: "fg_connect X e2 ?g4 = (Inr (), set_edges (gn_id new) (ys @ zs @ [e1, e2]) ?g4)"
    using fg_connect_ok [OF wf4 ends2, of X] edge_new_unread_ends [OF e2] by simp
  have g': "r = Inr ()" "g' = set_edges (gn_id new) (ys @ zs @ [e1, e2]) ?g4"
    using res c1 c2 by auto
  moreover have "wf_graph g'"
    using fg_connect_wf [OF wf4, of X e2] c2 g'(2) by simp
  ultimately show ?thesis
    using edge_new_unread_route [OF e1] edge_new_unread_route [OF e2]
    by (simp add: fg_add_node_fields spliced_routes_def parts)
qed

lemma fg_insert_after_result:
  assumes "wf_graph g" "fg_insert_after X a new g = Ret (r, g')"
  shows "wf_graph g' \<and>
    (case r of
       Inl _ \<Rightarrow> g' = g \<and> (a \<notin> dom (fg_nodes g) \<or> 1 < length (fg_succs g a))
     | Inr _ \<Rightarrow> a \<in> dom (fg_nodes g) \<and> length (fg_succs g a) \<le> 1 \<and>
         fg_nodes g' = (fg_nodes g)(gn_id new \<mapsto> new) \<and>
         map edge_route (fg_edges g') =
           map edge_route (filter (\<lambda>e. ed_from e \<noteq> a) (fg_edges g)) @
           spliced_routes a (gn_id new) (fg_edges g))"
proof (cases "a \<in> dom (fg_nodes g) \<and> \<not> 1 < length (outgoing_indices a (fg_edges g))")
  case False
  then show ?thesis
    using assms by (auto simp: fg_insert_after_def Let_def fg_succs_wf outgoing_indices_length
        split: if_splits)
next
  case True
  then have a: "a \<in> dom (fg_nodes g)" "length (fg_succs g a) \<le> 1"
    using outgoing_indices_length [of a "fg_edges g"] by (auto simp: fg_succs_wf [OF assms(1)])
  show ?thesis
  proof (cases "outgoing_indices a (fg_edges g)")
    case Nil
    from insert_after_empty [OF assms(1) a(1) Nil assms(2)] a show ?thesis
      by simp
  next
    case (Cons k ks)
    then have "outgoing_indices a (fg_edges g) = [k]"
      using True by simp
    from insert_after_single [OF assms(1) a(1) this assms(2)] a show ?thesis
      by simp
  qed
qed

lemma fg_succs_dom:
  assumes "wf_graph g" "y \<in> set (fg_succs g x)"
  shows "x \<in> dom (fg_nodes g)" "y \<in> dom (fg_nodes g)"
proof -
  from assms obtain e where "e \<in> set (fg_edges g)" "ed_from e = x" "ed_to e = y"
    by (auto simp: fg_succs_edge)
  then show "x \<in> dom (fg_nodes g)" "y \<in> dom (fg_nodes g)"
    using wf_graphD(4,5) [OF assms(1)] by blast+
qed

text \<open>The successors after an insertion of a node that was not in the graph.\<close>

lemma spliced_targets:
  "map (\<lambda>(_, t, _). t) (filter (\<lambda>(f, _). f = n) (spliced_routes a i es)) =
   (if length (edge_targets a es) \<le> 1
    then (if n = a then [i] else []) @ (if n = i then edge_targets a es else [])
    else (if n = a then [i] else []) @ (if n = i then [hd (edge_targets a es)] else []))"
proof (cases "filter (\<lambda>e. ed_from e = a) es")
  case Nil
  then show ?thesis by (simp add: spliced_routes_def edge_targets_def)
next
  case (Cons old rest)
  then show ?thesis by (cases rest) (simp_all add: spliced_routes_def edge_targets_def)
qed

lemma insert_after_succs:
  assumes "wf_graph g" "fg_insert_after X a new g = Ret (Inr (), g')" "gn_id new \<notin> dom (fg_nodes g)"
  shows "fg_succs g' n =
    (if n = a then [gn_id new] else if n = gn_id new then fg_succs g a else fg_succs g n)"
proof -
  from fg_insert_after_result [OF assms(1,2)] have
    g': "wf_graph g'" "a \<in> dom (fg_nodes g)" "length (edge_targets a (fg_edges g)) \<le> 1"
      "map edge_route (fg_edges g') =
        map edge_route (filter (\<lambda>e. ed_from e \<noteq> a) (fg_edges g)) @ spliced_routes a (gn_id new) (fg_edges g)"
    by (auto simp: fg_succs_wf [OF assms(1)])
  have "edge_targets n (filter (\<lambda>e. ed_from e \<noteq> a) (fg_edges g)) =
      (if n = a then [] else edge_targets n (fg_edges g))"
    by (auto simp: edge_targets_def filter_empty_conv intro!: arg_cong [where f = "map ed_to"] filter_cong)
  moreover have "edge_targets (gn_id new) (fg_edges g) = []"
    by (rule edge_targets_fresh [OF assms(1,3)])
  moreover have "gn_id new \<noteq> a"
    using g'(2) assms(3) by auto
  moreover have "edge_targets n (fg_edges g') =
      edge_targets n (filter (\<lambda>e. ed_from e \<noteq> a) (fg_edges g)) @
      map (\<lambda>(_, t, _). t) (filter (\<lambda>(f, _). f = n) (spliced_routes a (gn_id new) (fg_edges g)))"
    by (subst edge_targets_route, subst g'(4)) (simp add: edge_targets_route)
  ultimately show ?thesis
    using g'(1,3) by (auto simp: fg_succs_wf assms(1) spliced_targets)
qed

lemma insert_after_reaches:
  assumes "wf_graph g" "fg_insert_after X a new g = Ret (Inr (), g')" "gn_id new \<notin> dom (fg_nodes g)"
    and "u \<in> dom (fg_nodes g)" "v \<in> dom (fg_nodes g)"
  shows "reaches (fg_succs g') u v \<longleftrightarrow> reaches (fg_succs g) u v"
proof
  note succs = insert_after_succs [OF assms(1-3)]
  have a: "a \<in> dom (fg_nodes g)"
    using fg_insert_after_result [OF assms(1,2)] by auto
  assume r: "reaches (fg_succs g) u v"
  have "reaches (fg_succs g') x y" if "y \<in> set (fg_succs g x)" for x y
  proof -
    have "x \<noteq> gn_id new"
      using fg_succs_dom(1) [OF assms(1) that] assms(3) by auto
    show ?thesis
    proof (cases "x = a")
      case True
      have "gn_id new \<in> set (fg_succs g' a)" "y \<in> set (fg_succs g' (gn_id new))"
        using that True a assms(3) by (auto simp: succs)
      then show ?thesis
        unfolding True by (intro reaches_step [OF reaches_step [OF reaches_refl]])
    next
      case False
      with that \<open>x \<noteq> gn_id new\<close> show ?thesis
        by (intro reaches_step [OF reaches_refl]) (simp add: succs)
    qed
  qed
  with r show "reaches (fg_succs g') u v"
    using reaches_map [of "fg_succs g" "fg_succs g'" "\<lambda>x. x"] by blast
next
  note succs = insert_after_succs [OF assms(1-3)]
  assume r: "reaches (fg_succs g') u v"
  let ?h = "\<lambda>x. if x = gn_id new then a else x"
  have "reaches (fg_succs g) (?h x) (?h y)" if "y \<in> set (fg_succs g' x)" for x y
  proof (cases "x = a")
    case True
    with that show ?thesis by (simp add: succs)
  next
    case False
    let ?x = "?h x"
    have y: "y \<in> set (fg_succs g ?x)"
      using that False by (auto simp: succs split: if_splits)
    have "y \<noteq> gn_id new"
      using fg_succs_dom(2) [OF assms(1) y] assms(3) by blast
    with y show ?thesis
      by (intro reaches_step [OF reaches_refl]) simp
  qed
  from reaches_map [of "fg_succs g'" "fg_succs g" ?h, OF this r] assms(3-5)
  show "reaches (fg_succs g) u v"
    by (auto split: if_splits)
qed

subsection \<open>Removing and reconnecting\<close>

lemma connect_pairs_result:
  "wf_graph g \<Longrightarrow> connect_pairs X cap ps g = Ret (r, g') \<Longrightarrow>
   wf_graph g' \<and> fg_nodes g' = fg_nodes g \<and>
   (\<exists>qs. map edge_route (fg_edges g') = map edge_route (fg_edges g) @ map (\<lambda>(p, s). (p, s, Sequential, None)) qs \<and>
      (case r of
         Inr _ \<Rightarrow> qs = ps \<and> (\<forall>p s. (p, s) \<in> set ps \<longrightarrow> p \<in> dom (fg_nodes g) \<and> s \<in> dom (fg_nodes g))
       | Inl e \<Rightarrow> (\<exists>i. e = MissingNode (node_id_str X i) \<and> i \<notin> dom (fg_nodes g) \<and>
            (\<exists>p s. (p, s) \<in> set ps \<and> (i = p \<or> i = s)))))"
proof (induction ps arbitrary: g)
  case Nil
  then show ?case by (auto intro: exI [of _ "[]"])
next
  case (Cons pair ps)
  obtain p s where pair: "pair = (p, s)" by fastforce
  from Cons.prems(2) pair obtain e where e: "edge_new_unread (x_mpsc X) p s Sequential None cap = Ret e"
    "(case fg_connect X e g of (Inl err, g') \<Rightarrow> Ret (Inl err, g')
      | (Inr _, g') \<Rightarrow> connect_pairs X cap ps g') = Ret (r, g')"
    by (auto simp: obind_eq_Ret)
  note ends = edge_new_unread_ends [OF e(1)]
  show ?case
  proof (cases "p \<in> dom (fg_nodes g) \<and> s \<in> dom (fg_nodes g)")
    case True
    let ?g1 = "set_edges p (fg_edges g @ [e]) g"
    have c: "fg_connect X e g = (Inr (), ?g1)"
      using fg_connect_ok [OF Cons.prems(1), of e X] True ends by simp
    have wf1: "wf_graph ?g1"
      using fg_connect_wf [OF Cons.prems(1), of X e] c by simp
    have "connect_pairs X cap ps ?g1 = Ret (r, g')"
      using e(2) c by simp
    from Cons.IH [OF wf1 this] obtain qs where
      qs: "wf_graph g'" "fg_nodes g' = fg_nodes g"
        "map edge_route (fg_edges g') = map edge_route (fg_edges g) @ (p, s, Sequential, None) #
           map (\<lambda>(p, s). (p, s, Sequential, None)) qs"
        "case r of Inr _ \<Rightarrow> qs = ps \<and> (\<forall>p s. (p, s) \<in> set ps \<longrightarrow> p \<in> dom (fg_nodes g) \<and> s \<in> dom (fg_nodes g))
         | Inl e \<Rightarrow> (\<exists>i. e = MissingNode (node_id_str X i) \<and> i \<notin> dom (fg_nodes g) \<and>
            (\<exists>p s. (p, s) \<in> set ps \<and> (i = p \<or> i = s)))"
      unfolding set_edges_fields map_append list.map append_assoc append_Cons append_Nil
        edge_new_unread_route [OF e(1)] by blast
    show ?thesis
      using qs pair True by (intro conjI exI [of _ "(p, s) # qs"]) (auto split: sum.splits)
  next
    case False
    then obtain i where i: "i \<notin> dom (fg_nodes g)" "i = p \<or> i = s"
        "fg_connect X e g = (Inl (MissingNode (node_id_str X i)), g)"
      using fg_connect_missing [of g e X] ends by (cases "p \<in> dom (fg_nodes g)") auto
    then have "r = Inl (MissingNode (node_id_str X i))" "g' = g"
      using e(2) by auto
    moreover have "(p, s) \<in> set (pair # ps)"
      by (simp add: pair)
    ultimately show ?thesis
      using i(1,2) Cons.prems(1) by (intro conjI exI [of _ "[]"]) auto
  qed
qed

lemma remove_and_reconnect_result:
  assumes "wf_graph g" "fg_remove_and_reconnect X i g = Ret (r, g')"
  shows "wf_graph g' \<and>
    (case r of
       Inr removed \<Rightarrow> fg_nodes g i = Some removed \<and> i \<notin> set (fg_succs g i) \<and>
         fg_nodes g' = (fg_nodes g)(i := None) \<and>
         map edge_route (fg_edges g') =
           map edge_route (filter (\<lambda>e. ed_from e \<noteq> i \<and> ed_to e \<noteq> i) (fg_edges g)) @
           map (\<lambda>(p, s). (p, s, Sequential, None))
             (List.product (map ed_from (filter (\<lambda>e. ed_to e = i) (fg_edges g))) (fg_succs g i))
     | Inl e \<Rightarrow>
         (g' = g \<and> (i \<notin> dom (fg_nodes g) \<or>
            1 < length (filter (\<lambda>e. ed_to e = i) (fg_edges g)) \<and> 1 < length (fg_succs g i))) \<or>
         (i \<in> set (fg_succs g i) \<and> e = MissingNode (node_id_str X i) \<and> i \<notin> dom (fg_nodes g')))"
proof (cases "fg_nodes g i")
  case None
  with assms show ?thesis by (auto simp: fg_remove_and_reconnect_def)
next
  case (Some removed)
  let ?preds = "map ed_from (filter (\<lambda>e. ed_to e = i) (fg_edges g))"
  have succs: "fg_succs g i = map ed_to (filter (\<lambda>e. ed_from e = i) (fg_edges g))"
    by (simp add: fg_succs_wf [OF assms(1)] edge_targets_def)
  show ?thesis
  proof (cases "1 < length ?preds \<and> 1 < length (fg_succs g i)")
    case True
    with Some assms succs show ?thesis
      by (auto simp: fg_remove_and_reconnect_def Let_def)
  next
    case False
    obtain g1 where g1: "fg_remove_node i g = (Some removed, g1)" "fg_nodes g1 = (fg_nodes g)(i := None)"
        "fg_edges g1 = filter (\<lambda>e. ed_from e \<noteq> i \<and> ed_to e \<noteq> i) (fg_edges g)"
      using Some by (simp add: fg_remove_node_def)
    have wf1: "wf_graph g1"
      using fg_remove_node_wf [OF assms(1), of i] g1(1) by simp
    have "obind (connect_pairs X (nc_queue_capacity (gn_config removed))
          (List.product ?preds (fg_succs g i)) g1)
        (\<lambda>(r, g2). case r of Inl e \<Rightarrow> Ret (Inl e, g2) | Inr _ \<Rightarrow> Ret (Inr removed, g2)) = Ret (r, g')"
      using assms(2) False [unfolded succs eq_False [symmetric]]
      by (simp only: fg_remove_and_reconnect_def Let_def Some g1(1) succs option.simps if_False prod.case)
    then obtain rc g2 where
      "connect_pairs X (nc_queue_capacity (gn_config removed)) (List.product ?preds (fg_succs g i)) g1 = Ret (rc, g2)"
      "(case rc of Inl e \<Rightarrow> Ret (Inl e, g2) | Inr _ \<Rightarrow> Ret (Inr removed, g2)) = Ret (r, g')"
      unfolding obind_eq_Ret by auto
    then have rc:
      "connect_pairs X (nc_queue_capacity (gn_config removed)) (List.product ?preds (fg_succs g i)) g1 = Ret (rc, g')"
      "r = (case rc of Inl e \<Rightarrow> Inl e | Inr _ \<Rightarrow> Inr removed)"
      by (cases rc; simp)+
    from connect_pairs_result [OF wf1 rc(1)] obtain qs where
      qs: "wf_graph g'" "fg_nodes g' = fg_nodes g1"
        "map edge_route (fg_edges g') = map edge_route (fg_edges g1) @ map (\<lambda>(p, s). (p, s, Sequential, None)) qs"
        "case rc of
           Inr _ \<Rightarrow> qs = List.product ?preds (fg_succs g i) \<and>
             (\<forall>p s. (p, s) \<in> set (List.product ?preds (fg_succs g i)) \<longrightarrow> p \<in> dom (fg_nodes g1) \<and> s \<in> dom (fg_nodes g1))
         | Inl e \<Rightarrow> (\<exists>j. e = MissingNode (node_id_str X j) \<and> j \<notin> dom (fg_nodes g1) \<and>
            (\<exists>p s. (p, s) \<in> set (List.product ?preds (fg_succs g i)) \<and> (j = p \<or> j = s)))"
      by blast
    have pred: "p \<in> set ?preds \<longleftrightarrow> i \<in> set (fg_succs g p)" for p
      using fg_succs_edge [OF assms(1), of i p] by auto
    show ?thesis
    proof (cases rc)
      case (Inr u)
      from qs(4) have all: "qs = List.product ?preds (fg_succs g i)"
          "\<forall>p s. (p, s) \<in> set (List.product ?preds (fg_succs g i)) \<longrightarrow>
             p \<in> dom (fg_nodes g1) \<and> s \<in> dom (fg_nodes g1)"
        unfolding Inr sum.case by blast+
      have "i \<notin> set (fg_succs g i)"
      proof
        assume "i \<in> set (fg_succs g i)"
        with pred [of i] have "(i, i) \<in> set (List.product ?preds (fg_succs g i))"
          unfolding set_product by blast
        with all(2) have "i \<in> dom (fg_nodes g1)"
          by blast
        then show False
          using g1(2) by simp
      qed
      moreover have "r = Inr removed"
        using rc(2) Inr by simp
      ultimately show ?thesis
        using qs(1-3) Some g1(2,3) all(1) by (simp only: sum.case simp_thms)
    next
      case (Inl e)
      with qs(4) obtain j p s where j: "e = MissingNode (node_id_str X j)" "j \<notin> dom (fg_nodes g1)"
          "p \<in> set ?preds" "s \<in> set (fg_succs g i)" "j = p \<or> j = s"
        unfolding Inl sum.case set_product by blast
      have "j \<in> dom (fg_nodes g)"
        using j(3-5) fg_succs_dom [OF assms(1)] pred by blast
      then have "j = i"
        using j(2) g1(2) by auto
      with j pred have "i \<in> set (fg_succs g i)"
        by blast
      with \<open>j = i\<close> j(1) Inl qs(1,2) g1(2) rc(2) show ?thesis
        by auto
    qed
  qed
qed

lemma edge_route_arc:
  "(\<exists>e \<in> set es. ed_from e = n \<and> ed_to e = t) \<longleftrightarrow> (\<exists>ty c. (n, t, ty, c) \<in> set (map edge_route es))"
  by (force simp: edge_route_def)

lemma remove_and_reconnect_succs:
  assumes "wf_graph g" "fg_remove_and_reconnect X i g = Ret (Inr removed, g')"
  shows "t \<in> set (fg_succs g' n) \<longleftrightarrow> n \<noteq> i \<and> t \<noteq> i \<and>
    (t \<in> set (fg_succs g n) \<or> (i \<in> set (fg_succs g n) \<and> t \<in> set (fg_succs g i)))"
proof -
  from remove_and_reconnect_result [OF assms] have
    g': "wf_graph g'" "i \<notin> set (fg_succs g i)" and routes: "map edge_route (fg_edges g') =
           map edge_route (filter (\<lambda>e. ed_from e \<noteq> i \<and> ed_to e \<noteq> i) (fg_edges g)) @
           map (\<lambda>(p, s). (p, s, Sequential, None))
             (List.product (map ed_from (filter (\<lambda>e. ed_to e = i) (fg_edges g))) (fg_succs g i))"
    by auto
  have old: "(\<exists>ty c. (n, t, ty, c) \<in> set (map edge_route
        (filter (\<lambda>e. ed_from e \<noteq> i \<and> ed_to e \<noteq> i) (fg_edges g)))) \<longleftrightarrow>
      n \<noteq> i \<and> t \<noteq> i \<and> t \<in> set (fg_succs g n)"
    unfolding edge_route_arc [symmetric] fg_succs_edge [OF assms(1)] by auto
  have "(\<exists>ty c. (n, t, ty, c) \<in> set (map (\<lambda>(p, s). (p, s, Sequential, None :: condition option))
        (List.product ps ss))) \<longleftrightarrow> n \<in> set ps \<and> t \<in> set ss" for ps ss
    by (auto simp: image_iff)
  then have new: "(\<exists>ty c. (n, t, ty, c) \<in> set (map (\<lambda>(p, s). (p, s, Sequential, None))
        (List.product (map ed_from (filter (\<lambda>e. ed_to e = i) (fg_edges g))) (fg_succs g i)))) \<longleftrightarrow>
      i \<in> set (fg_succs g n) \<and> t \<in> set (fg_succs g i)"
    unfolding fg_succs_edge [OF assms(1), of i n] by fastforce
  have "t \<in> set (fg_succs g' n) \<longleftrightarrow> (\<exists>ty c. (n, t, ty, c) \<in> set (map edge_route (fg_edges g')))"
    unfolding fg_succs_edge [OF g'(1)] edge_route_arc ..
  also have "\<dots> \<longleftrightarrow> (n \<noteq> i \<and> t \<noteq> i \<and> t \<in> set (fg_succs g n)) \<or>
      (i \<in> set (fg_succs g n) \<and> t \<in> set (fg_succs g i))"
    unfolding routes set_append Un_iff ex_disj_distrib old new ..
  finally show ?thesis
    using g'(2) by auto
qed

lemma remove_and_reconnect_reaches:
  assumes "wf_graph g" "fg_remove_and_reconnect X i g = Ret (Inr removed, g')" "u \<noteq> i" "v \<noteq> i"
  shows "reaches (fg_succs g') u v \<longleftrightarrow> reaches (fg_succs g) u v"
proof
  note succs = remove_and_reconnect_succs [OF assms(1,2)]
  assume "reaches (fg_succs g') u v"
  moreover have "reaches (fg_succs g) x y" if "y \<in> set (fg_succs g' x)" for x y
    using that reaches_step [OF reaches_refl] reaches_step [OF reaches_step [OF reaches_refl]]
    by (auto simp: succs)
  ultimately show "reaches (fg_succs g) u v"
    using reaches_map [of "fg_succs g'" "fg_succs g" "\<lambda>x. x"] by blast
next
  note succs = remove_and_reconnect_succs [OF assms(1,2)]
  assume "reaches (fg_succs g) u v"
  then obtain p where p: "path_in (fg_succs g) p" "hd p = u" "last p = v"
    by (auto simp: reaches_def)
  have "if last p = i then \<exists>w. w \<noteq> i \<and> i \<in> set (fg_succs g w) \<and> reaches (fg_succs g') u w
        else reaches (fg_succs g') u (last p)"
    using p(1,2)
  proof (induction p rule: rev_induct)
    case Nil
    then show ?case by (simp add: path_in_def)
  next
    case (snoc x p)
    show ?case
    proof (cases "p = []")
      case True
      with snoc.prems assms(3) show ?thesis by simp
    next
      case False
      with snoc.prems have x: "x \<in> set (fg_succs g (last p))"
        by (simp add: path_in_snoc)
      have IH: "if last p = i then \<exists>w. w \<noteq> i \<and> i \<in> set (fg_succs g w) \<and> reaches (fg_succs g') u w
          else reaches (fg_succs g') u (last p)"
        using snoc False by (simp add: path_in_snoc)
      have loop: "i \<notin> set (fg_succs g i)"
        using remove_and_reconnect_result [OF assms(1,2)] by simp
      show ?thesis
      proof (cases "last p = i")
        case True
        with IH obtain w where w: "w \<noteq> i" "i \<in> set (fg_succs g w)" "reaches (fg_succs g') u w"
          by auto
        have "x \<noteq> i" "x \<in> set (fg_succs g' w)"
          using x True loop w(1,2) by (auto simp: succs)
        then show ?thesis
          using reaches_step [OF w(3)] by simp
      next
        case notlast: False
        with IH have r: "reaches (fg_succs g') u (last p)"
          by simp
        show ?thesis
        proof (cases "x = i")
          case True
          with r x notlast show ?thesis by auto
        next
          case False
          with notlast x have "x \<in> set (fg_succs g' (last p))"
            by (simp add: succs)
          with False show ?thesis
            using reaches_step [OF r] by simp
        qed
      qed
    qed
  qed
  with p(3) assms(4) show "reaches (fg_succs g') u v"
    by simp
qed

subsection \<open>Swapping\<close>

lemma fg_swap_node_result:
  assumes "fg_swap_node X i m ctx g = Ret (r, g', ctx')"
  shows "case r of
      Inl e \<Rightarrow> e = MissingNode (node_id_str X i) \<and> fg_nodes g i = None \<and> g' = g
    | Inr out \<Rightarrow> (\<exists>old new. fg_nodes g i = Some old \<and> g' = g\<lparr>fg_nodes := (fg_nodes g)(i \<mapsto> new)\<rparr> \<and>
        gn_id new = i \<and> gn_module new = m \<and> gn_config new = gn_config old \<and>
        gn_state new = Uninitialized \<and> gn_id (so_replaced out) = gn_id old)"
proof (cases "fg_nodes g i")
  case None
  with assms show ?thesis by (auto simp: fg_swap_node_def)
next
  case (Some old)
  obtain mr old' ctx1 where mig: "gn_migrate X ctx old = (mr, old', ctx1)"
    by (cases "gn_migrate X ctx old") auto
  have old': "gn_config old' = gn_config old" "gn_id old' = gn_id old"
    using mig by (auto simp: gn_migrate_def Let_def split: option.splits prod.splits)
  from assms Some mig obtain v new where
    "graph_node_new X i m (gn_config old') = Ret new"
    "r = Inr \<lparr>so_replaced = old', so_migrate_result = v\<rparr>" "g' = g\<lparr>fg_nodes := (fg_nodes g)(i \<mapsto> new)\<rparr>"
    by (auto simp: fg_swap_node_def obind_eq_Ret)
  with Some old' graph_node_new_fields [of X i m "gn_config old'" new] show ?thesis
    by auto
qed

lemma fg_swap_node_wf:
  assumes "wf_graph g" "fg_swap_node X i m ctx g = Ret (r, g', ctx')"
  shows "wf_graph g'"
proof (cases r)
  case (Inl e)
  with fg_swap_node_result [OF assms(2)] assms(1) show ?thesis by simp
next
  case (Inr out)
  with fg_swap_node_result [OF assms(2)] obtain old new where
    "fg_nodes g i = Some old" "g' = fg_write_node i new g" "gn_id new = i"
    by (auto simp: fg_write_node_def)
  with fg_write_node_wf [OF assms(1), of i new] show ?thesis by auto
qed

subsection \<open>Every graph that can be built\<close>

text \<open>The public mutations of \<open>FlowGraph\<close>, as steps.\<close>

inductive graph_step ::
    "('v, 'm, 'ctx, 'c, 'f) ext \<Rightarrow> ('m, 'c, 'cfg) flow_graph \<Rightarrow> ('m, 'c, 'cfg) flow_graph \<Rightarrow> bool"
  for X where
  step_add_node: "graph_step X g (fg_add_node node g)"
| step_remove_node: "graph_step X g (snd (fg_remove_node i g))"
| step_connect: "graph_step X g (snd (fg_connect X e g))"
| step_disconnect: "graph_step X g (snd (fg_disconnect a b g))"
| step_mark_entry: "graph_step X g (fg_mark_entry_point i g)"
| step_mark_exit: "graph_step X g (fg_mark_exit_point i g)"
| step_allow_feedback: "graph_step X g (fg_allow_feedback_edge a b g)"
| step_write_node: "i \<in> dom (fg_nodes g) \<Longrightarrow> gn_id node = i \<Longrightarrow> graph_step X g (fg_write_node i node g)"
| step_insert_after: "fg_insert_after X a node g = Ret (r, g') \<Longrightarrow> graph_step X g g'"
| step_remove_and_reconnect: "fg_remove_and_reconnect X i g = Ret (rr, g') \<Longrightarrow> graph_step X g g'"
| step_swap_node: "fg_swap_node X i m ctx g = Ret (rs, g', ctx') \<Longrightarrow> graph_step X g g'"

inductive buildable ::
    "('v, 'm, 'ctx, 'c, 'f) ext \<Rightarrow> ('m, 'c, 'cfg) flow_graph \<Rightarrow> bool" for X where
  build_new: "buildable X fg_new"
| build_step: "buildable X g \<Longrightarrow> graph_step X g g' \<Longrightarrow> buildable X g'"

inductive_cases graph_stepE: "graph_step X g g'"

lemma graph_step_wf: "graph_step X g g' \<Longrightarrow> wf_graph g \<Longrightarrow> wf_graph g'"
  by (induction rule: graph_step.induct)
    (auto intro: wf_intros fg_swap_node_wf dest: fg_insert_after_result remove_and_reconnect_result)

lemma buildable_wf: "buildable X g \<Longrightarrow> wf_graph g"
  by (induction rule: buildable.induct) (auto intro: fg_new_wf graph_step_wf)

subsection \<open>Diffs\<close>

lemma fg_diff_empty:
  "fg_diff g other = \<lparr>gd_added_nodes = {}, gd_removed_nodes = {}, gd_changed_nodes = {},
     gd_added_edges = {}, gd_removed_edges = {}\<rparr> \<longleftrightarrow>
   dom (fg_nodes g) = dom (fg_nodes other) \<and> edge_keys g = edge_keys other \<and>
   (\<forall>i a b. fg_nodes g i = Some a \<longrightarrow> fg_nodes other i = Some b \<longrightarrow>
      arc_ptr (gn_module a) = arc_ptr (gn_module b))"
proof -
  have "{i \<in> dom (fg_nodes g) \<inter> dom (fg_nodes other).
        \<not> arc_ptr_eq (gn_module (the (fg_nodes g i))) (gn_module (the (fg_nodes other i)))} = {} \<longleftrightarrow>
      (\<forall>i a b. fg_nodes g i = Some a \<longrightarrow> fg_nodes other i = Some b \<longrightarrow>
        arc_ptr (gn_module a) = arc_ptr (gn_module b))"
    by (force simp: arc_ptr_eq_def)
  then show ?thesis
    by (auto simp: fg_diff_def Let_def)
qed

lemma fg_diff_apply:
  "dom (fg_nodes other) = (dom (fg_nodes g) - gd_removed_nodes (fg_diff g other)) \<union> gd_added_nodes (fg_diff g other)"
  "edge_keys other = (edge_keys g - gd_removed_edges (fg_diff g other)) \<union> gd_added_edges (fg_diff g other)"
  by (auto simp: fg_diff_def Let_def)

subsection \<open>Properties\<close>

text \<open>
  C10. Every graph that the editing operations can build, in any sequence and whether or not they
  succeed, is well formed: its adjacency lists are those of its edges, every edge joins present
  nodes, every node is filed under its own identifier, and no mark is repeated.
\<close>

theorem buildable_well_formed: "buildable X g \<Longrightarrow> wf_graph g"
  by (rule buildable_wf)

text \<open>
  C17. Inserting a node after another splices it into the only outgoing edge: on success everything
  else stays, and reachability between the old nodes is what it was; on failure (no such node,
  or several outgoing edges) the graph is unchanged.
\<close>

theorem insert_after_splices:
  assumes "wf_graph g" "fg_insert_after X a new g = Ret (r, g')" "gn_id new \<notin> dom (fg_nodes g)"
    and "u \<in> dom (fg_nodes g)" "v \<in> dom (fg_nodes g)"
  shows "wf_graph g' \<and> isl r = (a \<notin> dom (fg_nodes g) \<or> 1 < length (fg_succs g a)) \<and>
    (if isl r then g' = g
     else fg_nodes g' = (fg_nodes g)(gn_id new \<mapsto> new) \<and> fg_succs g' a = [gn_id new] \<and>
       fg_succs g' (gn_id new) = fg_succs g a \<and>
       reaches (fg_succs g') u v = reaches (fg_succs g) u v)"
proof (cases r)
  case (Inl e)
  with fg_insert_after_result [OF assms(1,2)] show ?thesis by auto
next
  case (Inr x)
  then have ok: "fg_insert_after X a new g = Ret (Inr (), g')"
    using assms(2) by simp
  have "a \<noteq> gn_id new"
    using fg_insert_after_result [OF assms(1,2)] Inr assms(3) by auto
  with fg_insert_after_result [OF assms(1,2)] Inr insert_after_succs [OF assms(1) ok assms(3)]
    insert_after_reaches [OF assms(1) ok assms(3-5)]
  show ?thesis by auto
qed

text \<open>
  C18. Removing a node and reconnecting its neighbours keeps the traffic flowing: on success the
  node is gone and two other nodes are connected exactly if they were; when the removal is
  refused as ambiguous, or the node is absent, the graph is unchanged. One failure is not
  atomic: for a node with an edge to itself the node is removed and an error is reported.
\<close>

theorem remove_and_reconnect_keeps_routes:
  assumes "wf_graph g" "fg_remove_and_reconnect X i g = Ret (r, g')" "u \<noteq> i" "v \<noteq> i"
  shows "wf_graph g' \<and>
    (case r of
       Inr removed \<Rightarrow> fg_nodes g i = Some removed \<and> fg_nodes g' = (fg_nodes g)(i := None) \<and>
         reaches (fg_succs g') u v = reaches (fg_succs g) u v
     | Inl e \<Rightarrow> g' = g \<or> (i \<in> set (fg_succs g i) \<and> i \<notin> dom (fg_nodes g')))"
proof (cases r)
  case (Inl e)
  with remove_and_reconnect_result [OF assms(1,2)] show ?thesis by auto
next
  case (Inr removed)
  with remove_and_reconnect_result [OF assms(1,2)]
    remove_and_reconnect_reaches [OF assms(1), of X i removed g' u v] assms(2-4)
  show ?thesis by auto
qed

text \<open>
  Hot-swapping a module replaces it in place: the node keeps its identifier and its
  configuration, every other node, every edge and every mark is untouched, and a failed
  migration is reported but does not stop the swap; without such a node nothing changes. The
  node that comes in starts as uninitialized.
\<close>

theorem swap_node_in_place:
  assumes "wf_graph g" "fg_swap_node X i m ctx g = Ret (r, g', ctx')"
  shows "wf_graph g' \<and>
    (case r of
       Inl e \<Rightarrow> fg_nodes g i = None \<and> g' = g
     | Inr out \<Rightarrow> (\<exists>old new. fg_nodes g i = Some old \<and> g' = g\<lparr>fg_nodes := (fg_nodes g)(i \<mapsto> new)\<rparr> \<and>
         gn_id new = i \<and> gn_module new = m \<and> gn_config new = gn_config old \<and>
         gn_state new = Uninitialized \<and> gn_id (so_replaced out) = i))"
proof -
  have "gn_id old = i" if "fg_nodes g i = Some old" for old
    using wf_graphD(3) [OF assms(1) that] .
  note old = this
  show ?thesis
  proof (cases r)
    case (Inl e)
    with fg_swap_node_result [OF assms(2)] fg_swap_node_wf [OF assms] show ?thesis by simp
  next
    case (Inr out)
    with fg_swap_node_result [OF assms(2)] obtain a b where
      "fg_nodes g i = Some a" "g' = g\<lparr>fg_nodes := (fg_nodes g)(i \<mapsto> b)\<rparr>" "gn_id b = i"
      "gn_module b = m" "gn_config b = gn_config a" "gn_state b = Uninitialized"
      "gn_id (so_replaced out) = gn_id a"
      by auto
    moreover have "gn_id a = i"
      by (rule old) fact
    ultimately have "\<exists>old new. fg_nodes g i = Some old \<and> g' = g\<lparr>fg_nodes := (fg_nodes g)(i \<mapsto> new)\<rparr> \<and>
         gn_id new = i \<and> gn_module new = m \<and> gn_config new = gn_config old \<and>
         gn_state new = Uninitialized \<and> gn_id (so_replaced out) = i"
      by (intro exI [of _ a] exI [of _ b]) simp
    with Inr fg_swap_node_wf [OF assms] show ?thesis by simp
  qed
qed

text \<open>
  The difference of two graphs is empty only for graphs with the same node identifiers, the same
  modules behind them and the same edges by their ends and type, and applying the nodes and edges it
  lists to those of the first graph gives those of the second. Entry and exit points, configurations,
  conditions and priorities are not compared.
\<close>

theorem graph_diff_exact:
  "(fg_diff g other = \<lparr>gd_added_nodes = {}, gd_removed_nodes = {}, gd_changed_nodes = {},
      gd_added_edges = {}, gd_removed_edges = {}\<rparr>) =
   (dom (fg_nodes g) = dom (fg_nodes other) \<and> edge_keys g = edge_keys other \<and>
    {i. \<exists>a b. fg_nodes g i = Some a \<and> fg_nodes other i = Some b \<and>
        arc_ptr (gn_module a) \<noteq> arc_ptr (gn_module b)} = {}) \<and>
   dom (fg_nodes other) = (dom (fg_nodes g) - gd_removed_nodes (fg_diff g other)) \<union> gd_added_nodes (fg_diff g other) \<and>
   edge_keys other = (edge_keys g - gd_removed_edges (fg_diff g other)) \<union> gd_added_edges (fg_diff g other)"
  unfolding fg_diff_empty using fg_diff_apply [of other g] by blast

end
