(* ===== verification/Throughput.thy ===== *)
theory Throughput
  imports Metrics Core_Types
begin

text \<open>
  Throughput over a sliding window (\<open>crates/nyarix-graph/src/throughput.rs\<close>), and the store of
  metric registries. A registry is shared by reference, so it is held in a store and named by a
  number; \<open>None\<close> is the absence of a registry. Instants and durations are in nanoseconds.
\<close>

subsection \<open>Shared registries\<close>

type_synonym 'f registries = "nat \<Rightarrow> 'f metric_registry"

definition on_registry ::
    "nat option \<Rightarrow> ('f metric_registry \<Rightarrow> 'f metric_registry) \<Rightarrow> 'f registries \<Rightarrow> 'f registries" where
  "on_registry metrics f s = (case metrics of None \<Rightarrow> s | Some r \<Rightarrow> s(r := f (s r)))"

lemma on_registry_None [simp]: "on_registry None f s = s"
  by (simp add: on_registry_def)

lemma on_registry_Some: "on_registry (Some r) f s r' = (if r' = r then f (s r) else s r')"
  by (simp add: on_registry_def)

subsection \<open>The tracker\<close>

definition DEFAULT_WINDOW :: nat where
  "DEFAULT_WINDOW = 5 * 1000000000"

definition THROUGHPUT_SCOPE :: string where
  "THROUGHPUT_SCOPE = ''flow''"

type_synonym window = "(int \<times> u64) list"

record throughput_tracker =
  tt_window :: nat
  tt_total :: window
  tt_flows :: "flow_id \<rightharpoonup> window"
  tt_metrics :: "nat option"

definition tracker_new :: throughput_tracker where
  "tracker_new = \<lparr>tt_window = DEFAULT_WINDOW, tt_total = [], tt_flows = Map.empty, tt_metrics = None\<rparr>"

definition tracker_with_metrics :: "nat \<Rightarrow> throughput_tracker \<Rightarrow> throughput_tracker" where
  "tracker_with_metrics r t = t\<lparr>tt_metrics := Some r\<rparr>"

definition tracker_with_window :: "nat \<Rightarrow> throughput_tracker \<Rightarrow> throughput_tracker" where
  "tracker_with_window w t = t\<lparr>tt_window := w\<rparr>"

fun prune_window :: "int \<Rightarrow> window \<Rightarrow> window" where
  "prune_window cutoff [] = []"
| "prune_window cutoff ((ts, n) # w) = (if ts < cutoff then prune_window cutoff w else (ts, n) # w)"

definition tracker_prune :: "int \<Rightarrow> throughput_tracker \<Rightarrow> throughput_tracker" where
  "tracker_prune now t =
     (let cutoff = now - int (tt_window t)
      in t\<lparr>tt_total := prune_window cutoff (tt_total t),
           tt_flows := (\<lambda>i. map_option (prune_window cutoff) (tt_flows t i))\<rparr>)"

definition secs_f64 :: "'f f64_ops \<Rightarrow> nat \<Rightarrow> 'f" where
  "secs_f64 F d =
     f_add F (f_of_nat F (d div 1000000000)) (f_div F (f_of_nat F (d mod 1000000000)) (f_of_nat F 1000000000))"

definition rate_from_window :: "'f f64_ops \<Rightarrow> window \<Rightarrow> nat \<Rightarrow> 'f" where
  "rate_from_window F w window_duration =
     (if w = [] then f_of_nat F 0
      else let total_bytes = sum_list (map snd w);
               elapsed = nat (fst (last w) - fst (hd w));
               denom = (if window_duration < elapsed then window_duration
                        else if elapsed = 0 then window_duration
                        else elapsed)
           in f_div F (f_of_nat F (unat total_bytes)) (secs_f64 F denom))"

definition total_throughput :: "'f f64_ops \<Rightarrow> throughput_tracker \<Rightarrow> 'f" where
  "total_throughput F t = rate_from_window F (tt_total t) (tt_window t)"

definition flow_throughput :: "'f f64_ops \<Rightarrow> flow_id \<Rightarrow> throughput_tracker \<Rightarrow> 'f" where
  "flow_throughput F i t =
     (case tt_flows t i of None \<Rightarrow> f_of_nat F 0 | Some w \<Rightarrow> rate_from_window F w (tt_window t))"

definition export_gauges :: "'f f64_ops \<Rightarrow> throughput_tracker \<Rightarrow> 'f registries \<Rightarrow> 'f registries" where
  "export_gauges F t s =
     on_registry (tt_metrics t) (\<lambda>r.
       gauge_set (f_to_i64 F (total_throughput F t))
         (registry_gauge THROUGHPUT_SCOPE ''throughput_bytes_per_sec'' r)) s"

definition tracker_record ::
    "'f f64_ops \<Rightarrow> int \<Rightarrow> flow_id \<Rightarrow> u64 \<Rightarrow> throughput_tracker \<Rightarrow> 'f registries \<Rightarrow>
     throughput_tracker \<times> 'f registries" where
  "tracker_record F now i n t s =
     (let t1 = t\<lparr>tt_total := tt_total t @ [(now, n)]\<rparr>;
          flow = (case tt_flows t1 i of None \<Rightarrow> [] | Some w \<Rightarrow> w);
          t2 = t1\<lparr>tt_flows := (tt_flows t1)(i \<mapsto> flow @ [(now, n)])\<rparr>;
          t3 = tracker_prune now t2
      in (t3, export_gauges F t3 s))"

subsection \<open>The windows hold what is recent\<close>

text \<open>Time stamps in order, in the total and in every flow; the total has every flow's entries.\<close>

definition window_at :: "int \<Rightarrow> window \<Rightarrow> bool" where
  "window_at now w \<longleftrightarrow> sorted (map fst w) \<and> (\<forall>x \<in> set w. fst x \<le> now)"

definition tracker_inv :: "int \<Rightarrow> throughput_tracker \<Rightarrow> bool" where
  "tracker_inv now t \<longleftrightarrow> window_at now (tt_total t) \<and> (\<forall>i w. tt_flows t i = Some w \<longrightarrow> window_at now w)"

lemma prune_window_sorted:
  "sorted (map fst w) \<Longrightarrow> prune_window c w = filter (\<lambda>(ts, _). c \<le> ts) w"
proof (induction c w rule: prune_window.induct)
  case (1 c)
  then show ?case by simp
next
  case (2 c ts n w)
  then show ?case by (auto simp: filter_id_conv) (smt (verit) filter_True fst_conv prod.case_eq_if)
qed

lemma window_at_snoc: "window_at t0 w \<Longrightarrow> t0 \<le> now \<Longrightarrow> window_at now (w @ [(now, n)])"
  by (fastforce simp: window_at_def sorted_append)

lemma window_at_prune: "window_at now w \<Longrightarrow> window_at now (prune_window c w)"
  by (auto simp: window_at_def prune_window_sorted case_prod_beta
      intro: sorted_filter)

lemma window_at_mono: "window_at t0 w \<Longrightarrow> t0 \<le> now \<Longrightarrow> window_at now w"
  by (auto simp: window_at_def)

lemma tracker_record_total:
  assumes "tracker_inv t0 t" "t0 \<le> now"
  shows "tt_total (fst (tracker_record F now i n t s)) =
    filter (\<lambda>(ts, _). now - int (tt_window t) \<le> ts) (tt_total t @ [(now, n)])"
proof -
  have "window_at now (tt_total t @ [(now, n)])"
    using assms by (auto simp: tracker_inv_def intro: window_at_snoc)
  then show ?thesis
    by (simp add: tracker_record_def Let_def tracker_prune_def prune_window_sorted window_at_def)
qed

lemma tracker_record_inv:
  assumes "tracker_inv t0 t" "t0 \<le> now"
  shows "tracker_inv now (fst (tracker_record F now i n t s))"
proof -
  have "window_at now (case tt_flows t i of None \<Rightarrow> [(now, n)] | Some w \<Rightarrow> w @ [(now, n)])"
    using assms by (auto simp: tracker_inv_def window_at_def[of _ "[(now, n)]"] intro: window_at_snoc
        split: option.splits)
  moreover have "window_at now (tt_total t @ [(now, n)])"
    using assms by (auto simp: tracker_inv_def intro: window_at_snoc)
  ultimately show ?thesis
    using assms
    by (auto simp: tracker_inv_def tracker_record_def Let_def tracker_prune_def
        intro!: window_at_prune intro: window_at_mono split: option.splits if_splits)
qed

text \<open>
  The throughput window holds exactly what is recent: after a record, the total's window is
  the earlier entries and the new one that are not older than the window, in order of time, and
  the same holds for the window of the flow the bytes belong to; nothing recent is pruned and
  nothing old is kept.
\<close>

theorem throughput_window_exact:
  assumes "tracker_inv t0 t" "t0 \<le> now"
  shows "tracker_inv now (fst (tracker_record F now i n t s)) \<and>
    tt_total (fst (tracker_record F now i n t s)) =
      filter (\<lambda>(ts, _). now - int (tt_window t) \<le> ts) (tt_total t @ [(now, n)]) \<and>
    tt_flows (fst (tracker_record F now i n t s)) i =
      Some (filter (\<lambda>(ts, _). now - int (tt_window t) \<le> ts)
        ((case tt_flows t i of None \<Rightarrow> [] | Some w \<Rightarrow> w) @ [(now, n)]))"
proof -
  let ?w = "(case tt_flows t i of None \<Rightarrow> [] | Some w \<Rightarrow> w) @ [(now, n)]"
  have "window_at t0 (case tt_flows t i of None \<Rightarrow> [] | Some w \<Rightarrow> w)"
  proof (cases "tt_flows t i")
    case None
    then show ?thesis by (simp add: window_at_def)
  next
    case (Some w)
    with assms(1) show ?thesis by (simp add: tracker_inv_def)
  qed
  then have "sorted (map fst ?w)"
    using window_at_snoc [OF _ assms(2)] by (auto simp: window_at_def)
  then have "tt_flows (fst (tracker_record F now i n t s)) i =
      Some (filter (\<lambda>(ts, _). now - int (tt_window t) \<le> ts) ?w)"
    by (simp add: tracker_record_def Let_def tracker_prune_def prune_window_sorted)
  with tracker_record_inv [OF assms] tracker_record_total [OF assms] show ?thesis
    by blast
qed

end
