(* ===== verification/Execution.thy ===== *)
theory Execution
  imports Graph_Edit Throughput
begin

text \<open>
  Sequential execution (\<open>crates/nyarix-graph/src/execution.rs\<close>): a packet enters at an entry
  point and follows, at every node, the first edge that accepts it.

  The clock is an argument: \<open>run_env\<close> gives, for the n-th hop, the instant recorded in a trace
  and the time the module took. The loop over hops has fuel. The state is the graph and the
  store of metric registries; an error leaves the state as it is at that point.
\<close>

subsection \<open>Metrics\<close>

definition PROCESS_DURATION_BUCKETS_US :: "nat list" where
  "PROCESS_DURATION_BUCKETS_US = [50, 100, 500, 1000, 5000, 10000, 100000, 1000000]"

definition PACKET_LATENCY_BUCKETS_US :: "nat list" where
  "PACKET_LATENCY_BUCKETS_US = PROCESS_DURATION_BUCKETS_US"

definition FLOW_METRICS_SCOPE :: string where
  "FLOW_METRICS_SCOPE = ''flow''"

definition as_micros :: "duration \<Rightarrow> nat" where
  "as_micros d = d div 1000"

definition record_flow_entry :: "nat option \<Rightarrow> usize \<Rightarrow> 'f registries \<Rightarrow> 'f registries" where
  "record_flow_entry metrics len =
     on_registry metrics (\<lambda>r.
       let r1 = counter_increment 1 (registry_counter FLOW_METRICS_SCOPE ''packets_total'' r)
       in counter_increment (u64_of_usize len) (registry_counter FLOW_METRICS_SCOPE ''bytes_total'' r1))"

definition record_flow_exit ::
    "'f f64_ops \<Rightarrow> nat option \<Rightarrow> duration \<Rightarrow> bool \<Rightarrow> 'f registries \<Rightarrow> 'f registries" where
  "record_flow_exit F metrics elapsed reached_exit =
     on_registry metrics (\<lambda>r.
       if reached_exit
       then histogram_record F (f_of_nat F (as_micros elapsed))
              (registry_histogram F FLOW_METRICS_SCOPE ''packet_latency_us''
                 (map (f_of_nat F) PACKET_LATENCY_BUCKETS_US) r)
       else counter_increment 1 (registry_counter FLOW_METRICS_SCOPE ''packets_dropped'' r))"

definition record_node_metrics ::
    "('v, 'm, 'ctx, 'c, 'f) ext \<Rightarrow> nat option \<Rightarrow> ('m, 'c, 'cfg) graph_node \<Rightarrow> duration \<Rightarrow> bool \<Rightarrow>
     'f registries \<Rightarrow> 'f registries" where
  "record_node_metrics X metrics node elapsed succeeded =
     on_registry metrics (\<lambda>r.
       let F = x_f64 X;
           name = gn_name X node;
           r1 = counter_increment 1 (registry_counter name ''process_calls_total'' r);
           r2 = histogram_record F (f_of_nat F (as_micros elapsed))
                  (registry_histogram F name ''process_duration_us''
                     (map (f_of_nat F) PROCESS_DURATION_BUCKETS_US) r1);
           r3 = gauge_set (i64_of_usize (gn_queue_depth X node)) (registry_gauge name ''queue_depth'' r2)
       in if \<not> succeeded then counter_increment 1 (registry_counter name ''errors_total'' r3) else r3)"

subsection \<open>Limits\<close>

datatype execution_error = ExecModule module_error | ExecGraph graph_error

definition check_payload_limit ::
    "('v, 'm, 'ctx, 'c, 'f) ext \<Rightarrow> ('m, 'c, 'cfg) graph_node \<Rightarrow> packet \<Rightarrow> execution_error + unit" where
  "check_payload_limit X node p =
     (let metadata = gn_metadata X node
      in case rl_max_payload_bytes (mm_resource_limits metadata) of
           None \<Rightarrow> Inr ()
         | Some limit \<Rightarrow>
             (let len = u64_of_usize (packet_len p)
              in if limit < len
                 then Inl (ExecModule (QuotaExceeded (mm_name metadata) ''payload_size''))
                 else Inr ()))"

definition record_and_check_processing_time ::
    "('v, 'm, 'ctx, 'c, 'f) ext \<Rightarrow> ('m, 'c, 'cfg) graph_node \<Rightarrow> duration \<Rightarrow> execution_error + unit" where
  "record_and_check_processing_time X node elapsed =
     (let metadata = gn_metadata X node
      in case rl_max_processing_time (mm_resource_limits metadata) of
           None \<Rightarrow> Inr ()
         | Some limit \<Rightarrow>
             if limit < elapsed
             then Inl (ExecModule (QuotaExceeded (mm_name metadata) ''processing_time''))
             else Inr ())"

subsection \<open>One hop\<close>

definition enqueue_and_dequeue_sync ::
    "('v, 'm, 'ctx, 'c, 'f) ext \<Rightarrow> packet \<Rightarrow> ('m, 'c, 'cfg) graph_node \<Rightarrow>
     (execution_error + packet) outcome \<times> ('m, 'c, 'cfg) graph_node" where
  "enqueue_and_dequeue_sync X p node =
     (case nq_try_send (x_mpsc X) p (gn_queue node) of
        (Inl _, q) \<Rightarrow>
          (Ret (Inl (ExecGraph (BuildFailed
             (''node '' @ node_id_str X (gn_id node) @ '' input queue is full'')))),
           node\<lparr>gn_queue := q\<rparr>)
      | (Inr _, q) \<Rightarrow>
          (case nq_try_recv_prioritized (x_mpsc X) q of
             (None, q') \<Rightarrow>
               (Panic (''a packet was just enqueued into this node'' @ quot @ ''s own queue''),
                node\<lparr>gn_queue := q'\<rparr>)
           | (Some queued, q') \<Rightarrow> (Ret (Inr queued), node\<lparr>gn_queue := q'\<rparr>)))"

record run_env =
  ev_hop_now :: "nat \<Rightarrow> instant"
  ev_hop_elapsed :: "nat \<Rightarrow> duration"
  ev_start :: instant
  ev_total :: duration

definition em_dash :: string where
  "em_dash = [CHR 0xE2, CHR 0x80, CHR 0x94]"

definition dead_end_message :: "('v, 'm, 'ctx, 'c, 'f) ext \<Rightarrow> node_id \<Rightarrow> string" where
  "dead_end_message X current =
     ''node '' @ node_id_str X current @ '' has no outgoing edge accepting this packet (and isn'' @
     quot @ ''t an exit point) '' @ em_dash @ '' run FlowGraph::validate() first''"

text \<open>The body of the loop: it ends the run, or hands the packet to another node.\<close>

datatype hop = HopDone "execution_error + packet option" | HopNext node_id packet

text \<open>What becomes of the packet once the module has run.\<close>

definition hop_outcome ::
    "('v, 'm, 'ctx, 'c, 'f) ext \<Rightarrow> duration \<Rightarrow> node_id \<Rightarrow> ('m, 'c, 'cfg) graph_node \<Rightarrow>
     module_error + packet option \<Rightarrow> ('m, 'c, 'cfg) flow_graph \<Rightarrow> hop" where
  "hop_outcome X elapsed current node processed g =
     (case record_and_check_processing_time X node elapsed of
        Inl e \<Rightarrow> HopDone (Inl e)
      | Inr _ \<Rightarrow>
          (case processed of
             Inl e \<Rightarrow> HopDone (Inl (ExecModule e))
           | Inr None \<Rightarrow> HopDone (Inr None)
           | Inr (Some p) \<Rightarrow>
               if current \<in> set (fg_exit_points g) then HopDone (Inr (Some p))
               else case find (\<lambda>e. edge_accepts e p) (fg_edges_from current g) of
                      None \<Rightarrow> HopDone (Inl (ExecGraph (BuildFailed (dead_end_message X current))))
                    | Some e \<Rightarrow> HopNext (ed_to e) p))"

definition sequential_hop ::
    "('v, 'm, 'ctx, 'c, 'f) ext \<Rightarrow> run_env \<Rightarrow> nat option \<Rightarrow> nat \<Rightarrow> node_id \<Rightarrow> packet \<Rightarrow>
     ('m, 'c, 'cfg) flow_graph \<Rightarrow> 'f registries \<Rightarrow> (hop \<times> ('m, 'c, 'cfg) flow_graph \<times> 'f registries) outcome" where
  "sequential_hop X env metrics n current p g s =
     (case fg_nodes g current of
        None \<Rightarrow> Ret (HopDone (Inl (ExecGraph (MissingNode (node_id_str X current)))), g, s)
      | Some node \<Rightarrow>
     (case check_payload_limit X node p of
        Inl e \<Rightarrow> Ret (HopDone (Inl e), g, s)
      | Inr _ \<Rightarrow>
     (let p = packet_update_metadata (record_hop (ev_hop_now env n) current) p
      in case enqueue_and_dequeue_sync X p node of
        (enqueued, node1) \<Rightarrow>
     obind enqueued (\<lambda>enqueued. case enqueued of
        Inl e \<Rightarrow> Ret (HopDone (Inl e), fg_write_node current node1 g, s)
      | Inr queued_packet \<Rightarrow>
     (case gn_process X queued_packet node1 of (processed, node2) \<Rightarrow>
     obind processed (\<lambda>processed.
       let elapsed = ev_hop_elapsed env n;
           g2 = fg_write_node current node2 g
       in Ret (hop_outcome X elapsed current node2 processed g2, g2,
               record_node_metrics X metrics node2 elapsed (\<not> isl processed) s)))))))"

fun sequential_loop ::
    "('v, 'm, 'ctx, 'c, 'f) ext \<Rightarrow> run_env \<Rightarrow> nat option \<Rightarrow> nat \<Rightarrow> nat \<Rightarrow> node_id \<Rightarrow> packet \<Rightarrow>
     ('m, 'c, 'cfg) flow_graph \<Rightarrow> 'f registries \<Rightarrow>
     ((execution_error + packet option) \<times> ('m, 'c, 'cfg) flow_graph \<times> 'f registries) outcome" where
  "sequential_loop X env metrics 0 n current p g s = NoFuel"
| "sequential_loop X env metrics (Suc fuel) n current p g s =
     obind (sequential_hop X env metrics n current p g s) (\<lambda>(h, g', s').
       case h of
         HopDone r \<Rightarrow> Ret (r, g', s')
       | HopNext next p' \<Rightarrow> sequential_loop X env metrics fuel (Suc n) next p' g' s')"

definition execute_sequential_inner ::
    "('v, 'm, 'ctx, 'c, 'f) ext \<Rightarrow> run_env \<Rightarrow> nat \<Rightarrow> ('m, 'c, 'cfg) flow_graph \<Rightarrow> node_id \<Rightarrow> packet \<Rightarrow>
     nat option \<Rightarrow> 'f registries \<Rightarrow>
     ((execution_error + packet option) \<times> ('m, 'c, 'cfg) flow_graph \<times> 'f registries) outcome" where
  "execute_sequential_inner X env fuel g entry p metrics s =
     (if entry \<notin> set (fg_entry_points g)
      then Ret (Inl (ExecGraph (MissingNode (node_id_str X entry))), g, s)
      else sequential_loop X env metrics fuel 0 entry p g s)"

definition execute_sequential ::
    "('v, 'm, 'ctx, 'c, 'f) ext \<Rightarrow> run_env \<Rightarrow> nat \<Rightarrow> ('m, 'c, 'cfg) flow_graph \<Rightarrow> node_id \<Rightarrow> packet \<Rightarrow>
     nat option \<Rightarrow> throughput_tracker option \<Rightarrow> 'f registries \<Rightarrow>
     ((execution_error + packet option) \<times> ('m, 'c, 'cfg) flow_graph \<times> throughput_tracker option \<times>
      'f registries) outcome" where
  "execute_sequential X env fuel g entry p metrics throughput s =
     (let (throughput, s1) =
            (case throughput of
               None \<Rightarrow> (None, s)
             | Some t \<Rightarrow>
                 (case tracker_record (x_f64 X) (ev_start env) (md_flow_id (pk_metadata p))
                         (u64_of_usize (packet_len p)) t s of (t', s') \<Rightarrow> (Some t', s')));
          s2 = record_flow_entry metrics (packet_len p) s1
      in obind (execute_sequential_inner X env fuel g entry p metrics s2) (\<lambda>(result, g', s3).
           let reached_exit = (case result of Inr (Some _) \<Rightarrow> True | _ \<Rightarrow> False)
           in Ret (result, g', throughput,
                   record_flow_exit (x_f64 X) metrics (ev_total env) reached_exit s3)))"

subsection \<open>What a run leaves alone\<close>

definition node_frame :: "('m, 'c, 'cfg) graph_node \<Rightarrow> ('m, 'c, 'cfg) graph_node \<Rightarrow> bool" where
  "node_frame a b \<longleftrightarrow>
     gn_id b = gn_id a \<and> gn_node_type b = gn_node_type a \<and> gn_config b = gn_config a \<and>
     gn_state b = gn_state a \<and> arc_ptr (gn_module b) = arc_ptr (gn_module a) \<and>
     arc_owners (gn_module b) = arc_owners (gn_module a)"

definition same_topology :: "('m, 'c, 'cfg) flow_graph \<Rightarrow> ('m, 'c, 'cfg) flow_graph \<Rightarrow> bool" where
  "same_topology g g' \<longleftrightarrow>
     fg_edges g' = fg_edges g \<and> fg_adjacency g' = fg_adjacency g \<and>
     fg_entry_points g' = fg_entry_points g \<and> fg_exit_points g' = fg_exit_points g \<and>
     fg_allowed_feedback g' = fg_allowed_feedback g \<and> dom (fg_nodes g') = dom (fg_nodes g) \<and>
     (\<forall>i a b. fg_nodes g i = Some a \<longrightarrow> fg_nodes g' i = Some b \<longrightarrow> node_frame a b)"

lemma node_frame_refl [simp]: "node_frame a a"
  by (simp add: node_frame_def)

lemma node_frame_trans: "node_frame a b \<Longrightarrow> node_frame b c \<Longrightarrow> node_frame a c"
  by (simp add: node_frame_def)

lemma same_topology_refl [simp]: "same_topology g g"
  by (auto simp: same_topology_def)

lemma same_topology_trans:
  assumes "same_topology g g'" "same_topology g' g''"
  shows "same_topology g g''"
proof -
  have "node_frame a c" if "fg_nodes g i = Some a" "fg_nodes g'' i = Some c" for i a c
  proof -
    have "i \<in> dom (fg_nodes g')"
      using that(1) assms(1) by (auto simp: same_topology_def)
    then obtain b where "fg_nodes g' i = Some b"
      by blast
    with that assms show ?thesis
      unfolding same_topology_def by (meson node_frame_trans)
  qed
  with assms show ?thesis
    by (simp add: same_topology_def)
qed

lemma same_topology_write:
  "fg_nodes g i = Some a \<Longrightarrow> node_frame a b \<Longrightarrow> same_topology g (fg_write_node i b g)"
  by (auto simp: same_topology_def fg_write_node_def)

lemma same_topology_succs: "same_topology g g' \<Longrightarrow> fg_succs g' = fg_succs g"
  by (simp add: same_topology_def fg_succs_def fun_eq_iff)

lemma same_topology_wf:
  assumes "same_topology g g'" "wf_graph g"
  shows "wf_graph g'"
proof (rule wf_graphI)
  show "gn_id b = i" if b: "fg_nodes g' i = Some b" for i b
  proof -
    have "i \<in> dom (fg_nodes g)"
      using b assms(1) by (auto simp: same_topology_def)
    then obtain a where a: "fg_nodes g i = Some a"
      by blast
    then have "node_frame a b"
      using b assms(1) by (simp add: same_topology_def)
    then show ?thesis
      using wf_graphD(3) [OF assms(2) a] by (simp add: node_frame_def)
  qed
qed (use assms wf_graphD [OF assms(2)] in \<open>simp_all add: same_topology_def\<close>)

lemma same_topology_count: "same_topology g g' \<Longrightarrow> fg_node_count g' = fg_node_count g"
  by (simp add: same_topology_def fg_node_count_def)

lemma enqueue_frame: "node_frame node (snd (enqueue_and_dequeue_sync X p node))"
  by (auto simp: enqueue_and_dequeue_sync_def node_frame_def split: prod.splits sum.splits option.splits)

lemma gn_process_node_frame: "node_frame node (snd (gn_process X p node))"
  using gn_process_frame [of X p node] by (cases "gn_process X p node") (auto simp: node_frame_def)

text \<open>
  A hop by cases: it stops before the module (missing node, oversized payload, full queue), or
  the module runs on the packet taken from the queue.
\<close>

lemma sequential_hop_cases:
  assumes "sequential_hop X env metrics n current p g s = Ret (h, g', s')"
  obtains
    (missing) "fg_nodes g current = None" "g' = g" "s' = s"
      "h = HopDone (Inl (ExecGraph (MissingNode (node_id_str X current))))"
  | (oversized) node e where "fg_nodes g current = Some node" "check_payload_limit X node p = Inl e"
      "g' = g" "s' = s" "h = HopDone (Inl e)"
  | (queue_full) node node1 e where "fg_nodes g current = Some node"
      "enqueue_and_dequeue_sync X (packet_update_metadata (record_hop (ev_hop_now env n) current) p) node =
         (Ret (Inl e), node1)"
      "g' = fg_write_node current node1 g" "s' = s" "h = HopDone (Inl e)"
  | (ran) node node1 node2 queued processed where "fg_nodes g current = Some node"
      "check_payload_limit X node p = Inr ()"
      "enqueue_and_dequeue_sync X (packet_update_metadata (record_hop (ev_hop_now env n) current) p) node =
         (Ret (Inr queued), node1)"
      "gn_process X queued node1 = (Ret processed, node2)"
      "g' = fg_write_node current node2 g"
      "s' = record_node_metrics X metrics node2 (ev_hop_elapsed env n) (\<not> isl processed) s"
      "h = hop_outcome X (ev_hop_elapsed env n) current node2 processed g'"
proof (cases "fg_nodes g current")
  case None
  show thesis
    by (rule missing [OF None]) (use assms None in \<open>simp_all add: sequential_hop_def\<close>)
next
  case (Some node)
  note node = Some
  let ?p = "packet_update_metadata (record_hop (ev_hop_now env n) current) p"
  show thesis
  proof (cases "check_payload_limit X node p")
    case (Inl e)
    show thesis
      by (rule oversized [OF node Inl]) (use assms node Inl in \<open>simp_all add: sequential_hop_def\<close>)
  next
    case limit: (Inr u)
    obtain out node1 where e: "enqueue_and_dequeue_sync X ?p node = (out, node1)"
      by fastforce
    with assms node limit obtain q where out: "out = Ret q"
      by (auto simp: sequential_hop_def Let_def obind_eq_Ret)
    show thesis
    proof (cases q)
      case (Inl err)
      show thesis
        by (rule queue_full [OF node]) (use assms node limit e out Inl in
            \<open>auto simp: sequential_hop_def Let_def outcome_simps\<close>)
    next
      case (Inr queued)
      obtain pr node2 where pr: "gn_process X queued node1 = (pr, node2)"
        by fastforce
      with assms node limit e out Inr obtain processed where pr2: "pr = Ret processed"
        by (auto simp: sequential_hop_def Let_def obind_eq_Ret outcome_simps)
      show thesis
        by (rule ran [OF node]) (use assms node limit e out Inr pr pr2 in
            \<open>auto simp: sequential_hop_def Let_def outcome_simps\<close>)
    qed
  qed
qed

text \<open>Where a packet goes on, and where it leaves.\<close>

lemma find_SomeD: "find P xs = Some x \<Longrightarrow> P x \<and> x \<in> set xs"
  by (induction xs) (auto split: if_splits)

lemma hop_outcome_next:
  "hop_outcome X el c node pr g = HopNext c' q \<Longrightarrow>
   pr = Inr (Some q) \<and> c \<notin> set (fg_exit_points g) \<and>
   (\<exists>e \<in> set (fg_edges g). ed_from e = c \<and> ed_to e = c' \<and> edge_accepts e q)"
  by (auto simp: hop_outcome_def fg_edges_from_def split: sum.splits option.splits if_splits dest!: find_SomeD)

lemma hop_outcome_exit:
  "hop_outcome X el c node pr g = HopDone (Inr (Some q)) \<Longrightarrow>
   pr = Inr (Some q) \<and> c \<in> set (fg_exit_points g)"
  by (auto simp: hop_outcome_def split: sum.splits option.splits if_splits)

lemma sequential_hop_topology:
  assumes "sequential_hop X env metrics n current p g s = Ret (h, g', s')"
  shows "same_topology g g'"
  using assms
proof (cases rule: sequential_hop_cases)
  case (queue_full node node1 e)
  then show ?thesis
    using enqueue_frame [of node X] same_topology_write by (metis snd_conv)
next
  case (ran node node1 node2 queued processed)
  then have "node_frame node node1" "node_frame node1 node2"
    using enqueue_frame [of node X] gn_process_node_frame [of node1 X queued] by (metis snd_conv)+
  then show ?thesis
    using ran(1,5) same_topology_write node_frame_trans by metis
qed auto

lemma sequential_hop_next:
  assumes "wf_graph g" "sequential_hop X env metrics n current p g s = Ret (HopNext c q, g', s')"
  shows "current \<in> dom (fg_nodes g) \<and> c \<in> set (fg_succs g current) \<and> current \<notin> set (fg_exit_points g)"
  using assms(2)
proof (cases rule: sequential_hop_cases)
  case (ran node node1 node2 queued processed)
  then have h: "hop_outcome X (ev_hop_elapsed env n) current node2 processed g' = HopNext c q"
    by simp
  have same: "fg_edges g' = fg_edges g" "fg_exit_points g' = fg_exit_points g"
    using ran(5) by (simp_all add: fg_write_node_def)
  from hop_outcome_next [OF h] ran(1) show ?thesis
    by (auto simp: same fg_succs_edge [OF assms(1)])
qed auto

lemma sequential_hop_exit:
  assumes "sequential_hop X env metrics n current p g s = Ret (HopDone (Inr (Some q)), g', s')"
  shows "current \<in> dom (fg_nodes g) \<and> current \<in> set (fg_exit_points g)"
  using assms
proof (cases rule: sequential_hop_cases)
  case (ran node node1 node2 queued processed)
  then have h: "hop_outcome X (ev_hop_elapsed env n) current node2 processed g' = HopDone (Inr (Some q))"
    by simp
  have "fg_exit_points g' = fg_exit_points g"
    using ran(5) by (simp add: fg_write_node_def)
  with hop_outcome_exit [OF h] ran(1) show ?thesis
    by auto
qed auto

lemma sequential_loop_topology:
  "sequential_loop X env metrics fuel n current p g s = Ret (r, g', s') \<Longrightarrow> same_topology g g'"
proof (induction X env metrics fuel n current p g s rule: sequential_loop.induct)
  case (1 X env metrics n current p g s)
  then show ?case by simp
next
  case (2 X env metrics fuel n current p g s)
  from "2.prems" obtain h g1 s1 where hop: "sequential_hop X env metrics n current p g s = Ret (h, g1, s1)"
    by (auto simp: obind_eq_Ret)
  note top = sequential_hop_topology [OF hop]
  show ?case
  proof (cases h)
    case (HopDone res)
    with "2.prems" hop top show ?thesis by (simp add: outcome_simps)
  next
    case (HopNext c q)
    with "2.prems" hop have "sequential_loop X env metrics fuel (Suc n) c q g1 s1 = Ret (r, g', s')"
      by (simp add: outcome_simps)
    with "2.IH" [OF hop refl refl HopNext] top show ?thesis
      by (auto intro: same_topology_trans)
  qed
qed

subsection \<open>Runs with empty queues\<close>

text \<open>
  Between runs the input queues of the nodes are empty and have room: then a hop takes out of a
  queue the packet it has just put in, and leaves the queue empty.
\<close>

definition idle_node ::
    "('c \<Rightarrow> packet list) \<Rightarrow> ('c \<Rightarrow> nat) \<Rightarrow> ('c \<Rightarrow> bool) \<Rightarrow> ('c \<Rightarrow> bool) \<Rightarrow> ('m, 'c, 'cfg) graph_node \<Rightarrow> bool" where
  "idle_node queued bound rx_open tx_open node \<longleftrightarrow>
     nq_open rx_open tx_open (gn_queue node) \<and> concat (nq_lanes queued (gn_queue node)) = [] \<and>
     (\<forall>l < 3. 0 < nq_cap bound (gn_queue node) l)"

definition idle_graph ::
    "('c \<Rightarrow> packet list) \<Rightarrow> ('c \<Rightarrow> nat) \<Rightarrow> ('c \<Rightarrow> bool) \<Rightarrow> ('c \<Rightarrow> bool) \<Rightarrow> ('m, 'c, 'cfg) flow_graph \<Rightarrow> bool" where
  "idle_graph queued bound rx_open tx_open g \<longleftrightarrow>
     (\<forall>i node. fg_nodes g i = Some node \<longrightarrow> idle_node queued bound rx_open tx_open node)"

text \<open>Modules that return from \<open>process\<close>, with a value or an error.\<close>

definition modules_return :: "('v, 'm, 'ctx, 'c, 'f) ext \<Rightarrow> bool" where
  "modules_return X \<longleftrightarrow> (\<forall>p m. \<exists>r m'. op_process (x_node X) p m = (Ret r, m'))"

text \<open>Modules that leave the trace of a packet to the runtime.\<close>

definition modules_keep_trace :: "('v, 'm, 'ctx, 'c, 'f) ext \<Rightarrow> bool" where
  "modules_keep_trace X \<longleftrightarrow>
     (\<forall>p m q m'. op_process (x_node X) p m = (Ret (Inr (Some q)), m') \<longrightarrow>
        md_traced (pk_metadata q) = md_traced (pk_metadata p) \<and>
        md_trace (pk_metadata q) = md_trace (pk_metadata p))"

lemma idle_graph_write:
  "idle_graph qd b rx tx g \<Longrightarrow> idle_node qd b rx tx node \<Longrightarrow> idle_graph qd b rx tx (fg_write_node i node g)"
  by (simp add: idle_graph_def fg_write_node_def)

lemma gn_process_returns:
  assumes "modules_return X"
  shows "\<exists>r node'. gn_process X p node = (Ret r, node')"
proof (cases "arc_get_mut (gn_module node)")
  case None
  then show ?thesis by (simp add: gn_process_def Let_def)
next
  case (Some m)
  from assms obtain r m' where "op_process (x_node X) p m = (Ret r, m')"
    unfolding modules_return_def by blast
  with Some show ?thesis by (simp add: gn_process_def Let_def)
qed

context packet_channels
begin

lemma enqueue_idle:
  assumes "x_mpsc X = ops" "idle_node queued bound rx_open tx_open node"
  shows "\<exists>q'. enqueue_and_dequeue_sync X p node = (Ret (Inr p), node\<lparr>gn_queue := q'\<rparr>) \<and>
    idle_node queued bound rx_open tx_open (node\<lparr>gn_queue := q'\<rparr>)"
proof -
  let ?q = "gn_queue node" and ?l = "lane_index (lane_for p)"
  have q: "nq_open rx_open tx_open ?q" "concat (nq_lanes queued ?q) = []" "\<forall>l < 3. 0 < nq_cap bound ?q l"
    using assms(2) by (auto simp: idle_node_def)
  have l: "?l < 3"
    by (rule lane_index_less)
  have "length (nq_lanes queued ?q) = 3"
    by (simp add: nq_lanes_def)
  with l have "nq_lanes queued ?q ! ?l \<in> set (nq_lanes queued ?q)"
    by simp
  with q(2) have "nq_lanes queued ?q ! ?l = []"
    by simp
  moreover have "0 < nq_cap bound ?q ?l"
    using q(3) l by blast
  ultimately have "length (nq_lanes queued ?q ! ?l) < nq_cap bound ?q ?l"
    by simp
  from nq.enq_room [OF q(1) this] obtain q1 where q1: "nq_offer ops p ?q = (True, q1)"
    by blast
  have "nq.pending ?q = []"
    unfolding nq.pending_def by (rule q(2))
  from nq.enq_deq_empty [OF q(1) this q1] obtain q2 where
    q2: "nq_try_recv_prioritized ops q1 = (Some p, q2)" "nq_open rx_open tx_open q2"
      "concat (nq_lanes queued q2) = []" "nq_cap bound q2 = nq_cap bound ?q"
    unfolding nq.pending_def by blast
  obtain r where r: "nq_try_send ops p ?q = (r, q1)" "\<not> isl r"
    using q1 by (cases "nq_try_send ops p ?q") (simp add: nq_offer_def)
  then obtain u where "nq_try_send ops p ?q = (Inr u, q1)"
    by (cases r) simp_all
  with q2(1) assms(1) have
    "enqueue_and_dequeue_sync X p node = (Ret (Inr p), node\<lparr>gn_queue := q2\<rparr>)"
    by (simp add: enqueue_and_dequeue_sync_def)
  moreover have "idle_node queued bound rx_open tx_open (node\<lparr>gn_queue := q2\<rparr>)"
    using q2(2-4) q(3) by (simp add: idle_node_def)
  ultimately show ?thesis by blast
qed

lemma sequential_hop_idle:
  assumes "x_mpsc X = ops" "modules_return X" "idle_graph queued bound rx_open tx_open g"
  shows "\<exists>h g' s'. sequential_hop X env metrics n current p g s = Ret (h, g', s') \<and>
    idle_graph queued bound rx_open tx_open g' \<and>
    (\<forall>q. h = HopDone (Inr (Some q)) \<or> (\<exists>c. h = HopNext c q) \<longrightarrow>
       (\<exists>m m'. op_process (x_node X) (packet_update_metadata (record_hop (ev_hop_now env n) current) p) m =
          (Ret (Inr (Some q)), m')))"
proof (cases "fg_nodes g current")
  case None
  with assms(3) show ?thesis by (simp add: sequential_hop_def)
next
  case (Some node)
  note node = Some
  let ?p = "packet_update_metadata (record_hop (ev_hop_now env n) current) p"
  show ?thesis
  proof (cases "check_payload_limit X node p")
    case (Inl e)
    with assms(3) node show ?thesis by (simp add: sequential_hop_def)
  next
    case (Inr u)
    have "idle_node queued bound rx_open tx_open node"
      using assms(3) node by (simp add: idle_graph_def)
    from enqueue_idle [OF assms(1) this, of ?p] obtain node1 where
      node1: "enqueue_and_dequeue_sync X ?p node = (Ret (Inr ?p), node1)"
        "idle_node queued bound rx_open tx_open node1"
      by blast
    from gn_process_returns [OF assms(2), of ?p node1] obtain pr node2 where
      pr: "gn_process X ?p node1 = (Ret pr, node2)"
      by blast
    have "gn_queue node2 = gn_queue node1"
      using gn_process_frame [OF pr] by simp
    then have idle: "idle_graph queued bound rx_open tx_open (fg_write_node current node2 g)"
      using idle_graph_write [OF assms(3)] node1(2) by (simp add: idle_node_def)
    let ?h = "hop_outcome X (ev_hop_elapsed env n) current node2 pr (fg_write_node current node2 g)"
    have hop: "sequential_hop X env metrics n current p g s =
        Ret (?h, fg_write_node current node2 g,
             record_node_metrics X metrics node2 (ev_hop_elapsed env n) (\<not> isl pr) s)"
      using node Inr node1(1) pr by (simp add: sequential_hop_def Let_def outcome_simps)
    have "\<exists>m m'. op_process (x_node X) ?p m = (Ret (Inr (Some q)), m')"
      if "?h = HopDone (Inr (Some q)) \<or> (\<exists>c. ?h = HopNext c q)" for q
    proof -
      have "pr = Inr (Some q)"
        using that hop_outcome_exit hop_outcome_next by blast
      with pr show ?thesis
        by (auto simp: gn_process_def Let_def split: option.splits prod.splits)
    qed
    with hop idle show ?thesis by blast
  qed
qed

end

subsection \<open>Termination\<close>

lemma acyclic_path_distinct:
  assumes "\<nexists>c. is_cycle s c" "path_in s p"
  shows "distinct p"
proof (rule ccontr)
  assume "\<not> distinct p"
  then obtain xs ys zs y where p: "p = xs @ [y] @ ys @ [y] @ zs"
    by (blast dest: not_distinct_decomp)
  then have "path_in s ((xs @ [y] @ ys @ [y]) @ zs)"
    using assms(2) by simp
  then have "path_in s (xs @ [y] @ ys @ [y])"
    by (cases "zs = []") (auto simp: path_in_append simp del: append_assoc)
  then have "path_in s ([y] @ ys @ [y])"
    by (cases "xs = []") (auto simp: path_in_append)
  then have "is_cycle s ([y] @ ys @ [y])"
    by (simp add: is_cycle_def)
  with assms(1) show False by blast
qed

text \<open>The whole run: it returns, the queues are empty again, and a packet leaves at an exit.\<close>

definition exit_route ::
    "('m, 'c, 'cfg) flow_graph \<Rightarrow> node_id \<Rightarrow> node_id list \<Rightarrow> bool" where
  "exit_route g entry w \<longleftrightarrow>
     path_in (fg_succs g) w \<and> hd w = entry \<and> last w \<in> dom (fg_nodes g) \<inter> set (fg_exit_points g)"

lemma sequential_loop_idle:
  assumes "packet_channels (x_mpsc X) queued bound rx_open tx_open" "modules_return X"
    and "\<nexists>c. is_cycle (fg_succs g) c"
  shows "wf_graph g \<Longrightarrow> idle_graph queued bound rx_open tx_open g \<Longrightarrow>
    path_in (fg_succs g) (v @ [c]) \<Longrightarrow> set v \<subseteq> dom (fg_nodes g) \<Longrightarrow> fg_node_count g < length v + fuel \<Longrightarrow>
    \<exists>r g' s'. sequential_loop X env metrics fuel n c p g s = Ret (r, g', s') \<and>
      idle_graph queued bound rx_open tx_open g' \<and>
      (\<forall>q. r = Inr (Some q) \<longrightarrow> (\<exists>w. exit_route g c w \<and>
         (modules_keep_trace X \<longrightarrow> md_traced (pk_metadata p) \<longrightarrow>
            md_trace (pk_metadata q) = md_trace (pk_metadata p) @ w)))"
  using assms(3)
proof (induction fuel arbitrary: v n c p g s)
  case 0
  have "distinct (v @ [c])"
    by (rule acyclic_path_distinct [OF "0.prems"(6,3)])
  then have "length v \<le> fg_node_count g"
    unfolding fg_node_count_def
    using distinct_card [of v] card_mono [OF wf_graphD(1) [OF "0.prems"(1)] "0.prems"(4)] by simp
  with "0.prems"(5) show ?case by simp
next
  case (Suc fuel)
  from packet_channels.sequential_hop_idle [OF assms(1) refl assms(2) Suc.prems(2), of env metrics n c p s]
  obtain h g1 s1 where hop: "sequential_hop X env metrics n c p g s = Ret (h, g1, s1)"
    and idle1: "idle_graph queued bound rx_open tx_open g1"
    and ran: "\<forall>q. h = HopDone (Inr (Some q)) \<or> (\<exists>c. h = HopNext c q) \<longrightarrow>
       (\<exists>m m'. op_process (x_node X) (packet_update_metadata (record_hop (ev_hop_now env n) c) p) m =
          (Ret (Inr (Some q)), m'))"
    by blast
  have trace: "md_traced (pk_metadata q) \<and> md_trace (pk_metadata q) = md_trace (pk_metadata p) @ [c]"
    if "h = HopDone (Inr (Some q)) \<or> (\<exists>c. h = HopNext c q)" "modules_keep_trace X" "md_traced (pk_metadata p)"
    for q
  proof -
    from ran that(1) obtain m m' where
      "op_process (x_node X) (packet_update_metadata (record_hop (ev_hop_now env n) c) p) m =
         (Ret (Inr (Some q)), m')"
      by blast
    with that(2,3) show ?thesis
      unfolding modules_keep_trace_def by (fastforce simp: packet_update_metadata_def record_hop_trace)
  qed
  note top = sequential_hop_topology [OF hop]
  show ?case
  proof (cases h)
    case (HopDone r)
    have "exit_route g c [c]" if "r = Inr (Some q)" for q
      using sequential_hop_exit [of X env metrics n c p g s q g1 s1] hop HopDone that
      by (simp add: exit_route_def)
    moreover have "md_trace (pk_metadata q) = md_trace (pk_metadata p) @ [c]"
      if "r = Inr (Some q)" "modules_keep_trace X" "md_traced (pk_metadata p)" for q
      using trace that HopDone by blast
    ultimately show ?thesis
      using hop HopDone idle1 by (auto simp: outcome_simps)
  next
    case (HopNext c' q)
    have nxt: "c \<in> dom (fg_nodes g)" "c' \<in> set (fg_succs g c)"
      using sequential_hop_next [OF Suc.prems(1), of X env metrics n c p s c' q g1 s1] hop HopNext by auto
    have succs: "fg_succs g1 = fg_succs g"
      by (rule same_topology_succs [OF top])
    have path: "path_in (fg_succs g1) ((v @ [c]) @ [c'])"
      using Suc.prems(3) nxt(2) by (subst path_in_snoc) (simp_all add: succs)
    have "set (v @ [c]) \<subseteq> dom (fg_nodes g1)"
      using Suc.prems(4) nxt(1) top by (simp add: same_topology_def)
    moreover have "fg_node_count g1 < length (v @ [c]) + fuel"
      using Suc.prems(5) same_topology_count [OF top] by simp
    moreover have "\<nexists>cyc. is_cycle (fg_succs g1) cyc"
      using Suc.prems(6) succs by simp
    ultimately obtain r g' s' where
      loop: "sequential_loop X env metrics fuel (Suc n) c' q g1 s1 = Ret (r, g', s')"
        "idle_graph queued bound rx_open tx_open g'"
        "\<forall>q'. r = Inr (Some q') \<longrightarrow> (\<exists>w. exit_route g1 c' w \<and>
         (modules_keep_trace X \<longrightarrow> md_traced (pk_metadata q) \<longrightarrow>
            md_trace (pk_metadata q') = md_trace (pk_metadata q) @ w))"
      using Suc.IH [OF same_topology_wf [OF top Suc.prems(1)] idle1 path, of "Suc n" q s1] by blast
    have route: "exit_route g c (c # w)" if "exit_route g1 c' w" for w
      using that nxt(2) top by (cases w) (auto simp: exit_route_def succs same_topology_def path_in_def)
    have "\<exists>w. exit_route g c w \<and> (modules_keep_trace X \<longrightarrow> md_traced (pk_metadata p) \<longrightarrow>
            md_trace (pk_metadata q') = md_trace (pk_metadata p) @ w)" if "r = Inr (Some q')" for q'
    proof -
      from loop(3) that obtain w where w: "exit_route g1 c' w"
        "modules_keep_trace X \<longrightarrow> md_traced (pk_metadata q) \<longrightarrow>
            md_trace (pk_metadata q') = md_trace (pk_metadata q) @ w"
        by blast
      show ?thesis
        by (intro exI [of _ "c # w"] conjI route [OF w(1)]) (use w(2) trace HopNext in auto)
    qed
    with loop(1,2) hop HopNext show ?thesis
      by (simp add: outcome_simps)
  qed
qed

subsection \<open>A whole run\<close>

lemma execute_sequential_topology:
  "execute_sequential X env fuel g entry p metrics t s = Ret (r, g', t', s') \<Longrightarrow> same_topology g g'"
  by (cases t)
    (auto simp: execute_sequential_def execute_sequential_inner_def obind_eq_Ret Let_def
      split: prod.splits if_splits dest: sequential_loop_topology)

lemma execute_sequential_runs:
  assumes "\<And>s1. \<exists>r g' s'. execute_sequential_inner X env fuel g entry p metrics s1 = Ret (r, g', s') \<and> P r g'"
  shows "\<exists>r g' t' s'. execute_sequential X env fuel g entry p metrics t s = Ret (r, g', t', s') \<and> P r g'"
proof -
  obtain t1 s1 where ts: "(case t of
               None \<Rightarrow> (None, s)
             | Some t \<Rightarrow>
                 (case tracker_record (x_f64 X) (ev_start env) (md_flow_id (pk_metadata p))
                         (u64_of_usize (packet_len p)) t s of (t', s') \<Rightarrow> (Some t', s'))) = (t1, s1)"
    by fastforce
  from assms [of "record_flow_entry metrics (packet_len p) s1"] obtain r g' s' where
    "execute_sequential_inner X env fuel g entry p metrics (record_flow_entry metrics (packet_len p) s1) =
       Ret (r, g', s')" "P r g'"
    by blast
  then show ?thesis
    by (simp add: execute_sequential_def ts outcome_simps)
qed

text \<open>
  C1. Sequential execution is total on acyclic graphs: if no route of the graph is a cycle, all
  input queues are empty and have room, and modules return from \<open>process\<close> (with a value or an
  error), then one unit of fuel more than there are nodes is enough for the run to return. The
  queues are empty again, the graph has the nodes, edges and marks it had, and a packet that
  comes out has followed a route from an entry point to an exit point; if it is traced and the
  modules leave the trace alone, its trace has grown by exactly that route.
\<close>

theorem execute_sequential_total:
  assumes "packet_channels (x_mpsc X) queued bound rx_open tx_open" "modules_return X"
    and "wf_graph g" "\<nexists>c. is_cycle (fg_succs g) c" "idle_graph queued bound rx_open tx_open g"
    and "fg_node_count g < fuel"
  shows "\<exists>r g' t' s'. execute_sequential X env fuel g entry p metrics t s = Ret (r, g', t', s') \<and>
    same_topology g g' \<and> idle_graph queued bound rx_open tx_open g' \<and>
    (\<forall>q. r = Inr (Some q) \<longrightarrow> entry \<in> set (fg_entry_points g) \<and>
       (\<exists>w. exit_route g entry w \<and>
         (modules_keep_trace X \<longrightarrow> md_traced (pk_metadata p) \<longrightarrow>
            md_trace (pk_metadata q) = md_trace (pk_metadata p) @ w)))"
    (is "\<exists>r g' t' s'. _ \<and> ?P g' \<and> ?Q g' \<and> ?R r")
proof -
  have "\<exists>r g' s'. execute_sequential_inner X env fuel g entry p metrics s1 = Ret (r, g', s') \<and> ?Q g' \<and> ?R r" for s1
  proof (cases "entry \<in> set (fg_entry_points g)")
    case False
    with assms(5) show ?thesis by (simp add: execute_sequential_inner_def)
  next
    case True
    have "path_in (fg_succs g) ([] @ [entry])"
      by (simp add: path_in_def)
    from sequential_loop_idle [OF assms(1,2,4,3,5) this, of fuel env metrics 0 p s1] assms(6) True
    show ?thesis
      by (simp add: execute_sequential_inner_def)
  qed
  from execute_sequential_runs [of X env fuel g entry p metrics "\<lambda>r g'. ?Q g' \<and> ?R r", OF this]
  obtain r g' t' s' where run: "execute_sequential X env fuel g entry p metrics t s = Ret (r, g', t', s')"
    and post: "?Q g'" "?R r"
    by blast
  from execute_sequential_topology [OF run] run post show ?thesis
    by blast
qed

subsection \<open>Metrics of a run\<close>

text \<open>No metric of a node has the name of a counter or histogram of the flow.\<close>

lemma metric_name_differs:
  assumes "rev a @ CHR ''.'' # rev m \<noteq> rev b @ CHR ''.'' # rev m'"
  shows "metric_name m a \<noteq> metric_name m' b"
proof
  assume "metric_name m a = metric_name m' b"
  then have "rev (m @ ''.'' @ a) = rev (m' @ ''.'' @ b)"
    by (simp add: metric_name_def)
  with assms show False
    by simp
qed

lemma node_counters_not_flow:
  "metric_name FLOW_METRICS_SCOPE ''packets_total'' \<noteq> metric_name m ''process_calls_total''"
  "metric_name FLOW_METRICS_SCOPE ''packets_total'' \<noteq> metric_name m ''errors_total''"
  "metric_name FLOW_METRICS_SCOPE ''packets_dropped'' \<noteq> metric_name m ''process_calls_total''"
  "metric_name FLOW_METRICS_SCOPE ''packets_dropped'' \<noteq> metric_name m ''errors_total''"
  "metric_name FLOW_METRICS_SCOPE ''bytes_total'' \<noteq> metric_name m ''process_calls_total''"
  "metric_name FLOW_METRICS_SCOPE ''bytes_total'' \<noteq> metric_name m ''errors_total''"
  "metric_name FLOW_METRICS_SCOPE ''packet_latency_us'' \<noteq> metric_name m ''process_duration_us''"
  by (rule metric_name_differs, simp)+

text \<open>The readings of the flow's own metrics: packets, bytes and drops, and packets with a latency.\<close>

record flow_readings =
  fr_packets :: u64
  fr_bytes :: u64
  fr_dropped :: u64
  fr_latencies :: u64

definition flow_readings :: "'f metric_registry \<Rightarrow> flow_readings" where
  "flow_readings r =
     \<lparr>fr_packets = counter_value FLOW_METRICS_SCOPE ''packets_total'' r,
      fr_bytes = counter_value FLOW_METRICS_SCOPE ''bytes_total'' r,
      fr_dropped = counter_value FLOW_METRICS_SCOPE ''packets_dropped'' r,
      fr_latencies = histogram_total FLOW_METRICS_SCOPE ''packet_latency_us'' r\<rparr>"

lemma record_node_metrics_flow:
  "flow_readings (record_node_metrics X metrics node el ok s i) = flow_readings (s i)"
  by (cases metrics)
    (auto simp: record_node_metrics_def on_registry_Some flow_readings_def Let_def
      counter_value_increment histogram_total_record node_counters_not_flow)

lemma sequential_hop_flow:
  assumes "sequential_hop X env metrics n current p g s = Ret (h, g', s')"
  shows "flow_readings (s' i) = flow_readings (s i)"
  using assms by (cases rule: sequential_hop_cases) (simp_all add: record_node_metrics_flow)

lemma sequential_loop_flow:
  "sequential_loop X env metrics fuel n current p g s = Ret (r, g', s') \<Longrightarrow>
   flow_readings (s' i) = flow_readings (s i)"
proof (induction X env metrics fuel n current p g s rule: sequential_loop.induct)
  case (1 X env metrics n current p g s)
  then show ?case by simp
next
  case (2 X env metrics fuel n current p g s)
  from "2.prems" obtain h g1 s1 where hop: "sequential_hop X env metrics n current p g s = Ret (h, g1, s1)"
    by (auto simp: obind_eq_Ret)
  note flow = sequential_hop_flow [OF hop]
  show ?case
  proof (cases h)
    case (HopDone res)
    with "2.prems" hop flow show ?thesis by (simp add: outcome_simps)
  next
    case (HopNext c q)
    with "2.prems" hop have "sequential_loop X env metrics fuel (Suc n) c q g1 s1 = Ret (r, g', s')"
      by (simp add: outcome_simps)
    with "2.IH" [OF hop refl refl HopNext] flow show ?thesis
      by simp
  qed
qed

lemma export_gauges_flow: "flow_readings (export_gauges F t s i) = flow_readings (s i)"
  by (cases "tt_metrics t") (auto simp: export_gauges_def on_registry_Some flow_readings_def)

lemma tracker_record_flow: "flow_readings (snd (tracker_record F now fl n t s) i) = flow_readings (s i)"
  by (simp add: tracker_record_def Let_def export_gauges_flow)

lemma record_flow_entry_flow:
  "flow_readings (record_flow_entry (Some i) len s i) =
   flow_readings (s i)\<lparr>fr_packets := fr_packets (flow_readings (s i)) + 1,
     fr_bytes := fr_bytes (flow_readings (s i)) + u64_of_usize len\<rparr>"
  by (simp add: record_flow_entry_def on_registry_Some flow_readings_def Let_def
      counter_value_increment metric_name_eq_name)

lemma record_flow_exit_flow:
  "flow_readings (record_flow_exit F (Some i) el reached s i) =
   (if reached then flow_readings (s i)\<lparr>fr_latencies := fr_latencies (flow_readings (s i)) + 1\<rparr>
    else flow_readings (s i)\<lparr>fr_dropped := fr_dropped (flow_readings (s i)) + 1\<rparr>)"
  by (simp add: record_flow_exit_def on_registry_Some flow_readings_def Let_def
      counter_value_increment histogram_total_record metric_name_eq_name)

text \<open>
  Every packet handed to sequential execution is accounted for exactly once: the registry
  counts one packet and its bytes on entry and, when the run returns, either one latency
  observation (the packet left at an exit point) or one dropped packet (it was consumed, or an
  error ended the run), whatever the nodes on the way are called and record, and whether or
  not a throughput tracker exports to the same registry.
\<close>

theorem flow_metrics_account:
  assumes "execute_sequential X env fuel g entry p (Some i) t s = Ret (r, g', t', s')"
  shows "flow_readings (s' i) =
    (let r0 = flow_readings (s i);
         r1 = r0\<lparr>fr_packets := fr_packets r0 + 1, fr_bytes := fr_bytes r0 + u64_of_usize (packet_len p)\<rparr>
     in case r of Inr (Some q) \<Rightarrow> r1\<lparr>fr_latencies := fr_latencies r0 + 1\<rparr>
        | _ \<Rightarrow> r1\<lparr>fr_dropped := fr_dropped r0 + 1\<rparr>)"
proof -
  obtain t1 s1 where ts: "(case t of
               None \<Rightarrow> (None, s)
             | Some t \<Rightarrow>
                 (case tracker_record (x_f64 X) (ev_start env) (md_flow_id (pk_metadata p))
                         (u64_of_usize (packet_len p)) t s of (t', s') \<Rightarrow> (Some t', s'))) = (t1, s1)"
    by fastforce
  have s1: "flow_readings (s1 i) = flow_readings (s i)"
  proof (cases t)
    case None
    with ts show ?thesis by simp
  next
    case (Some tr)
    with ts tracker_record_flow [of "x_f64 X" "ev_start env" "md_flow_id (pk_metadata p)"
        "u64_of_usize (packet_len p)" tr s i]
    show ?thesis by (auto split: prod.splits)
  qed
  let ?s2 = "record_flow_entry (Some i) (packet_len p) s1"
  from assms obtain s3 where
    inner: "execute_sequential_inner X env fuel g entry p (Some i) ?s2 = Ret (r, g', s3)"
    and s': "s' = record_flow_exit (x_f64 X) (Some i) (ev_total env)
      (case r of Inr (Some _) \<Rightarrow> True | _ \<Rightarrow> False) s3"
    by (auto simp: execute_sequential_def ts obind_eq_Ret Let_def)
  have "flow_readings (s3 i) = flow_readings (?s2 i)"
    using inner by (auto simp: execute_sequential_inner_def split: if_splits intro: sequential_loop_flow)
  then show ?thesis
    unfolding s' record_flow_exit_flow
    by (simp add: record_flow_entry_flow s1 Let_def split: sum.splits option.splits)
qed

end
