(* ===== verification/Parallel.thy ===== *)
theory Parallel
  imports Execution "HOL-Library.Multiset_Order"
begin

text \<open>
  Parallel execution (\<open>execute_parallel\<close> of \<open>crates/nyarix-graph/src/execution.rs\<close>) as an
  interleaving of branches. A branch is a task; a task that has spawned others is the tree of
  them. A step of a branch is what it does between two points where it may wait: the graph's
  lock, a permit of the semaphore, room in a queue, the end of a child.

  A branch that fails lets its other children go: dropping a \<open>JoinSet\<close> cancels its tasks at their
  next point of waiting. Until then they are the orphans of the run, which may take steps or
  vanish at any time. The clock is an argument of the steps that read it, and the text of a
  \<open>JoinError\<close> one of the relation. Only the run itself changes the graph.
\<close>

subsection \<open>Branches\<close>

datatype walk_step = Absorbed | Exited packet | Continue packet "(edge_type \<times> node_id) list"

text \<open>
  The first component says whether the task holds a permit: every task but the first does,
  once it runs. The state \<open>Receiving\<close> is between the two halves of \<open>walk_node\<close>.
\<close>

datatype branch =
    WaitPermit node_id packet
  | Entering bool node_id packet
  | Sending bool node_id packet
  | Receiving bool node_id
  | Joining bool "branch list" "packet list"
  | Finished "execution_error + packet list"
  | Panicked string

record ('m, 'c, 'cfg, 'f) par_state =
  ps_graph :: "('m, 'c, 'cfg) flow_graph"
  ps_permits :: nat
  ps_regs :: "'f registries"

text \<open>The first half of \<open>walk_node\<close>, up to the queue.\<close>

definition enter_node ::
    "('v, 'm, 'ctx, 'c, 'f) ext \<Rightarrow> node_id \<Rightarrow> packet \<Rightarrow> ('m, 'c, 'cfg) flow_graph \<Rightarrow> execution_error + unit" where
  "enter_node X current p g =
     (case fg_nodes g current of
        None \<Rightarrow> Inl (ExecGraph (MissingNode (node_id_str X current)))
      | Some node \<Rightarrow> check_payload_limit X node p)"

definition queue_closed :: "('v, 'm, 'ctx, 'c, 'f) ext \<Rightarrow> node_id \<Rightarrow> execution_error" where
  "queue_closed X current =
     ExecGraph (BuildFailed (''node '' @ node_id_str X current @ '' input queue closed''))"

text \<open>The second half: what the module made of the packet, and where it goes.\<close>

definition walk_outcome ::
    "('v, 'm, 'ctx, 'c, 'f) ext \<Rightarrow> duration \<Rightarrow> node_id \<Rightarrow> ('m, 'c, 'cfg) graph_node \<Rightarrow>
     module_error + packet option \<Rightarrow> ('m, 'c, 'cfg) flow_graph \<Rightarrow> execution_error + walk_step" where
  "walk_outcome X elapsed current node outcome g =
     (case record_and_check_processing_time X node elapsed of
        Inl e \<Rightarrow> Inl e
      | Inr _ \<Rightarrow>
          (case outcome of
             Inl e \<Rightarrow> Inl (ExecModule e)
           | Inr None \<Rightarrow> Inr Absorbed
           | Inr (Some processed) \<Rightarrow>
               if current \<in> set (fg_exit_points g) then Inr (Exited processed)
               else Inr (Continue processed
                      (map (\<lambda>e. (ed_type e, ed_to e))
                         (filter (\<lambda>e. edge_accepts e processed) (fg_edges_from current g))))))"

text \<open>
  \<open>None\<close> is a wait that does not end here: for a packet, or for a module that does not return.
\<close>

definition receive_and_process ::
    "('v, 'm, 'ctx, 'c, 'f) ext \<Rightarrow> nat option \<Rightarrow> duration \<Rightarrow> node_id \<Rightarrow> ('m, 'c, 'cfg) flow_graph \<Rightarrow>
     'f registries \<Rightarrow> ((execution_error + walk_step) outcome \<times> ('m, 'c, 'cfg) flow_graph \<times> 'f registries) option" where
  "receive_and_process X metrics elapsed current g s =
     (case fg_nodes g current of
        None \<Rightarrow> Some (Ret (Inl (ExecGraph (MissingNode (node_id_str X current)))), g, s)
      | Some node \<Rightarrow>
     (case nq_recv (x_mpsc X) (gn_queue node) of
        (Pending, q) \<Rightarrow> None
      | (Ready None, q) \<Rightarrow>
          Some (Panic (''a packet was just enqueued into this node'' @ quot @ ''s own queue''),
                fg_write_node current (node\<lparr>gn_queue := q\<rparr>) g, s)
      | (Ready (Some queued_packet), q) \<Rightarrow>
     (case gn_process X queued_packet (node\<lparr>gn_queue := q\<rparr>) of
        (outcome, node2) \<Rightarrow>
          (let g2 = fg_write_node current node2 g
           in case outcome of
                NoFuel \<Rightarrow> None
              | Panic m \<Rightarrow> Some (Panic m, g2, s)
              | Ret r \<Rightarrow>
                  Some (Ret (walk_outcome X elapsed current node2 r g2), g2,
                        record_node_metrics X metrics node2 elapsed (\<not> isl r) s)))))"

text \<open>The body of the loop of \<open>run_branch\<close> after \<open>walk_node\<close>.\<close>

definition parallel_targets :: "(edge_type \<times> node_id) list \<Rightarrow> node_id list" where
  "parallel_targets edges = map snd (filter (\<lambda>(ty, _). ty = Parallel) edges)"

definition after_walk ::
    "('v, 'm, 'ctx, 'c, 'f) ext \<Rightarrow> bool \<Rightarrow> node_id \<Rightarrow> execution_error + walk_step \<Rightarrow> branch" where
  "after_walk X held current r =
     (case r of
        Inl e \<Rightarrow> Finished (Inl e)
      | Inr Absorbed \<Rightarrow> Finished (Inr [])
      | Inr (Exited p) \<Rightarrow> Finished (Inr [p])
      | Inr (Continue p edges) \<Rightarrow>
          if parallel_targets edges = []
          then (case edges of
                  [] \<Rightarrow> Finished (Inl (ExecGraph (BuildFailed (dead_end_message X current))))
                | (_, to) # _ \<Rightarrow> Entering held to p)
          else Joining held (map (\<lambda>t. WaitPermit t p) (parallel_targets edges)) [])"

text \<open>A task that ends gives its permit back.\<close>

fun ended :: "branch \<Rightarrow> bool" where
  "ended (Finished r) = True"
| "ended (Panicked m) = True"
| "ended _ = False"

definition settle :: "bool \<Rightarrow> branch \<Rightarrow> ('m, 'c, 'cfg, 'f) par_state \<Rightarrow> ('m, 'c, 'cfg, 'f) par_state" where
  "settle held b st = (if held \<and> ended b then st\<lparr>ps_permits := ps_permits st + 1\<rparr> else st)"

definition put_graph ::
    "('m, 'c, 'cfg) flow_graph \<Rightarrow> 'f registries \<Rightarrow> ('m, 'c, 'cfg, 'f) par_state \<Rightarrow> ('m, 'c, 'cfg, 'f) par_state" where
  "put_graph g s st = st\<lparr>ps_graph := g, ps_regs := s\<rparr>"

subsection \<open>Steps\<close>

inductive branch_step ::
    "(string \<Rightarrow> string) \<Rightarrow> ('v, 'm, 'ctx, 'c, 'f) ext \<Rightarrow> nat option \<Rightarrow>
     ('m, 'c, 'cfg, 'f) par_state \<Rightarrow> branch \<Rightarrow> ('m, 'c, 'cfg, 'f) par_state \<Rightarrow> branch \<Rightarrow> branch list \<Rightarrow> bool"
  for J X metrics where
  step_permit:
    "0 < ps_permits st \<Longrightarrow>
     branch_step J X metrics st (WaitPermit n p) (st\<lparr>ps_permits := ps_permits st - 1\<rparr>) (Entering True n p) []"
| step_refused:
    "enter_node X n p (ps_graph st) = Inl e \<Longrightarrow>
     branch_step J X metrics st (Entering h n p) (settle h (Finished (Inl e)) st) (Finished (Inl e)) []"
| step_enter:
    "enter_node X n p (ps_graph st) = Inr u \<Longrightarrow>
     branch_step J X metrics st (Entering h n p) st
       (Sending h n (packet_update_metadata (record_hop now n) p)) []"
| step_send:
    "fg_nodes (ps_graph st) n = Some node \<Longrightarrow>
     nq_send (x_mpsc X) p (gn_queue node) = (Ready (Inr u), q) \<Longrightarrow>
     branch_step J X metrics st (Sending h n p)
       (put_graph (fg_write_node n (node\<lparr>gn_queue := q\<rparr>) (ps_graph st)) (ps_regs st) st) (Receiving h n) []"
| step_closed:
    "fg_nodes (ps_graph st) n = Some node \<Longrightarrow>
     nq_send (x_mpsc X) p (gn_queue node) = (Ready (Inl p'), q) \<Longrightarrow>
     b = Finished (Inl (queue_closed X n)) \<Longrightarrow>
     branch_step J X metrics st (Sending h n p)
       (settle h b (put_graph (fg_write_node n (node\<lparr>gn_queue := q\<rparr>) (ps_graph st)) (ps_regs st) st)) b []"
| step_gone:
    "fg_nodes (ps_graph st) n = None \<Longrightarrow> b = Finished (Inl (queue_closed X n)) \<Longrightarrow>
     branch_step J X metrics st (Sending h n p) (settle h b st) b []"
| step_receive:
    "receive_and_process X metrics elapsed n (ps_graph st) (ps_regs st) = Some (Ret r, g, s) \<Longrightarrow>
     b = after_walk X h n r \<Longrightarrow>
     branch_step J X metrics st (Receiving h n) (settle h b (put_graph g s st)) b []"
| step_panic:
    "receive_and_process X metrics elapsed n (ps_graph st) (ps_regs st) = Some (Panic m, g, s) \<Longrightarrow>
     branch_step J X metrics st (Receiving h n) (settle h (Panicked m) (put_graph g s st)) (Panicked m) []"
| step_join:
    "branch_step J X metrics st (Joining h (cs @ Finished (Inr ps) # ds) results) st
       (Joining h (cs @ ds) (results @ ps)) []"
| step_join_failed:
    "branch_step J X metrics st (Joining h (cs @ Finished (Inl e) # ds) results)
       (settle h (Finished (Inl e)) st) (Finished (Inl e)) (cs @ ds)"
| step_join_panicked:
    "b = Finished (Inl (ExecGraph (BuildFailed (''parallel branch task panicked: '' @ J m)))) \<Longrightarrow>
     branch_step J X metrics st (Joining h (cs @ Panicked m # ds) results) (settle h b st) b (cs @ ds)"
| step_joined:
    "branch_step J X metrics st (Joining h [] results) (settle h (Finished (Inr results)) st)
       (Finished (Inr results)) []"
| step_child:
    "branch_step J X metrics st c st' c' os \<Longrightarrow>
     branch_step J X metrics st (Joining h (cs @ c # ds) results) st' (Joining h (cs @ c' # ds) results) os"

text \<open>The permits a branch holds itself and with its children.\<close>

fun own_permits :: "branch \<Rightarrow> nat" where
  "own_permits (Entering h n p) = of_bool h"
| "own_permits (Sending h n p) = of_bool h"
| "own_permits (Receiving h n) = of_bool h"
| "own_permits (Joining h cs rs) = of_bool h"
| "own_permits _ = 0"

fun children :: "branch \<Rightarrow> branch list" where
  "children (Joining h cs rs) = cs"
| "children _ = []"

fun held :: "branch \<Rightarrow> nat" where
  "held (WaitPermit n p) = 0"
| "held (Entering h n p) = of_bool h"
| "held (Sending h n p) = of_bool h"
| "held (Receiving h n) = of_bool h"
| "held (Joining h cs rs) = of_bool h + sum_list (map held cs)"
| "held (Finished r) = 0"
| "held (Panicked m) = 0"

type_synonym ('m, 'c, 'cfg, 'f) par_run = "('m, 'c, 'cfg, 'f) par_state \<times> branch \<times> branch list"

inductive par_step ::
    "(string \<Rightarrow> string) \<Rightarrow> ('v, 'm, 'ctx, 'c, 'f) ext \<Rightarrow> nat option \<Rightarrow>
     ('m, 'c, 'cfg, 'f) par_run \<Rightarrow> ('m, 'c, 'cfg, 'f) par_run \<Rightarrow> bool"
  for J X metrics where
  par_root:
    "branch_step J X metrics st b st' b' os \<Longrightarrow> par_step J X metrics (st, b, orphans) (st', b', orphans @ os)"
| par_orphan:
    "branch_step J X metrics st c st' c' os \<Longrightarrow>
     par_step J X metrics (st, b, cs @ c # ds) (st', b, cs @ c' # ds @ os)"
| par_abort:
    "par_step J X metrics (st, b, cs @ c # ds) 
       (st\<lparr>ps_permits := ps_permits st + own_permits c\<rparr>, b, cs @ ds @ children c)"

text \<open>The state in which \<open>execute_parallel\<close> starts, and what it gives when the first task ends.\<close>

definition execute_parallel_start ::
    "('v, 'm, 'ctx, 'c, 'f) ext \<Rightarrow> ('m, 'c, 'cfg) flow_graph \<Rightarrow> node_id \<Rightarrow> packet \<Rightarrow> nat \<Rightarrow> nat option \<Rightarrow>
     'f registries \<Rightarrow> ('m, 'c, 'cfg, 'f) par_run" where
  "execute_parallel_start X g entry p max_concurrent_branches metrics s =
     (\<lparr>ps_graph = g, ps_permits = max max_concurrent_branches 1,
       ps_regs = record_flow_entry metrics (packet_len p) s\<rparr>,
      if entry \<notin> set (fg_entry_points g) then Finished (Inl (ExecGraph (MissingNode (node_id_str X entry))))
      else Entering False entry p,
      [])"

definition execute_parallel_end ::
    "('v, 'm, 'ctx, 'c, 'f) ext \<Rightarrow> nat option \<Rightarrow> duration \<Rightarrow> ('m, 'c, 'cfg, 'f) par_run \<Rightarrow>
     ((execution_error + packet list) \<times> ('m, 'c, 'cfg) flow_graph \<times> 'f registries) option" where
  "execute_parallel_end X metrics elapsed run =
     (case run of
        (st, Finished result, _) \<Rightarrow>
          (let reached_exit = (case result of Inr results \<Rightarrow> results \<noteq> [] | Inl _ \<Rightarrow> False)
           in Some (result, ps_graph st,
                    record_flow_exit (x_f64 X) metrics elapsed reached_exit (ps_regs st)))
      | _ \<Rightarrow> None)"

abbreviation par_reach ::
    "(string \<Rightarrow> string) \<Rightarrow> ('v, 'm, 'ctx, 'c, 'f) ext \<Rightarrow> nat option \<Rightarrow>
     ('m, 'c, 'cfg, 'f) par_run \<Rightarrow> ('m, 'c, 'cfg, 'f) par_run \<Rightarrow> bool" where
  "par_reach J X metrics \<equiv> (par_step J X metrics)\<^sup>*\<^sup>*"

subsection \<open>Permits\<close>

lemma held_own: "held b = own_permits b + sum_list (map held (children b))"
  by (cases b) simp_all

lemma settle_fields [simp]:
  "ps_graph (settle h b st) = ps_graph st" "ps_regs (settle h b st) = ps_regs st"
  "ps_permits (settle h b st) = ps_permits st + (if h \<and> ended b then 1 else 0)"
  by (simp_all add: settle_def)

lemma put_graph_fields [simp]:
  "ps_graph (put_graph g s st) = g" "ps_regs (put_graph g s st) = s"
  "ps_permits (put_graph g s st) = ps_permits st"
  by (simp_all add: put_graph_def)

lemma sum_zero_map: "(\<forall>x \<in> set xs. f x = (0 :: nat)) \<Longrightarrow> sum_list (map f xs) = 0"
  by (induction xs) simp_all

lemma after_walk_held:
  "held (after_walk X h n r) + (if h \<and> ended (after_walk X h n r) then 1 else 0) = of_bool h"
  by (auto simp: after_walk_def o_def split: sum.split walk_step.split list.split)

lemma branch_step_permits:
  "branch_step J X metrics st b st' b' os \<Longrightarrow>
   ps_permits st' + held b' + sum_list (map held os) = ps_permits st + held b"
proof (induction rule: branch_step.induct)
  case (step_receive elapsed n st r g s b h)
  then show ?case
    using after_walk_held [of X h n r] by simp
qed simp_all

definition run_permits :: "('m, 'c, 'cfg, 'f) par_run \<Rightarrow> nat" where
  "run_permits = (\<lambda>(st, b, os). ps_permits st + held b + sum_list (map held os))"

lemma par_step_permits: "par_step J X metrics r r' \<Longrightarrow> run_permits r' = run_permits r"
proof (induction rule: par_step.induct)
  case (par_root st b st' b' os orphans)
  then show ?case
    using branch_step_permits [OF par_root] by (simp add: run_permits_def)
next
  case (par_orphan st c st' c' os b cs ds)
  then show ?case
    using branch_step_permits [OF par_orphan] by (simp add: run_permits_def)
next
  case (par_abort st b cs c ds)
  then show ?case
    using held_own [of c] by (simp add: run_permits_def)
qed

lemma par_reach_permits: "par_reach J X metrics r r' \<Longrightarrow> run_permits r' = run_permits r"
  by (induction rule: rtranclp_induct) (simp_all add: par_step_permits)

text \<open>
  How many tasks of a branch are running: started, which means past the wait for a permit, and not
  over. This looks at where the tasks are and not at the permits they are said to hold. The first
  task of a run is not spawned and needs no permit; \<open>guarded\<close> says that every other one has its own.
\<close>

fun running :: "branch \<Rightarrow> nat" where
  "running (WaitPermit n p) = 0"
| "running (Entering h n p) = 1"
| "running (Sending h n p) = 1"
| "running (Receiving h n) = 1"
| "running (Joining h cs rs) = 1 + sum_list (map running cs)"
| "running (Finished r) = 0"
| "running (Panicked m) = 0"

fun guarded :: "bool \<Rightarrow> branch \<Rightarrow> bool" where
  "guarded k (WaitPermit n p) = k"
| "guarded k (Entering h n p) = (h = k)"
| "guarded k (Sending h n p) = (h = k)"
| "guarded k (Receiving h n) = (h = k)"
| "guarded k (Joining h cs rs) = (h = k \<and> (\<forall>c \<in> set cs. guarded True c))"
| "guarded k (Finished r) = True"
| "guarded k (Panicked m) = True"

lemma guarded_held: "guarded True b \<Longrightarrow> held b = running b"
proof (induction b)
  case (Joining h cs rs)
  then have "\<forall>c \<in> set cs. held c = running c" and "h"
    by simp_all
  then show ?case
    by (simp cong: map_cong)
qed simp_all

lemma guarded_children: "guarded k b \<Longrightarrow> \<forall>c \<in> set (children b). guarded True c"
  by (cases b) simp_all

lemma guarded_first: "guarded False b \<Longrightarrow> held b = sum_list (map running (children b))"
  using guarded_children [of False b] by (cases b) (auto simp: guarded_held cong: map_cong)

lemma after_walk_guarded: "guarded h (after_walk X h n r)"
  by (auto simp: after_walk_def split: sum.split walk_step.split list.split)

lemma branch_step_guarded:
  "branch_step J X metrics st b st' b' os \<Longrightarrow> guarded k b \<Longrightarrow>
   guarded k b' \<and> (\<forall>c \<in> set os. guarded True c)"
  by (induction arbitrary: k rule: branch_step.induct) (auto simp: after_walk_guarded)

lemma par_step_guarded:
  "par_step J X metrics (st, b, os) (st', b', os') \<Longrightarrow> guarded False b \<Longrightarrow> \<forall>c \<in> set os. guarded True c \<Longrightarrow>
   guarded False b' \<and> (\<forall>c \<in> set os'. guarded True c)"
proof (erule par_step.cases, goal_cases)
  case (1 st0 b0 st1 b1 new orphans)
  then show ?case
    using branch_step_guarded [of J X metrics st0 b0 st1 b1 new False] by auto
next
  case (2 st0 c st1 c1 new b0 cs ds)
  then show ?case
    using branch_step_guarded [of J X metrics st0 c st1 c1 new True] by auto
next
  case (3 st0 b0 cs c ds)
  then show ?case
    using guarded_children [of True c] by auto
qed

lemma start_guarded:
  "execute_parallel_start X g entry p k metrics s = (st, b, os) \<Longrightarrow> guarded False b \<and> os = []"
  by (auto simp: execute_parallel_start_def split: if_splits)

lemma par_reach_guarded:
  assumes "par_reach J X metrics r r'" "guarded False (fst (snd r))" "\<forall>c \<in> set (snd (snd r)). guarded True c"
  shows "guarded False (fst (snd r')) \<and> (\<forall>c \<in> set (snd (snd r')). guarded True c)"
  using assms
proof (induction rule: rtranclp_induct)
  case (step y z)
  obtain st b os st' b' os' where "y = (st, b, os)" "z = (st', b', os')"
    by (metis prod_cases3)
  with step show ?case
    using par_step_guarded [of J X metrics st b os st' b' os'] by simp
qed simp

subsection \<open>Queues\<close>

text \<open>How many tasks of a branch wait to take a packet from the queue of a node.\<close>

fun receivers :: "node_id \<Rightarrow> branch \<Rightarrow> nat" where
  "receivers i (Receiving h n) = of_bool (i = n)"
| "receivers i (Joining h cs rs) = sum_list (map (receivers i) cs)"
| "receivers i _ = 0"

definition open_graph ::
    "('c \<Rightarrow> nat) \<Rightarrow> ('c \<Rightarrow> bool) \<Rightarrow> ('c \<Rightarrow> bool) \<Rightarrow> ('m, 'c, 'cfg) flow_graph \<Rightarrow> bool" where
  "open_graph bound rx_open tx_open g \<longleftrightarrow>
     (\<forall>i node. fg_nodes g i = Some node \<longrightarrow>
        nq_open rx_open tx_open (gn_queue node) \<and> (\<forall>l < 3. 0 < nq_cap bound (gn_queue node) l))"

definition queued_at :: "('c \<Rightarrow> packet list) \<Rightarrow> ('m, 'c, 'cfg) flow_graph \<Rightarrow> node_id \<Rightarrow> nat" where
  "queued_at queued g i =
     (case fg_nodes g i of None \<Rightarrow> 0 | Some node \<Rightarrow> length (concat (nq_lanes queued (gn_queue node))))"

lemma open_graphD:
  assumes "open_graph bound rx_open tx_open g" "fg_nodes g i = Some node"
  shows "nq_open rx_open tx_open (gn_queue node)" "l < 3 \<Longrightarrow> 0 < nq_cap bound (gn_queue node) l"
  using assms by (auto simp: open_graph_def)

lemma open_graph_write:
  "open_graph bound rx tx g \<Longrightarrow> nq_open rx tx (gn_queue node) \<Longrightarrow>
   (\<forall>l < 3. 0 < nq_cap bound (gn_queue node) l) \<Longrightarrow> open_graph bound rx tx (fg_write_node i node g)"
  by (simp add: open_graph_def fg_write_node_def)

lemma queued_at_write:
  "queued_at queued (fg_write_node i node g) =
   (queued_at queued g)(i := length (concat (nq_lanes queued (gn_queue node))))"
  by (simp add: queued_at_def fg_write_node_def fun_eq_iff)

lemma walk_outcome_continue:
  "walk_outcome X elapsed n node r g = Inr (Continue p es) \<Longrightarrow>
   n \<notin> set (fg_exit_points g) \<and>
   es = map (\<lambda>e. (ed_type e, ed_to e)) (filter (\<lambda>e. edge_accepts e p) (fg_edges_from n g))"
  by (auto simp: walk_outcome_def split: sum.splits option.splits if_splits)

lemma walk_outcome_exited:
  "walk_outcome X elapsed n node r g = Inr (Exited p) \<Longrightarrow> n \<in> set (fg_exit_points g)"
  by (auto simp: walk_outcome_def split: sum.splits option.splits if_splits)

context packet_channels
begin

lemma nq_send_room:
  assumes "nq_open rx_open tx_open q"
    and "length (nq_lanes queued q ! lane_index (lane_for p)) < nq_cap bound q (lane_index (lane_for p))"
  shows "\<exists>q'. nq_send ops p q = (Ready (Inr ()), q') \<and> nq_offer ops p q = (True, q')"
proof -
  have "\<exists>c'. ch_send ops p c = (Ready (Inr ()), c') \<and> ch_try_send ops p c = (Inr (), c')"
    if "rx_open c" "length (queued c) < bound c" for c
    using send_room [OF that, of p] try_send_room [OF that, of p] by auto
  with assms show ?thesis
    by (cases "lane_for p") (fastforce simp: nq_send_def nq_offer_def nq_try_send_def nq_open_def
        nq_lanes_def nq_cap_def)+
qed

lemma nq_send_full:
  assumes "nq_open rx_open tx_open q"
    and "\<not> length (nq_lanes queued q ! lane_index (lane_for p)) < nq_cap bound q (lane_index (lane_for p))"
  shows "nq_send ops p q = (Pending, q)"
  using assms send_waits [of "nq_control q" p] send_waits [of "nq_interactive q" p] send_waits [of "nq_bulk q" p]
  by (cases "lane_for p") (auto simp: nq_send_def nq_open_def nq_lanes_def nq_cap_def)

lemma nq_recv_ready:
  assumes "nq_open rx_open tx_open q" "concat (nq_lanes queued q) = p # rest"
  shows "\<exists>q'. nq_recv ops q = (Ready (Some p), q') \<and> nq_try_recv_prioritized ops q = (Some p, q')"
proof -
  have some: "\<exists>c'. ch_recv ops c = (Ready (Some a), c') \<and> ch_try_recv ops c = (Inr a, c')"
    if "queued c = a # r" for c a r
    using recv_some [OF that] try_recv_some [OF that] by auto
  have none: "ch_recv ops c = (Pending, c)" "\<exists>e. ch_try_recv ops c = (Inl e, c)"
    if "queued c = []" "tx_open c" for c
    using recv_none [OF that(1)] try_recv_none [OF that(1)] that(2) by auto
  consider (c) a r where "queued (nq_control q) = a # r"
    | (i) a r where "queued (nq_control q) = []" "queued (nq_interactive q) = a # r"
    | (b) a r where "queued (nq_control q) = []" "queued (nq_interactive q) = []" "queued (nq_bulk q) = a # r"
    using assms(2) by (cases "queued (nq_control q)"; cases "queued (nq_interactive q)"; cases "queued (nq_bulk q)")
      (auto simp: nq_lanes_def)
  then show ?thesis
  proof cases
    case c
    with some [OF c] assms show ?thesis
      by (auto simp: nq_recv_def nq_try_recv_prioritized_def nq_lanes_def)
  next
    case i
    with some [OF i(2)] none [OF i(1)] assms show ?thesis
      by (auto simp: nq_recv_def nq_try_recv_prioritized_def nq_lanes_def nq_open_def)
  next
    case b
    with some [OF b(3)] none [OF b(1)] none [OF b(2)] assms show ?thesis
      by (auto simp: nq_recv_def nq_try_recv_prioritized_def nq_lanes_def nq_open_def)
  qed
qed

text \<open>A packet that is sent adds one to the queue of its node; one that is received takes one out.\<close>

lemma send_graph:
  assumes "open_graph bound rx_open tx_open g" "fg_nodes g n = Some node"
    and "nq_send ops p (gn_queue node) = (Ready r, q)"
  shows "r = Inr () \<and> open_graph bound rx_open tx_open (fg_write_node n (node\<lparr>gn_queue := q\<rparr>) g) \<and>
    same_topology g (fg_write_node n (node\<lparr>gn_queue := q\<rparr>) g) \<and>
    queued_at queued (fg_write_node n (node\<lparr>gn_queue := q\<rparr>) g) =
      (queued_at queued g)(n := Suc (queued_at queued g n))"
proof -
  let ?l = "lane_index (lane_for p)" and ?q = "gn_queue node"
  note op = open_graphD [OF assms(1,2)]
  have room: "length (nq_lanes queued ?q ! ?l) < nq_cap bound ?q ?l"
    using nq_send_full [OF op(1), of p] assms(3) by fastforce
  from nq_send_room [OF op(1) room] assms(3) have
    r: "r = Inr ()" "nq_offer ops p ?q = (True, q)"
    by auto
  from nq_offer_room [OF op(1) room] r(2) have
    q: "nq_open rx_open tx_open q" "nq_cap bound q = nq_cap bound ?q"
      "nq_lanes queued q = (nq_lanes queued ?q)[?l := nq_lanes queued ?q ! ?l @ [p]]"
    by auto
  have "?l < length (nq_lanes queued ?q)"
    using lane_index_less [of "lane_for p"] by (simp add: nq_lanes_def)
  from arg_cong [OF concat_update_snoc [OF this, of p], of size]
  have len: "length (concat (nq_lanes queued q)) = Suc (length (concat (nq_lanes queued ?q)))"
    by (simp add: q(3))
  have "open_graph bound rx_open tx_open (fg_write_node n (node\<lparr>gn_queue := q\<rparr>) g)"
    by (rule open_graph_write [OF assms(1)]) (simp_all add: q op(2))
  moreover have "same_topology g (fg_write_node n (node\<lparr>gn_queue := q\<rparr>) g)"
    by (rule same_topology_write [OF assms(2)]) (simp add: node_frame_def)
  ultimately show ?thesis
    using r(1) assms(2) len by (simp add: queued_at_write) (simp add: queued_at_def)
qed

lemma receive_graph:
  assumes "x_mpsc X = ops" "open_graph bound rx_open tx_open g" "0 < queued_at queued g n"
    and "receive_and_process X metrics elapsed n g s = Some (r, g', s')"
  shows "open_graph bound rx_open tx_open g' \<and> same_topology g g' \<and>
    queued_at queued g' = (queued_at queued g)(n := queued_at queued g n - 1) \<and>
    (modules_return X \<longrightarrow> (\<exists>x. r = Ret x)) \<and>
    (\<forall>p es. r = Ret (Inr (Continue p es)) \<longrightarrow>
       es = map (\<lambda>e. (ed_type e, ed_to e)) (filter (\<lambda>e. edge_accepts e p) (fg_edges_from n g)) \<and>
       n \<notin> set (fg_exit_points g)) \<and>
    (\<forall>p. r = Ret (Inr (Exited p)) \<longrightarrow> n \<in> set (fg_exit_points g))"
proof -
  obtain node where node: "fg_nodes g n = Some node"
    using assms(3) by (auto simp: queued_at_def split: option.splits)
  let ?q = "gn_queue node"
  note op = open_graphD [OF assms(2) node]
  obtain p rest where pending: "concat (nq_lanes queued ?q) = p # rest"
    using assms(3) node by (cases "concat (nq_lanes queued ?q)") (simp_all add: queued_at_def)
  from nq_recv_ready [OF op(1) pending] obtain q where
    q: "nq_recv ops ?q = (Ready (Some p), q)" "nq_try_recv_prioritized ops ?q = (Some p, q)"
    by blast
  with nq_recv_some [OF op(1) pending] have
    q': "nq_open rx_open tx_open q" "nq_cap bound q = nq_cap bound ?q" "nq_lanes queued q = pop_first (nq_lanes queued ?q)"
    by auto
  have len: "length (concat (nq_lanes queued q)) = queued_at queued g n - 1"
    using node by (simp only: q'(3) concat_pop_first) (simp add: queued_at_def)
  obtain pr node2 where pr: "gn_process X p (node\<lparr>gn_queue := q\<rparr>) = (pr, node2)"
    by fastforce
  have queue2: "gn_queue node2 = q"
    using gn_process_frame [OF pr] by simp
  let ?g2 = "fg_write_node n node2 g"
  have g': "g' = ?g2"
    using assms(4) q(1) pr node by (auto simp: receive_and_process_def assms(1) Let_def split: outcome.splits)
  have "node_frame node node2"
    using gn_process_node_frame [of "node\<lparr>gn_queue := q\<rparr>" X p] pr by (simp add: node_frame_def)
  then have "same_topology g g'"
    unfolding g' by (rule same_topology_write [OF node])
  moreover have "open_graph bound rx_open tx_open g'"
    unfolding g' by (rule open_graph_write [OF assms(2)]) (simp_all add: queue2 q' op(2))
  moreover have "queued_at queued g' = (queued_at queued g)(n := queued_at queued g n - 1)"
    unfolding g' queued_at_write queue2 len ..
  moreover have "\<exists>x. r = Ret x" if "modules_return X"
  proof -
    from gn_process_returns [OF that, of p "node\<lparr>gn_queue := q\<rparr>"] pr obtain x where "pr = Ret x"
      by auto
    with assms(4) q(1) pr node show ?thesis
      by (auto simp: receive_and_process_def assms(1) Let_def)
  qed
  moreover have out: "\<exists>x. walk_outcome X elapsed n node2 x ?g2 = y" if "r = Ret y" for y
    using assms(4) q(1) pr node that
    by (auto simp: receive_and_process_def assms(1) Let_def split: outcome.splits)
  moreover have "es = map (\<lambda>e. (ed_type e, ed_to e)) (filter (\<lambda>e. edge_accepts e a) (fg_edges_from n g)) \<and>
      n \<notin> set (fg_exit_points g)" if "r = Ret (Inr (Continue a es))" for a es
    using out [OF that] walk_outcome_continue [of X elapsed n node2 _ ?g2 a es]
    by (auto simp: fg_edges_from_def fg_write_node_def)
  moreover have "n \<in> set (fg_exit_points g)" if "r = Ret (Inr (Exited a))" for a
    using out [OF that] walk_outcome_exited [of X elapsed n node2 _ ?g2 a]
    by (auto simp: fg_write_node_def)
  ultimately show ?thesis
    by blast
qed

end

lemma after_walk_receivers [simp]: "receivers i (after_walk X h n r) = 0"
  by (auto simp: after_walk_def o_def intro: sum_zero_map split: sum.split walk_step.split list.split)

text \<open>
  A branch that fails stays so until its end; and the only steps that let children go are those
  of a branch that fails.
\<close>

fun failing :: "branch \<Rightarrow> bool" where
  "failing (Finished r) = isl r"
| "failing (Panicked m) = True"
| "failing (Joining h cs rs) = (\<exists>c \<in> set cs. failing c)"
| "failing _ = False"

fun crashless :: "branch \<Rightarrow> bool" where
  "crashless (Panicked m) = False"
| "crashless (Joining h cs rs) = (\<forall>c \<in> set cs. crashless c)"
| "crashless _ = True"

lemma branch_step_failing:
  "branch_step J X metrics st b st' b' os \<Longrightarrow> (failing b \<longrightarrow> failing b') \<and> (os \<noteq> [] \<longrightarrow> failing b')"
  by (induction rule: branch_step.induct) auto

lemma after_walk_crashless: "crashless (after_walk X h n r)"
  by (auto simp: after_walk_def split: sum.split walk_step.split list.split)

context packet_channels
begin

lemma branch_step_queues:
  assumes "x_mpsc X = ops"
  shows "branch_step J X metrics st b st' b' os \<Longrightarrow> open_graph bound rx_open tx_open (ps_graph st) \<Longrightarrow>
    (\<forall>i. receivers i b \<le> queued_at queued (ps_graph st) i) \<Longrightarrow>
    open_graph bound rx_open tx_open (ps_graph st') \<and> same_topology (ps_graph st) (ps_graph st') \<and>
    (\<forall>i. queued_at queued (ps_graph st') i + receivers i b =
       queued_at queued (ps_graph st) i + receivers i b' + sum_list (map (receivers i) os)) \<and>
    (modules_return X \<longrightarrow> crashless b \<longrightarrow> crashless b' \<and> (\<forall>c \<in> set os. crashless c))"
proof (induction rule: branch_step.induct)
  case (step_send st n node p u q h)
  then show ?case
    using send_graph [OF step_send(3,1)] by (auto simp: assms)
next
  case (step_closed st n node p p' q b h)
  then show ?case
    using send_graph [OF step_closed(4,1)] by (auto simp: assms)
next
  case (step_receive elapsed n st r g s b h)
  have pos: "0 < queued_at queued (ps_graph st) n"
    using spec [OF step_receive(4), of n] by simp
  from receive_graph [OF assms step_receive(3) pos step_receive(1)] pos
  show ?case
    by (simp add: step_receive(2) after_walk_crashless)
next
  case (step_panic elapsed n st m g s h)
  have pos: "0 < queued_at queued (ps_graph st) n"
    using spec [OF step_panic(3), of n] by simp
  from receive_graph [OF assms step_panic(2) pos step_panic(1)] pos show ?case
    by auto
next
  case (step_child st c st' c' os h cs ds results)
  have "\<forall>i. receivers i c \<le> queued_at queued (ps_graph st) i"
    using step_child(4) by (auto intro: le_trans [rotated])
  from step_child.IH [OF step_child(3) this] show ?case
    by auto
qed auto

end

subsection \<open>Termination\<close>

text \<open>
  The work left in a branch, for a height of the nodes that goes down along every edge: a
  multiset of numbers, which every step makes smaller.
\<close>

fun work :: "(node_id \<Rightarrow> nat) \<Rightarrow> branch \<Rightarrow> nat multiset" where
  "work h (WaitPermit n p) = {#4 * h n + 3#}"
| "work h (Entering a n p) = {#4 * h n + 2#}"
| "work h (Sending a n p) = {#4 * h n + 1#}"
| "work h (Receiving a n) = {#4 * h n#}"
| "work h (Joining a cs rs) = {#2#} + sum_list (map (work h) cs)"
| "work h (Finished r) = {#1#}"
| "work h (Panicked m) = {#1#}"

definition height :: "(node_id \<Rightarrow> nat) \<Rightarrow> ('m, 'c, 'cfg) flow_graph \<Rightarrow> bool" where
  "height h g \<longleftrightarrow> (\<forall>n. 0 < h n) \<and> (\<forall>e \<in> set (fg_edges g). h (ed_to e) < h (ed_from e))"

lemma below_work: "(\<And>x. x \<in># M \<Longrightarrow> x < k) \<Longrightarrow> M < {#k#}" for k :: nat
  by (rule ex_gt_imp_less_multiset) auto

lemma work_not_empty: "work h b \<noteq> {#}"
  by (cases b) simp_all

lemma in_sum_list_mset: "x \<in># sum_list (map f cs) \<longleftrightarrow> (\<exists>c \<in> set cs. x \<in># f c)"
  by (induction cs) auto

lemma after_walk_work:
  assumes "height h g"
    and "\<And>p es. r = Inr (Continue p es) \<Longrightarrow>
      es = map (\<lambda>e. (ed_type e, ed_to e)) (filter (\<lambda>e. edge_accepts e p) (fg_edges_from n g))"
  shows "work h (after_walk X a n r) < {#4 * h n#}"
proof (rule below_work)
  have pos: "0 < h n"
    using assms(1) by (simp add: height_def)
  have down: "h t < h n" if "r = Inr (Continue p es)" "(ty, t) \<in> set es" for p es ty t
    using assms(1) assms(2) [OF that(1)] that(2) by (auto simp: height_def fg_edges_from_def)
  fix x
  assume x: "x \<in># work h (after_walk X a n r)"
  show "x < 4 * h n"
  proof (cases "\<exists>p es. r = Inr (Continue p es)")
    case False
    with x pos show ?thesis
      by (auto simp: after_walk_def split: sum.splits walk_step.splits)
  next
    case True
    then obtain p es where r: "r = Inr (Continue p es)" by blast
    have "x \<le> 2 \<or> (\<exists>t \<in> snd ` set es. x \<le> 4 * h t + 3)"
    proof (cases "parallel_targets es = []")
      case True
      with x r show ?thesis
        by (cases es) (auto simp: after_walk_def)
    next
      case False
      with x r have "x = 2 \<or> (\<exists>t \<in> set (parallel_targets es). x = 4 * h t + 3)"
        by (auto simp: after_walk_def in_sum_list_mset)
      then show ?thesis
        by (force simp: parallel_targets_def)
    qed
    with down [OF r] pos show ?thesis
      by fastforce
  qed
qed

context packet_channels
begin

lemma branch_step_work:
  assumes "x_mpsc X = ops"
  shows "branch_step J X metrics st b st' b' os \<Longrightarrow> open_graph bound rx_open tx_open (ps_graph st) \<Longrightarrow>
    (\<forall>i. receivers i b \<le> queued_at queued (ps_graph st) i) \<Longrightarrow> height h (ps_graph st) \<Longrightarrow>
    work h b' + sum_list (map (work h) os) < work h b"
proof (induction rule: branch_step.induct)
  case (step_refused n p st e a)
  have "0 < h n" using step_refused by (simp add: height_def)
  then show ?case by (simp add: below_work)
next
  case (step_closed st n node p p' q b a)
  have "0 < h n" using step_closed by (simp add: height_def)
  then show ?case by (simp add: below_work step_closed(3))
next
  case (step_gone st n b a p)
  have "0 < h n" using step_gone by (simp add: height_def)
  then show ?case by (simp add: below_work step_gone(2))
next
  case (step_panic elapsed n st m g s a)
  have "0 < h n" using step_panic by (simp add: height_def)
  then show ?case by (simp add: below_work)
next
  case (step_receive elapsed n st r g s b a)
  have pos: "0 < queued_at queued (ps_graph st) n"
    using spec [OF step_receive(4), of n] by simp
  from receive_graph [OF assms step_receive(3) pos step_receive(1)]
  have "work h (after_walk X a n r) < {#4 * h n#}"
    by (intro after_walk_work [OF step_receive(5)]) blast
  then show ?case
    by (simp add: step_receive(2))
next
  case (step_child st c st' c' os a cs ds results)
  have "\<forall>i. receivers i c \<le> queued_at queued (ps_graph st) i"
    using step_child(4) by (auto intro: le_trans [rotated])
  from step_child.IH [OF step_child(3) this step_child(5)] show ?case
    by (simp add: add.assoc add.left_commute)
next
  case (step_join st a cs ps ds results)
  then show ?case by simp
next
  case (step_join_failed st a cs e ds results)
  then show ?case by simp
next
  case (step_join_panicked b m st a cs ds results)
  then show ?case by simp
next
  case (step_joined st a results)
  then show ?case by (simp add: below_work)
qed (simp_all add: below_work)

end

text \<open>In an acyclic graph the number of nodes that can be reached is a height.\<close>

lemma acyclic_height:
  assumes "wf_graph g" "\<nexists>c. is_cycle (fg_succs g) c"
  shows "height (\<lambda>n. card {m. reaches (fg_succs g) n m}) g"
proof -
  let ?R = "\<lambda>n. {m. reaches (fg_succs g) n m}"
  have sub: "?R n \<subseteq> insert n (dom (fg_nodes g))" for n
    using reaches_closed [of "fg_succs g" n _ "insert n (dom (fg_nodes g))"] fg_succs_dom(2) [OF assms(1)]
    by blast
  then have fin: "finite (?R n)" for n
    using wf_graphD(1) [OF assms(1)] by (meson finite_insert finite_subset)
  have "?R t \<subset> ?R n" if "t \<in> set (fg_succs g n)" for n t
  proof
    have "reaches (fg_succs g) n t"
      using reaches_step [where s = "fg_succs g" and u = n and v = n, OF reaches_refl that] .
    then show "?R t \<subseteq> ?R n"
      by (auto intro: reaches_trans)
    have "\<not> reaches (fg_succs g) t n"
    proof
      assume "reaches (fg_succs g) t n"
      then obtain p where p: "path_in (fg_succs g) p" "hd p = t" "last p = n"
        by (auto simp: reaches_def)
      then have "p \<noteq> []"
        by (auto simp: path_in_def)
      with p that have "is_cycle (fg_succs g) (n # p)"
        by (cases p) (auto simp: is_cycle_def path_in_Cons)
      with assms(2) show False by blast
    qed
    then show "?R t \<noteq> ?R n"
      using reaches_refl [of "fg_succs g" n] by blast
  qed
  then have "card (?R t) < card (?R n)" if "t \<in> set (fg_succs g n)" for n t
    using that fin by (meson psubset_card_mono)
  moreover have "0 < card (?R n)" for n
  proof -
    have "n \<in> ?R n" by simp
    with fin [of n] show ?thesis by (metis card_gt_0_iff empty_iff)
  qed
  ultimately show ?thesis
    by (auto simp: height_def fg_succs_edge [OF assms(1)])
qed

subsection \<open>The invariant of a run\<close>

definition run_inv ::
    "('c \<Rightarrow> packet list) \<Rightarrow> ('c \<Rightarrow> nat) \<Rightarrow> ('c \<Rightarrow> bool) \<Rightarrow> ('c \<Rightarrow> bool) \<Rightarrow> ('m, 'c, 'cfg) flow_graph \<Rightarrow>
     ('m, 'c, 'cfg, 'f) par_run \<Rightarrow> bool" where
  "run_inv queued bound rx_open tx_open g0 = (\<lambda>(st, b, os).
     open_graph bound rx_open tx_open (ps_graph st) \<and> same_topology g0 (ps_graph st) \<and>
     (\<forall>i. receivers i b + sum_list (map (receivers i) os) \<le> queued_at queued (ps_graph st) i) \<and>
     crashless b \<and> (\<forall>c \<in> set os. crashless c) \<and>
     (failing b \<or> (os = [] \<and> (\<forall>i. queued_at queued (ps_graph st) i = receivers i b))))"

definition run_work :: "(node_id \<Rightarrow> nat) \<Rightarrow> ('m, 'c, 'cfg, 'f) par_run \<Rightarrow> nat multiset" where
  "run_work h = (\<lambda>(st, b, os). work h b + sum_list (map (work h) os))"

lemma receivers_children: "sum_list (map (receivers i) (children b)) \<le> receivers i b"
  by (cases b) simp_all

lemma crashless_children: "crashless b \<Longrightarrow> c \<in> set (children b) \<Longrightarrow> crashless c"
  by (cases b) simp_all

lemma work_children: "sum_list (map (work h) (children b)) < work h b"
  by (cases b) simp_all

context packet_channels
begin

lemma par_step_inv:
  assumes "x_mpsc X = ops" "modules_return X" "height h g0"
  shows "par_step J X metrics r r' \<Longrightarrow> run_inv queued bound rx_open tx_open g0 r \<Longrightarrow>
    run_inv queued bound rx_open tx_open g0 r' \<and> run_work h r' < run_work h r"
proof (induction rule: par_step.induct)
  case (par_root st b st' b' os orphans)
  let ?q = "queued_at queued (ps_graph st)" and ?q' = "queued_at queued (ps_graph st')"
  from par_root(2) have inv: "open_graph bound rx_open tx_open (ps_graph st)" "same_topology g0 (ps_graph st)"
    "\<And>i. receivers i b + sum_list (map (receivers i) orphans) \<le> ?q i" "crashless b" "\<forall>c \<in> set orphans. crashless c"
    "failing b \<or> (orphans = [] \<and> (\<forall>i. ?q i = receivers i b))"
    by (auto simp: run_inv_def)
  have le: "\<forall>i. receivers i b \<le> ?q i"
    using inv(3) by (meson add_leD1)
  note st = branch_step_queues [OF assms(1) par_root(1) inv(1) le]
  have h: "height h (ps_graph st)"
    using assms(3) inv(2) by (simp add: height_def same_topology_def)
  have eq: "?q' i + receivers i b = ?q i + receivers i b' + sum_list (map (receivers i) os)" for i
    using st by blast
  have "receivers i b' + sum_list (map (receivers i) (orphans @ os)) \<le> ?q' i" for i
    using eq [of i] inv(3) [of i] by simp
  moreover have "failing b' \<or> (orphans @ os = [] \<and> (\<forall>i. ?q' i = receivers i b'))"
    using branch_step_failing [OF par_root(1)] inv(6) eq by (cases "os = []") fastforce+
  ultimately show ?case
    using st inv assms(2) branch_step_work [OF assms(1) par_root(1) inv(1) le h] same_topology_trans [OF inv(2)]
    by (auto simp: run_inv_def run_work_def ac_simps)
next
  case (par_orphan st c st' c' os b cs ds)
  let ?q = "queued_at queued (ps_graph st)" and ?q' = "queued_at queued (ps_graph st')"
  from par_orphan(2) have inv: "open_graph bound rx_open tx_open (ps_graph st)" "same_topology g0 (ps_graph st)"
    "\<And>i. receivers i b + (sum_list (map (receivers i) cs) + (receivers i c + sum_list (map (receivers i) ds))) \<le> ?q i"
    "crashless b" "crashless c" "\<forall>c \<in> set cs \<union> set ds. crashless c" "failing b"
    by (auto simp: run_inv_def)
  have le: "\<forall>i. receivers i c \<le> ?q i"
    using inv(3) by (meson add_leD1 add_leD2)
  note st = branch_step_queues [OF assms(1) par_orphan(1) inv(1) le]
  have h: "height h (ps_graph st)"
    using assms(3) inv(2) by (simp add: height_def same_topology_def)
  have eq: "?q' i + receivers i c = ?q i + receivers i c' + sum_list (map (receivers i) os)" for i
    using st by blast
  have "receivers i b + sum_list (map (receivers i) (cs @ c' # ds @ os)) \<le> ?q' i" for i
    using eq [of i] inv(3) [of i] by simp
  then show ?case
    using st inv assms(2) branch_step_work [OF assms(1) par_orphan(1) inv(1) le h] same_topology_trans [OF inv(2)]
    by (auto simp: run_inv_def run_work_def ac_simps)
next
  case (par_abort st b cs c ds)
  have "receivers i b + sum_list (map (receivers i) (cs @ ds @ children c)) \<le> queued_at queued (ps_graph st) i" for i
  proof -
    have "receivers i b + sum_list (map (receivers i) (cs @ c # ds)) \<le> queued_at queued (ps_graph st) i"
      using par_abort by (simp add: run_inv_def)
    with receivers_children [of i c] show ?thesis by simp
  qed
  then show ?case
    using par_abort crashless_children [of c] work_children [of h c]
    by (auto simp: run_inv_def run_work_def ac_simps)
qed

end

subsection \<open>Progress\<close>

text \<open>A branch whose task holds a permit while it waits for its children.\<close>

fun nested :: "branch \<Rightarrow> bool" where
  "nested (Joining h cs rs) = (h \<or> (\<exists>c \<in> set cs. nested c))"
| "nested _ = False"

definition can_step ::
    "(string \<Rightarrow> string) \<Rightarrow> ('v, 'm, 'ctx, 'c, 'f) ext \<Rightarrow> nat option \<Rightarrow>
     ('m, 'c, 'cfg, 'f) par_state \<Rightarrow> branch \<Rightarrow> bool" where
  "can_step J X metrics st b \<longleftrightarrow> (\<exists>st' b' os. branch_step J X metrics st b st' b' os)"

lemma can_stepI: "branch_step J X metrics st b st' b' os \<Longrightarrow> can_step J X metrics st b"
  by (auto simp: can_step_def)

lemma child_can_step:
  "c \<in> set cs \<Longrightarrow> can_step J X metrics st c \<Longrightarrow> can_step J X metrics st (Joining h cs rs)"
  by (auto simp: can_step_def dest!: split_list intro: branch_step.step_child)

lemma ended_child_can_step:
  assumes "c \<in> set cs" "ended c"
  shows "can_step J X metrics st (Joining h cs rs)"
proof -
  from assms(1) obtain ys zs where cs: "cs = ys @ c # zs"
    by (auto dest: split_list)
  show ?thesis
  proof (cases c)
    case (Finished r)
    then show ?thesis
      by (cases r) (auto simp: cs intro: can_stepI branch_step.step_join branch_step.step_join_failed)
  next
    case (Panicked m)
    then show ?thesis
      by (auto simp: cs intro: can_stepI branch_step.step_join_panicked [OF refl])
  qed (use assms(2) in simp_all)
qed

inductive_cases permit_stepE: "branch_step J X metrics st (WaitPermit n p) st' b' os"
inductive_cases joining_stepE: "branch_step J X metrics st (Joining h cs rs) st' b' os"
inductive_cases par_stepE: "par_step J X metrics (st, b, os) r"

text \<open>A branch without a permit, a parent of one such child, and a run of it alone are stuck.\<close>

lemma no_permit_stuck: "ps_permits st = 0 \<Longrightarrow> \<not> can_step J X metrics st (WaitPermit n p)"
  by (auto simp: can_step_def elim: permit_stepE)

lemma parent_stuck:
  "\<not> can_step J X metrics st c \<Longrightarrow> \<not> ended c \<Longrightarrow> \<not> can_step J X metrics st (Joining h [c] rs)"
  by (auto simp: can_step_def Cons_eq_append_conv elim!: joining_stepE)

lemma lone_run_stuck: "\<not> can_step J X metrics st b \<Longrightarrow> \<not> (\<exists>r. par_step J X metrics (st, b, []) r)"
  by (auto simp: can_step_def elim!: par_stepE)

lemma failing_can_step: "failing b \<Longrightarrow> \<not> ended b \<Longrightarrow> can_step J X metrics st b"
proof (induction b)
  case (Joining h cs rs)
  then obtain c where "c \<in> set cs" "failing c"
    by auto
  with Joining.IH [of c] show ?case
    by (cases "ended c") (auto intro: ended_child_can_step child_can_step)
qed simp_all

context packet_channels
begin

lemma receivers_can_step:
  assumes "x_mpsc X = ops" "modules_return X" "open_graph bound rx_open tx_open (ps_graph st)"
    and "0 < queued_at queued (ps_graph st) i"
  shows "0 < receivers i b \<Longrightarrow> can_step J X metrics st b"
proof (induction b)
  case (Receiving h n)
  then have n: "n = i" by (simp split: if_splits)
  obtain node where node: "fg_nodes (ps_graph st) n = Some node"
    using assms(4) n by (auto simp: queued_at_def split: option.splits)
  obtain p rest where "concat (nq_lanes queued (gn_queue node)) = p # rest"
    using assms(4) node n by (cases "concat (nq_lanes queued (gn_queue node))") (simp_all add: queued_at_def)
  from nq_recv_ready [OF open_graphD(1) [OF assms(3) node] this] obtain q where
    q: "nq_recv ops (gn_queue node) = (Ready (Some p), q)"
    by blast
  obtain r node2 where "gn_process X p (node\<lparr>gn_queue := q\<rparr>) = (Ret r, node2)"
    using gn_process_returns [OF assms(2)] by blast
  with node q assms(1) have "\<exists>x g s. receive_and_process X metrics 0 n (ps_graph st) (ps_regs st) = Some (Ret x, g, s)"
    by (simp add: receive_and_process_def Let_def)
  then show ?case
    by (blast intro: can_stepI branch_step.step_receive [OF _ refl])
next
  case (Joining h cs rs)
  then obtain c where "c \<in> set cs" "0 < receivers i c"
    using sum_zero_map [of cs "receivers i"] by fastforce
  with Joining.IH [of c] show ?case
    by (auto intro: child_can_step)
qed simp_all

text \<open>With empty queues, a branch that cannot go on waits for a permit, in vain.\<close>

lemma stuck_branch:
  assumes "x_mpsc X = ops" "open_graph bound rx_open tx_open (ps_graph st)"
    and "\<And>i. queued_at queued (ps_graph st) i = 0"
  shows "\<not> can_step J X metrics st b \<Longrightarrow> \<not> ended b \<Longrightarrow> (\<forall>i. receivers i b = 0) \<Longrightarrow>
    ps_permits st = 0 \<and> (0 < held b \<longrightarrow> nested b)"
proof (induction b)
  case (WaitPermit n p)
  then show ?case
    using can_stepI [OF branch_step.step_permit, of st J X metrics n p] by auto
next
  case (Entering h n p)
  then show ?case
    using can_stepI [OF branch_step.step_refused] can_stepI [OF branch_step.step_enter]
    by (cases "enter_node X n p (ps_graph st)") blast+
next
  case (Sending h n p)
  show ?case
  proof (cases "fg_nodes (ps_graph st) n")
    case None
    then show ?thesis
      using Sending(1) can_stepI [OF branch_step.step_gone [OF None refl]] by blast
  next
    case (Some node)
    note op = open_graphD [OF assms(2) Some]
    have "concat (nq_lanes queued (gn_queue node)) = []"
      using assms(3) [of n] Some by (simp add: queued_at_def)
    moreover have "nq_lanes queued (gn_queue node) ! lane_index (lane_for p) \<in> set (nq_lanes queued (gn_queue node))"
      using lane_index_less [of "lane_for p"] by (intro nth_mem) (simp add: nq_lanes_def)
    ultimately have "nq_lanes queued (gn_queue node) ! lane_index (lane_for p) = []"
      by (meson concat_eq_Nil_conv)
    then have "length (nq_lanes queued (gn_queue node) ! lane_index (lane_for p)) <
        nq_cap bound (gn_queue node) (lane_index (lane_for p))"
      using op(2) [OF lane_index_less] by simp
    from nq_send_room [OF op(1) this] obtain q where "nq_send ops p (gn_queue node) = (Ready (Inr ()), q)"
      by blast
    then show ?thesis
      using Sending(1) Some assms(1) can_stepI [OF branch_step.step_send [OF Some]] by blast
  qed
next
  case (Receiving h n)
  then have "receivers n (Receiving h n) = 0" by blast
  then show ?case by simp
next
  case (Joining h cs rs)
  have "cs \<noteq> []"
    using Joining.prems(1) can_stepI [OF branch_step.step_joined] by blast
  have c: "ps_permits st = 0 \<and> (0 < held c \<longrightarrow> nested c)" if "c \<in> set cs" for c
    using Joining.IH [OF that] Joining.prems that child_can_step ended_child_can_step by fastforce
  show ?case
  proof
    show "ps_permits st = 0"
      using c \<open>cs \<noteq> []\<close> by (cases cs) auto
    have "\<exists>c \<in> set cs. 0 < held c" if "0 < sum_list (map held cs)"
      using that sum_zero_map [of cs held] by (metis gr0I less_irrefl)
    with c show "0 < held (Joining h cs rs) \<longrightarrow> nested (Joining h cs rs)"
      by (cases h) auto
  qed
qed simp_all

end

subsection \<open>Fan-outs that are not nested\<close>

text \<open>Below the target of a parallel edge there is no other parallel edge.\<close>

definition flat_fanout :: "('m, 'c, 'cfg) flow_graph \<Rightarrow> bool" where
  "flat_fanout g \<longleftrightarrow>
     (\<forall>e \<in> set (fg_edges g). ed_type e = Parallel \<longrightarrow>
        (\<forall>d \<in> set (fg_edges g). reaches (fg_succs g) (ed_to e) (ed_from d) \<longrightarrow> ed_type d \<noteq> Parallel))"

definition below_fanout :: "('m, 'c, 'cfg) flow_graph \<Rightarrow> node_id set" where
  "below_fanout g =
     {n. \<exists>e \<in> set (fg_edges g). ed_type e = Parallel \<and> reaches (fg_succs g) (ed_to e) n}"

fun flat :: "node_id set \<Rightarrow> branch \<Rightarrow> bool" where
  "flat S (WaitPermit n p) = (n \<in> S)"
| "flat S (Entering h n p) = (h \<longrightarrow> n \<in> S)"
| "flat S (Sending h n p) = (h \<longrightarrow> n \<in> S)"
| "flat S (Receiving h n) = (h \<longrightarrow> n \<in> S)"
| "flat S (Joining h cs rs) = (\<not> h \<and> (\<forall>c \<in> set cs. flat S c))"
| "flat S _ = True"

lemma flat_not_nested: "flat S b \<Longrightarrow> \<not> nested b"
  by (induction b) auto

lemma after_walk_flat:
  assumes "wf_graph g" "flat_fanout g" "h \<longrightarrow> n \<in> below_fanout g"
    and "\<And>p es. r = Inr (Continue p es) \<Longrightarrow>
      es = map (\<lambda>e. (ed_type e, ed_to e)) (filter (\<lambda>e. edge_accepts e p) (fg_edges_from n g))"
  shows "flat (below_fanout g) (after_walk X h n r)"
proof (cases "\<exists>p es. r = Inr (Continue p es)")
  case False
  then show ?thesis
    by (auto simp: after_walk_def split: sum.splits walk_step.splits)
next
  case True
  then obtain p es where r: "r = Inr (Continue p es)" by blast
  have edge: "\<exists>e \<in> set (fg_edges g). ed_from e = n \<and> ed_to e = t \<and> ed_type e = ty" if "(ty, t) \<in> set es" for ty t
    using assms(4) [OF r] that by (auto simp: fg_edges_from_def)
  have below: "t \<in> below_fanout g" if "n \<in> below_fanout g" "(ty, t) \<in> set es" for ty t
  proof -
    have "t \<in> set (fg_succs g n)"
      using edge [OF that(2)] by (auto simp: fg_succs_edge [OF assms(1)])
    with that(1) show ?thesis
      by (auto simp: below_fanout_def intro: reaches_step)
  qed
  have par: "t \<in> below_fanout g \<and> \<not> h" if "t \<in> set (parallel_targets es)" for t
  proof -
    from that have "(Parallel, t) \<in> set es"
      by (auto simp: parallel_targets_def)
    then obtain e where e: "e \<in> set (fg_edges g)" "ed_from e = n" "ed_to e = t" "ed_type e = Parallel"
      using edge by blast
    then have "t \<in> below_fanout g"
      by (auto simp: below_fanout_def)
    moreover have "n \<notin> below_fanout g"
      using assms(2) e by (auto simp: below_fanout_def flat_fanout_def)
    ultimately show ?thesis
      using assms(3) by blast
  qed
  show ?thesis
  proof (cases "parallel_targets es = []")
    case True
    then show ?thesis
      using r assms(3) below [of "fst (hd es)" "snd (hd es)"] by (cases es) (auto simp: after_walk_def)
  next
    case False
    then obtain t where "t \<in> set (parallel_targets es)"
      by (cases "parallel_targets es") auto
    with par False r show ?thesis
      by (auto simp: after_walk_def)
  qed
qed

lemma children_flat: "flat S b \<Longrightarrow> c \<in> set (children b) \<Longrightarrow> flat S c"
  by (cases b) auto

context packet_channels
begin

lemma branch_step_flat:
  assumes "x_mpsc X = ops" "wf_graph g0" "flat_fanout g0"
  shows "branch_step J X metrics st b st' b' os \<Longrightarrow> open_graph bound rx_open tx_open (ps_graph st) \<Longrightarrow>
    (\<forall>i. receivers i b \<le> queued_at queued (ps_graph st) i) \<Longrightarrow> fg_edges (ps_graph st) = fg_edges g0 \<Longrightarrow>
    flat (below_fanout g0) b \<Longrightarrow> flat (below_fanout g0) b' \<and> (\<forall>c \<in> set os. flat (below_fanout g0) c)"
proof (induction rule: branch_step.induct)
  case (step_receive elapsed n st r g s b h)
  have pos: "0 < queued_at queued (ps_graph st) n"
    using spec [OF step_receive(4), of n] by simp
  have "flat (below_fanout g0) (after_walk X h n r)"
  proof (rule after_walk_flat [OF assms(2,3)])
    show "h \<longrightarrow> n \<in> below_fanout g0"
      using step_receive(6) by simp
    show "es = map (\<lambda>e. (ed_type e, ed_to e)) (filter (\<lambda>e. edge_accepts e p) (fg_edges_from n g0))"
      if "r = Inr (Continue p es)" for p es
      using receive_graph [OF assms(1) step_receive(3) pos step_receive(1)] that step_receive(5)
      by (simp add: fg_edges_from_def)
  qed
  then show ?case
    by (simp add: step_receive(2))
next
  case (step_child st c st' c' os h cs ds results)
  have "\<forall>i. receivers i c \<le> queued_at queued (ps_graph st) i"
    using step_child(4) by (auto intro: le_trans [rotated])
  from step_child.IH [OF step_child(3) this step_child(5)] step_child(6) show ?case
    by auto
qed auto

end

subsection \<open>Whole runs\<close>

definition flat_run :: "('m, 'c, 'cfg) flow_graph \<Rightarrow> ('m, 'c, 'cfg, 'f) par_run \<Rightarrow> bool" where
  "flat_run g = (\<lambda>(st, b, os). flat (below_fanout g) b \<and> (\<forall>c \<in> set os. flat (below_fanout g) c))"

lemma start_permits: "run_permits (execute_parallel_start X g entry p k metrics s) = max k 1"
  by (simp add: run_permits_def execute_parallel_start_def)

lemma start_flat: "flat_run g (execute_parallel_start X g entry p k metrics s)"
  by (simp add: flat_run_def execute_parallel_start_def)

context packet_channels
begin

lemma start_inv:
  assumes "idle_graph queued bound rx_open tx_open g"
  shows "run_inv queued bound rx_open tx_open g (execute_parallel_start X g entry p k metrics s)"
proof -
  have "open_graph bound rx_open tx_open g"
    using assms by (auto simp: idle_graph_def idle_node_def open_graph_def)
  moreover have "queued_at queued g i = 0" for i
    using assms by (auto simp: idle_graph_def idle_node_def queued_at_def split: option.split)
  ultimately show ?thesis
    by (simp add: run_inv_def execute_parallel_start_def)
qed

lemma par_step_flat:
  assumes "x_mpsc X = ops" "wf_graph g" "flat_fanout g"
  shows "par_step J X metrics r r' \<Longrightarrow> run_inv queued bound rx_open tx_open g r \<Longrightarrow> flat_run g r \<Longrightarrow> flat_run g r'"
proof (induction rule: par_step.induct)
  case (par_root st b st' b' os orphans)
  then have "\<forall>i. receivers i b \<le> queued_at queued (ps_graph st) i"
    by (auto simp: run_inv_def dest: add_leD1)
  from branch_step_flat [OF assms par_root(1) _ this] par_root(2,3) show ?case
    by (auto simp: run_inv_def flat_run_def same_topology_def)
next
  case (par_orphan st c st' c' os b cs ds)
  have "receivers i c \<le> queued_at queued (ps_graph st) i" for i
  proof -
    have "receivers i b + (sum_list (map (receivers i) cs) + (receivers i c + sum_list (map (receivers i) ds))) \<le>
        queued_at queued (ps_graph st) i"
      using par_orphan(2) by (simp add: run_inv_def)
    then show ?thesis by linarith
  qed
  with branch_step_flat [OF assms par_orphan(1)] par_orphan(2,3) show ?case
    by (auto simp: run_inv_def flat_run_def same_topology_def)
next
  case (par_abort st b cs c ds)
  then show ?case
    using children_flat [of "below_fanout g" c] by (auto simp: flat_run_def)
qed

lemma par_reach_inv:
  assumes "x_mpsc X = ops" "modules_return X" "height h g"
    and "par_reach J X metrics r r'" "run_inv queued bound rx_open tx_open g r"
  shows "run_inv queued bound rx_open tx_open g r'"
  using assms(4,5) by (induction rule: rtranclp_induct) (auto dest: par_step_inv [OF assms(1-3)])

lemma par_reach_flat:
  assumes "x_mpsc X = ops" "modules_return X" "height h g" "wf_graph g" "flat_fanout g"
    and "par_reach J X metrics r r'" "run_inv queued bound rx_open tx_open g r" "flat_run g r"
  shows "flat_run g r'"
proof -
  from assms(6-8) have "flat_run g r' \<and> run_inv queued bound rx_open tx_open g r'"
    by (induction rule: rtranclp_induct)
      (auto dest: par_step_inv [OF assms(1-3)] par_step_flat [OF assms(1,4,5)])
  then show ?thesis ..
qed

lemma no_infinite_run:
  assumes "x_mpsc X = ops" "modules_return X" "height h g"
    and "run_inv queued bound rx_open tx_open g (f 0)" "\<And>k. par_step J X metrics (f k) (f (Suc k))"
  shows False
proof -
  have inv: "run_inv queued bound rx_open tx_open g (f k)" for k
    by (induction k) (use assms(4,5) par_step_inv [OF assms(1-3)] in blast)+
  then have "run_work h (f (Suc k)) < run_work h (f k)" for k
    using par_step_inv [OF assms(1-3) assms(5)] by blast
  then have "\<exists>w. \<forall>k. (w (Suc k), w k) \<in> {(x, y). x < (y :: nat multiset)}"
    by (intro exI [of _ "\<lambda>k. run_work h (f k)"]) simp
  then show False
    using wf [where 'a = "nat multiset"] unfolding wf_iff_no_infinite_down_chain by blast
qed

text \<open>A run that cannot go on has ended, or waits for permits that its own branches hold.\<close>

lemma stuck_run:
  assumes "x_mpsc X = ops" "modules_return X" "run_inv queued bound rx_open tx_open g (st, b, os)"
    and "0 < run_permits (st, b, os)" "\<nexists>r. par_step J X metrics (st, b, os) r"
  shows "os = [] \<and> ((\<exists>r. b = Finished r) \<or> (ps_permits st = 0 \<and> nested b)) \<and>
    (\<forall>ps. b = Finished (Inr ps) \<longrightarrow> idle_graph queued bound rx_open tx_open (ps_graph st))"
proof -
  have os: "os = []"
  proof (cases os rule: rev_cases)
    case (snoc cs c)
    then show ?thesis
      using assms(5) par_step.par_abort [of J X metrics st b cs c "[]"] by auto
  qed
  have stuck: "\<not> can_step J X metrics st b"
    using assms(5) par_step.par_root by (fastforce simp: can_step_def)
  from assms(3) have inv: "open_graph bound rx_open tx_open (ps_graph st)" "crashless b"
    "failing b \<or> (\<forall>i. queued_at queued (ps_graph st) i = receivers i b)"
    by (auto simp: run_inv_def)
  have "(\<exists>r. b = Finished r) \<or> (ps_permits st = 0 \<and> nested b)"
  proof (cases "ended b")
    case True
    with inv(2) show ?thesis by (cases b) simp_all
  next
    case False
    then have eq: "queued_at queued (ps_graph st) i = receivers i b" for i
      using inv(3) failing_can_step [OF _ False] stuck by blast
    have none: "receivers i b = 0" for i
      using receivers_can_step [OF assms(1,2) inv(1), of i b J metrics] stuck eq [of i] by fastforce
    then have "ps_permits st = 0 \<and> (0 < held b \<longrightarrow> nested b)"
      using stuck_branch [OF assms(1) inv(1) _ stuck False] eq by simp
    then show ?thesis
      using assms(4) os by (simp add: run_permits_def)
  qed
  moreover have "idle_graph queued bound rx_open tx_open (ps_graph st)" if "b = Finished (Inr ps)" for ps
  proof -
    have q: "queued_at queued (ps_graph st) i = 0" for i
      using inv(3) that by simp
    have "concat (nq_lanes queued (gn_queue node)) = []" if "fg_nodes (ps_graph st) i = Some node" for i node
      using q [of i] that by (simp add: queued_at_def)
    then show ?thesis
      using inv(1) by (simp add: idle_graph_def idle_node_def open_graph_def)
  qed
  ultimately show ?thesis
    using os by blast
qed

end

subsection \<open>Properties\<close>

text \<open>
  C5. The semaphore bounds the concurrency: at every point of every run of parallel execution, the
  spawned branches that have started and are not over, with those below them and the ones let go
  by a failed branch, and the permits that are left add up to the configured maximum, which is at
  least one. So never more than that many spawned branches run at once, every one of them has
  taken a permit, and no permit is lost, whatever fails.
\<close>

theorem parallel_permits_bounded:
  assumes "par_reach J X metrics (execute_parallel_start X g entry p k metrics s) (st, b, os)"
  shows "ps_permits st + sum_list (map running (children b)) + sum_list (map running os) = max k 1"
proof -
  obtain st0 b0 os0 where start: "execute_parallel_start X g entry p k metrics s = (st0, b0, os0)"
    by (metis prod_cases3)
  from par_reach_guarded [OF assms] start_guarded [OF start]
  have guarded: "guarded False b" "\<forall>c \<in> set os. guarded True c"
    by (auto simp: start)
  then have "sum_list (map held os) = sum_list (map running os)"
    by (auto simp: guarded_held cong: map_cong)
  with guarded_first [OF guarded(1)] par_reach_permits [OF assms] start_permits [of X g entry p k metrics s]
  show ?thesis
    by (simp add: run_permits_def)
qed

text \<open>
  C4. The packet that a branch waits for is there: in a run on a graph with idle queues, at every
  point every node's queue holds at least as many packets as there are branches between the two
  halves of a hop on that node, so none of them waits while it holds the lock of the graph, the
  \<open>expect\<close> on the received packet never fails, and no branch panics if the modules do not.
\<close>

theorem parallel_never_panics:
  assumes "packet_channels (x_mpsc X) queued bound rx_open tx_open" "modules_return X" "wf_graph g"
    and "\<nexists>c. is_cycle (fg_succs g) c" "idle_graph queued bound rx_open tx_open g"
    and "par_reach J X metrics (execute_parallel_start X g entry p k metrics s) (st, b, os)"
  shows "crashless b \<and> (\<forall>c \<in> set os. crashless c) \<and> same_topology g (ps_graph st) \<and>
    (\<forall>i. receivers i b + sum_list (map (receivers i) os) \<le> queued_at queued (ps_graph st) i)"
proof -
  have "run_inv queued bound rx_open tx_open g (st, b, os)"
    by (rule packet_channels.par_reach_inv [OF assms(1) refl assms(2) acyclic_height [OF assms(3,4)] assms(6)])
      (rule packet_channels.start_inv [OF assms(1,5)])
  then show ?thesis
    unfolding run_inv_def by blast
qed

text \<open>
  C3. Parallel execution of an acyclic graph ends: there is no infinite run, under any
  scheduling. When nothing can go on, no cancelled branch is left and either the call has
  returned - then, unless it failed, every queue is empty again - or every permit is held by
  branches, one of which waits for children that wait for a permit. The latter happens only where a
  parallel fan-out is nested in another: a graph without nested fan-outs always returns.
\<close>

theorem parallel_runs_end:
  assumes "packet_channels (x_mpsc X) queued bound rx_open tx_open" "modules_return X" "wf_graph g"
    and "\<nexists>c. is_cycle (fg_succs g) c" "idle_graph queued bound rx_open tx_open g"
  shows "(\<nexists>f. f 0 = execute_parallel_start X g entry p k metrics s \<and> (\<forall>n. par_step J X metrics (f n) (f (Suc n)))) \<and>
    (\<forall>st b os. par_reach J X metrics (execute_parallel_start X g entry p k metrics s) (st, b, os) \<longrightarrow>
       (\<nexists>r. par_step J X metrics (st, b, os) r) \<longrightarrow>
       os = [] \<and> ((\<exists>r. b = Finished r) \<or> (ps_permits st = 0 \<and> nested b \<and> \<not> flat_fanout g)) \<and>
       (\<forall>ps. b = Finished (Inr ps) \<longrightarrow> idle_graph queued bound rx_open tx_open (ps_graph st)))"
proof -
  let ?start = "execute_parallel_start X g entry p k metrics s"
  note h = acyclic_height [OF assms(3,4)]
  note inv = packet_channels.start_inv [OF assms(1,5), of X entry p k metrics s]
  have "\<not> nested b" if "par_reach J X metrics ?start (st, b, os)" "flat_fanout g" for st b os
    using packet_channels.par_reach_flat [OF assms(1) refl assms(2) h assms(3) that(2,1) inv start_flat]
      flat_not_nested by (auto simp: flat_run_def)
  moreover have "0 < run_permits (st, b, os)" if "par_reach J X metrics ?start (st, b, os)" for st b os
    using par_reach_permits [OF that] start_permits [of X g entry p k metrics s] by simp
  moreover have "\<nexists>f. f 0 = ?start \<and> (\<forall>n. par_step J X metrics (f n) (f (Suc n)))"
  proof
    assume "\<exists>f. f 0 = ?start \<and> (\<forall>n. par_step J X metrics (f n) (f (Suc n)))"
    then obtain f where f: "f 0 = ?start" "\<And>n. par_step J X metrics (f n) (f (Suc n))" by blast
    show False
      using packet_channels.no_infinite_run [OF assms(1) refl assms(2) h, of f J metrics] f inv by simp
  qed
  ultimately show ?thesis
    using packet_channels.stuck_run [OF assms(1) refl assms(2)
        packet_channels.par_reach_inv [OF assms(1) refl assms(2) h _ inv]]
    by blast
qed

end
