(* ===== verification/Priority_Queue.thy ===== *)
theory Priority_Queue
  imports Channels Packets
begin

text \<open>
  Task priorities and the queue with five lanes (\<open>crates/nyarix-runtime/src/priority.rs\<close>), the
  second component with the contract \<open>lane_queue\<close>. The array of lanes is a list of five
  channels.
\<close>

datatype task_priority = Realtime | HighPriority | NormalPriority | LowPriority | Background

primrec priority_index :: "task_priority \<Rightarrow> nat" where
  "priority_index Realtime = 0"
| "priority_index HighPriority = 1"
| "priority_index NormalPriority = 2"
| "priority_index LowPriority = 3"
| "priority_index Background = 4"

text \<open>The derived order: what sorts before runs first.\<close>

instantiation task_priority :: linorder
begin

definition less_eq_task_priority :: "task_priority \<Rightarrow> task_priority \<Rightarrow> bool" where
  "less_eq_task_priority a b \<longleftrightarrow> priority_index a \<le> priority_index b"

definition less_task_priority :: "task_priority \<Rightarrow> task_priority \<Rightarrow> bool" where
  "less_task_priority a b \<longleftrightarrow> priority_index a < priority_index b"

instance
proof
  fix x y z :: task_priority
  show "x < y \<longleftrightarrow> x \<le> y \<and> \<not> y \<le> x"
    by (auto simp: less_task_priority_def less_eq_task_priority_def)
  show "x \<le> x"
    by (simp add: less_eq_task_priority_def)
  show "x \<le> y \<Longrightarrow> y \<le> z \<Longrightarrow> x \<le> z"
    by (simp add: less_eq_task_priority_def)
  show "x \<le> y \<Longrightarrow> y \<le> x \<Longrightarrow> x = y"
    by (cases x; cases y) (simp_all add: less_eq_task_priority_def)
  show "x \<le> y \<or> y \<le> x"
    by (auto simp: less_eq_task_priority_def)
qed

end

definition from_tags :: "tags \<Rightarrow> task_priority" where
  "from_tags ts =
     (if tags_intersects ts (TAGS_CONTROL OR TAGS_HANDSHAKE OR TAGS_REKEY) then Realtime
      else if tags_contains ts TAGS_INTERACTIVE then HighPriority
      else NormalPriority)"

type_synonym 'c priority_lanes = "'c list"

definition pq_send ::
    "('c, 'a) mpsc_ops \<Rightarrow> task_priority \<Rightarrow> 'a \<Rightarrow> 'c priority_lanes \<Rightarrow> ('a + unit) poll \<times> 'c priority_lanes" where
  "pq_send C priority item lanes =
     (case ch_send C item (lanes ! priority_index priority) of
        (r, c) \<Rightarrow> (r, lanes[priority_index priority := c]))"

definition pq_try_send ::
    "('c, 'a) mpsc_ops \<Rightarrow> task_priority \<Rightarrow> 'a \<Rightarrow> 'c priority_lanes \<Rightarrow>
     ('a try_send_error + unit) \<times> 'c priority_lanes" where
  "pq_try_send C priority item lanes =
     (case ch_try_send C item (lanes ! priority_index priority) of
        (r, c) \<Rightarrow> (r, lanes[priority_index priority := c]))"

text \<open>The biased \<open>select!\<close>: the first lane that is ready, in the order of the array.\<close>

fun pq_recv :: "('c, 'a) mpsc_ops \<Rightarrow> 'c priority_lanes \<Rightarrow> 'a option poll \<times> 'c priority_lanes" where
  "pq_recv C [] = (Pending, [])"
| "pq_recv C (lane # lanes) =
     (case ch_recv C lane of
        (Ready item, lane') \<Rightarrow> (Ready item, lane' # lanes)
      | (Pending, lane') \<Rightarrow> (case pq_recv C lanes of (r, lanes') \<Rightarrow> (r, lane' # lanes')))"

fun pq_drain_lane :: "('c, 'a) mpsc_ops \<Rightarrow> nat \<Rightarrow> 'a list \<Rightarrow> 'c \<Rightarrow> ('a list \<times> 'c) outcome" where
  "pq_drain_lane C 0 drained lane = NoFuel"
| "pq_drain_lane C (Suc fuel) drained lane =
     (case ch_try_recv C lane of
        (Inr item, lane') \<Rightarrow> pq_drain_lane C fuel (drained @ [item]) lane'
      | (Inl _, lane') \<Rightarrow> Ret (drained, lane'))"

text \<open>The fuel is for the loop over one lane: one more than its items is enough.\<close>

fun pq_drain_from ::
    "('c, 'a) mpsc_ops \<Rightarrow> nat \<Rightarrow> 'a list \<Rightarrow> 'c priority_lanes \<Rightarrow> ('a list \<times> 'c priority_lanes) outcome" where
  "pq_drain_from C fuel drained [] = Ret (drained, [])"
| "pq_drain_from C fuel drained (lane # lanes) =
     obind (pq_drain_lane C fuel drained lane) (\<lambda>(drained, lane').
     obind (pq_drain_from C fuel drained lanes) (\<lambda>(drained, lanes'). Ret (drained, lane' # lanes')))"

definition pq_drain ::
    "('c, 'a) mpsc_ops \<Rightarrow> nat \<Rightarrow> 'c priority_lanes \<Rightarrow> ('a list \<times> 'c priority_lanes) outcome" where
  "pq_drain C fuel lanes = pq_drain_from C fuel [] lanes"

definition priority_queue :: "('c, 'a) mpsc_ops \<Rightarrow> usize \<Rightarrow> 'c priority_lanes outcome" where
  "priority_queue C capacity =
     obind (ch_channel C capacity) (\<lambda>realtime.
     obind (ch_channel C capacity) (\<lambda>high.
     obind (ch_channel C capacity) (\<lambda>normal.
     obind (ch_channel C capacity) (\<lambda>low.
     obind (ch_channel C capacity) (\<lambda>background.
       Ret [realtime, high, normal, low, background])))))"

subsection \<open>A queue with five lanes\<close>

text \<open>The queue as the users of \<open>lane_queue\<close> see it, for items that carry their priority.\<close>

definition pq_offer ::
    "('c, 'a) mpsc_ops \<Rightarrow> ('a \<Rightarrow> task_priority) \<Rightarrow> 'a \<Rightarrow> 'c priority_lanes \<Rightarrow> bool \<times> 'c priority_lanes" where
  "pq_offer C priority_of item lanes =
     (case pq_try_send C (priority_of item) item lanes of (r, lanes') \<Rightarrow> (\<not> isl r, lanes'))"

definition pq_take :: "('c, 'a) mpsc_ops \<Rightarrow> 'c priority_lanes \<Rightarrow> 'a option \<times> 'c priority_lanes" where
  "pq_take C lanes =
     (case pq_recv C lanes of (Ready item, lanes') \<Rightarrow> (item, lanes') | (Pending, lanes') \<Rightarrow> (None, lanes'))"

definition pq_open :: "('c \<Rightarrow> bool) \<Rightarrow> ('c \<Rightarrow> bool) \<Rightarrow> 'c priority_lanes \<Rightarrow> bool" where
  "pq_open rx_open tx_open lanes \<longleftrightarrow> length lanes = 5 \<and> (\<forall>c \<in> set lanes. rx_open c \<and> tx_open c)"

definition pq_cap :: "('c \<Rightarrow> nat) \<Rightarrow> 'c priority_lanes \<Rightarrow> nat \<Rightarrow> nat" where
  "pq_cap bound lanes i = (if i < length lanes then bound (lanes ! i) else 0)"

text \<open>
  A priority queue as its users know it: the items in the order of their arrival. An offer is
  accepted while fewer than \<open>capacity\<close> items of its priority are there; a take gives the oldest item
  of the most urgent priority present. This does not speak of lanes.
\<close>

definition urgency :: "task_priority list" where
  "urgency = [Realtime, HighPriority, NormalPriority, LowPriority, Background]"

definition by_urgency :: "('a \<Rightarrow> task_priority) \<Rightarrow> 'a list \<Rightarrow> 'a list" where
  "by_urgency priority_of xs = concat (map (\<lambda>p. filter (\<lambda>a. priority_of a = p) xs) urgency)"

datatype 'a pq_cmd = PqOffer 'a | PqTake

datatype 'a pq_answer = PqAccepted bool | PqTaken "'a option"

fun pq_exec ::
    "('c, 'a) mpsc_ops \<Rightarrow> ('a \<Rightarrow> task_priority) \<Rightarrow> 'a pq_cmd \<Rightarrow> 'c priority_lanes \<Rightarrow> 'a pq_answer \<times> 'c priority_lanes" where
  "pq_exec C priority_of (PqOffer a) lanes =
     (case pq_offer C priority_of a lanes of (ok, lanes') \<Rightarrow> (PqAccepted ok, lanes'))"
| "pq_exec C priority_of PqTake lanes = (case pq_take C lanes of (r, lanes') \<Rightarrow> (PqTaken r, lanes'))"

fun arrivals_exec :: "nat \<Rightarrow> ('a \<Rightarrow> task_priority) \<Rightarrow> 'a pq_cmd \<Rightarrow> 'a list \<Rightarrow> 'a pq_answer \<times> 'a list" where
  "arrivals_exec capacity priority_of (PqOffer a) xs =
     (if length (filter (\<lambda>b. priority_of b = priority_of a) xs) < capacity
      then (PqAccepted True, xs @ [a]) else (PqAccepted False, xs))"
| "arrivals_exec capacity priority_of PqTake xs =
     (case by_urgency priority_of xs of
        [] \<Rightarrow> (PqTaken None, xs)
      | a # _ \<Rightarrow> (PqTaken (Some a), remove1 a xs))"

text \<open>The lanes of the arrivals, and how they change.\<close>

definition lanes_of :: "('a \<Rightarrow> task_priority) \<Rightarrow> 'a list \<Rightarrow> 'a list list" where
  "lanes_of priority_of xs = map (\<lambda>p. filter (\<lambda>a. priority_of a = p) xs) urgency"

lemma by_urgency_lanes: "by_urgency priority_of xs = concat (lanes_of priority_of xs)"
  by (simp add: by_urgency_def lanes_of_def)

lemma by_urgency_length: "length (by_urgency priority_of xs) = length xs"
proof (induction xs)
  case (Cons a xs)
  then show ?case
    by (cases "priority_of a") (simp_all add: by_urgency_def urgency_def)
qed (simp add: by_urgency_def urgency_def)

lemma lanes_of_nth: "lanes_of priority_of xs ! priority_index p = filter (\<lambda>a. priority_of a = p) xs"
  by (cases p) (simp_all add: lanes_of_def urgency_def numeral_nat)

lemma lanes_of_append:
  "(lanes_of priority_of xs)[priority_index (priority_of a) := filter (\<lambda>b. priority_of b = priority_of a) xs @ [a]] =
   lanes_of priority_of (xs @ [a])"
  by (cases "priority_of a") (simp_all add: lanes_of_def urgency_def numeral_nat)

lemma remove1_other: "\<not> P a \<Longrightarrow> filter P (remove1 a xs) = filter P xs"
  by (induction xs) auto

lemma remove1_first: "filter P xs = a # r \<Longrightarrow> filter P (remove1 a xs) = r"
  by (simp add: filter_remove1)

lemma filter_first: "filter P xs = a # r \<Longrightarrow> P a"
  by (metis filter_eq_ConsD)

lemma lanes_of_remove:
  assumes "concat (lanes_of priority_of xs) = a # r"
  shows "pop_first (lanes_of priority_of xs) = lanes_of priority_of (remove1 a xs)"
proof -
  have step: "pop_first (map (\<lambda>p. filter (\<lambda>a. priority_of a = p) xs) ps) =
      map (\<lambda>p. filter (\<lambda>a. priority_of a = p) (remove1 a xs)) ps"
    if "distinct ps" "concat (map (\<lambda>p. filter (\<lambda>a. priority_of a = p) xs) ps) = a # r" for ps
    using that
  proof (induction ps)
    case (Cons p ps)
    show ?case
    proof (cases "filter (\<lambda>a. priority_of a = p) xs")
      case Nil
      with Cons have "a \<in> set (concat (map (\<lambda>p. filter (\<lambda>a. priority_of a = p) xs) ps))"
        by simp
      with Cons.prems(1) have "priority_of a \<noteq> p"
        by auto
      with Nil Cons show ?thesis
        by (simp add: remove1_other)
    next
      case (Cons b bs)
      with Cons.prems have b: "b = a" "priority_of a = p"
        using filter_first [OF Cons] by simp_all
      have "filter (\<lambda>a. priority_of a = q) (remove1 a xs) = filter (\<lambda>a. priority_of a = q) xs" if "q \<in> set ps" for q
        using b(2) Cons.prems(1) that by (intro remove1_other) auto
      then show ?thesis
        using Cons b(1) remove1_first [OF Cons] by simp
    qed
  qed simp
  have "distinct urgency"
    by (simp add: urgency_def)
  then show ?thesis
    using step assms unfolding lanes_of_def by blast
qed

lemma priority_index_less: "priority_index p < 5"
  by (cases p) simp_all

lemma pq_cap_update:
  "i < length lanes \<Longrightarrow> bound c = bound (lanes ! i) \<Longrightarrow> pq_cap bound (lanes[i := c]) = pq_cap bound lanes"
  by (auto simp: pq_cap_def fun_eq_iff nth_list_update)

lemma pq_cap_Cons: "bound c = bound d \<Longrightarrow> pq_cap bound cs = pq_cap bound ds \<Longrightarrow> length cs = length ds \<Longrightarrow>
  pq_cap bound (c # cs) = pq_cap bound (d # ds)"
  by (auto simp: pq_cap_def fun_eq_iff nth_Cons split: nat.splits) (metis Suc_less_eq)+

locale priority_channels = mpsc ops queued bound rx_open tx_open
  for ops :: "('c, 'a) mpsc_ops"
  and queued :: "'c \<Rightarrow> 'a list"
  and bound :: "'c \<Rightarrow> nat"
  and rx_open :: "'c \<Rightarrow> bool"
  and tx_open :: "'c \<Rightarrow> bool" +
  fixes priority_of :: "'a \<Rightarrow> task_priority"
begin

lemma pq_offer_room:
  assumes "pq_open rx_open tx_open lanes"
    and "length (map queued lanes ! priority_index (priority_of a)) < pq_cap bound lanes (priority_index (priority_of a))"
  shows "\<exists>lanes'. pq_offer ops priority_of a lanes = (True, lanes') \<and> pq_open rx_open tx_open lanes' \<and>
    pq_cap bound lanes' = pq_cap bound lanes \<and>
    map queued lanes' = (map queued lanes)[priority_index (priority_of a) :=
      map queued lanes ! priority_index (priority_of a) @ [a]]"
proof -
  let ?i = "priority_index (priority_of a)"
  have i: "?i < length lanes"
    using priority_index_less assms(1) by (simp add: pq_open_def)
  then have c: "rx_open (lanes ! ?i)" "tx_open (lanes ! ?i)"
    using assms(1) by (simp_all add: pq_open_def)
  have "length (queued (lanes ! ?i)) < bound (lanes ! ?i)"
    using assms(2) i by (simp add: pq_cap_def)
  from try_send_room [OF c(1) this, of a] obtain c' where c': "ch_try_send ops a (lanes ! ?i) = (Inr (), c')"
    "queued c' = queued (lanes ! ?i) @ [a]" "bound c' = bound (lanes ! ?i)" "rx_open c'"
    "tx_open c' = tx_open (lanes ! ?i)"
    by blast
  have "pq_offer ops priority_of a lanes = (True, lanes[?i := c'])"
    using c'(1) by (simp add: pq_offer_def pq_try_send_def)
  moreover have "pq_open rx_open tx_open (lanes[?i := c'])"
    using assms(1) c c'(4,5) set_update_subset_insert [of lanes ?i c'] by (auto simp: pq_open_def)
  moreover have "map queued (lanes[?i := c']) = (map queued lanes)[?i := map queued lanes ! ?i @ [a]]"
    using i c'(2) by (simp add: map_update)
  ultimately show ?thesis
    using pq_cap_update [of ?i lanes bound c', OF i c'(3)] by blast
qed

lemma pq_offer_full:
  assumes "pq_open rx_open tx_open lanes"
    and "\<not> length (map queued lanes ! priority_index (priority_of a)) < pq_cap bound lanes (priority_index (priority_of a))"
  shows "pq_offer ops priority_of a lanes = (False, lanes)"
proof -
  let ?i = "priority_index (priority_of a)"
  have i: "?i < length lanes"
    using priority_index_less assms(1) by (simp add: pq_open_def)
  then have "ch_try_send ops a (lanes ! ?i) = (Inl (Full a), lanes ! ?i)"
    using assms by (intro try_send_full) (auto simp: pq_open_def pq_cap_def)
  then show ?thesis
    by (simp add: pq_offer_def pq_try_send_def)
qed

lemma pq_recv_some:
  "\<forall>c \<in> set lanes. rx_open c \<and> tx_open c \<Longrightarrow> concat (map queued lanes) = a # rest \<Longrightarrow>
   \<exists>lanes'. pq_recv ops lanes = (Ready (Some a), lanes') \<and> length lanes' = length lanes \<and>
     (\<forall>c \<in> set lanes'. rx_open c \<and> tx_open c) \<and> pq_cap bound lanes' = pq_cap bound lanes \<and>
     map queued lanes' = pop_first (map queued lanes)"
proof (induction lanes)
  case Nil
  then show ?case by simp
next
  case (Cons c cs)
  show ?case
  proof (cases "queued c")
    case Nil
    with Cons obtain cs' where cs': "pq_recv ops cs = (Ready (Some a), cs')" "length cs' = length cs"
      "\<forall>c \<in> set cs'. rx_open c \<and> tx_open c" "pq_cap bound cs' = pq_cap bound cs"
      "map queued cs' = pop_first (map queued cs)"
      by auto
    have "pq_recv ops (c # cs) = (Ready (Some a), c # cs')"
      using recv_none [OF Nil] Cons.prems(1) cs'(1) by simp
    moreover have "pq_cap bound (c # cs') = pq_cap bound (c # cs)"
      using cs'(2,4) by (intro pq_cap_Cons) simp_all
    ultimately show ?thesis
      using cs' Nil Cons.prems(1) by auto
  next
    case (Cons b bs)
    with Cons.prems(2) have b: "b = a"
      by simp
    from try_recv_some [OF Cons] obtain c' where c': "ch_try_recv ops c = (Inr b, c')" "queued c' = bs"
      "bound c' = bound c" "rx_open c' = rx_open c" "tx_open c' = tx_open c"
      by blast
    have "pq_recv ops (c # cs) = (Ready (Some a), c' # cs)"
      using recv_some [OF Cons] c'(1) b by simp
    moreover have "pq_cap bound (c' # cs) = pq_cap bound (c # cs)"
      using c'(3) by (intro pq_cap_Cons) simp_all
    ultimately show ?thesis
      using c' Cons \<open>\<forall>c \<in> set (c # cs). rx_open c \<and> tx_open c\<close> by auto
  qed
qed

lemma pq_recv_none:
  "\<forall>c \<in> set lanes. tx_open c \<Longrightarrow> concat (map queued lanes) = [] \<Longrightarrow> pq_recv ops lanes = (Pending, lanes)"
  by (induction lanes) (simp_all add: recv_none)

lemma pq_drain_lane_all:
  "length (queued c) < fuel \<Longrightarrow>
   \<exists>c'. pq_drain_lane ops fuel d c = Ret (d @ queued c, c') \<and> queued c' = []"
proof (induction fuel arbitrary: d c)
  case 0
  then show ?case by simp
next
  case (Suc fuel)
  show ?case
  proof (cases "queued c")
    case Nil
    then show ?thesis by (simp add: try_recv_none)
  next
    case (Cons a r)
    with try_recv_some [OF Cons] obtain c' where c': "ch_try_recv ops c = (Inr a, c')" "queued c' = r"
      by auto
    with Suc.prems Cons Suc.IH [of c' "d @ [a]"] show ?thesis by simp
  qed
qed

lemma pq_drain_from_all:
  "\<forall>c \<in> set lanes. length (queued c) < fuel \<Longrightarrow>
   \<exists>lanes'. pq_drain_from ops fuel d lanes = Ret (d @ concat (map queued lanes), lanes') \<and>
     concat (map queued lanes') = []"
proof (induction lanes arbitrary: d)
  case Nil
  then show ?case by simp
next
  case (Cons c cs)
  from pq_drain_lane_all [of c fuel d] Cons.prems obtain c' where
    c': "pq_drain_lane ops fuel d c = Ret (d @ queued c, c')" "queued c' = []"
    by auto
  from Cons.IH [of "d @ queued c"] Cons.prems obtain cs' where
    "pq_drain_from ops fuel (d @ queued c) cs = Ret ((d @ queued c) @ concat (map queued cs), cs')"
    "concat (map queued cs') = []"
    by auto
  with c' show ?case
    by (simp add: outcome_simps)
qed

lemma pq_drain_all:
  assumes "length (concat (map queued lanes)) < fuel"
  shows "\<exists>lanes'. pq_drain ops fuel lanes = Ret (concat (map queued lanes), lanes') \<and>
    concat (map queued lanes') = []"
proof -
  have "length (queued c) \<le> length (concat (map queued lanes))" if "c \<in> set lanes" for c
    using that by (induction lanes) auto
  with assms have "\<forall>c \<in> set lanes. length (queued c) < fuel"
    by (meson le_less_trans)
  from pq_drain_from_all [OF this, of "[]"] show ?thesis
    by (simp add: pq_drain_def)
qed

lemma priority_queue_new:
  assumes "0 < n" "n \<le> max_permits"
  shows "\<exists>lanes. priority_queue ops n = Ret lanes \<and> pq_open rx_open tx_open lanes \<and>
    concat (map queued lanes) = []"
  using channel_new [OF assms] by (auto simp: priority_queue_def pq_open_def outcome_simps)

end

sublocale priority_channels \<subseteq> pq: lane_queue
  "pq_open rx_open tx_open" "map queued" "pq_cap bound" "\<lambda>a. priority_index (priority_of a)"
  "pq_offer ops priority_of" "pq_take ops"
proof unfold_locales
  fix lanes a
  show "pq_open rx_open tx_open lanes \<Longrightarrow> priority_index (priority_of a) < length (map queued lanes)"
    using priority_index_less by (simp add: pq_open_def)
next
  fix lanes a rest
  assume "pq_open rx_open tx_open lanes" "concat (map queued lanes) = a # rest"
  with pq_recv_some [of lanes a rest]
  show "\<exists>lanes'. pq_take ops lanes = (Some a, lanes') \<and> pq_open rx_open tx_open lanes' \<and>
      pq_cap bound lanes' = pq_cap bound lanes \<and> map queued lanes' = pop_first (map queued lanes)"
    by (auto simp: pq_open_def pq_take_def)
next
  fix lanes
  assume "pq_open rx_open tx_open lanes" "concat (map queued lanes) = []"
  with pq_recv_none [of lanes] show "pq_take ops lanes = (None, lanes)"
    by (simp add: pq_open_def pq_take_def)
qed (use pq_offer_room pq_offer_full in blast)+

context priority_channels
begin

lemma pq_deqs: "pq_open rx_open tx_open lanes \<Longrightarrow>
  deqs (pq_take ops) n lanes = take n (concat (map queued lanes))"
  using pq.deqs_pending unfolding pq.pending_def .

lemma pq_never_stuck:
  "pq_open rx_open tx_open lanes \<Longrightarrow> pq_offer ops priority_of a lanes = (True, lanes') \<Longrightarrow>
   fst (pq_take ops lanes') \<noteq> None"
  by (rule pq.enq_deq_never_stuck)

text \<open>The lanes hold the arrivals by priority.\<close>

definition pq_holds :: "nat \<Rightarrow> 'c priority_lanes \<Rightarrow> 'a list \<Rightarrow> bool" where
  "pq_holds capacity lanes xs \<longleftrightarrow>
     pq_open rx_open tx_open lanes \<and> (\<forall>i < 5. pq_cap bound lanes i = capacity) \<and>
     map queued lanes = lanes_of priority_of xs"

lemma pq_exec_refines:
  assumes "pq_holds capacity lanes xs"
  shows "fst (pq_exec ops priority_of c lanes) = fst (arrivals_exec capacity priority_of c xs) \<and>
    pq_holds capacity (snd (pq_exec ops priority_of c lanes)) (snd (arrivals_exec capacity priority_of c xs))"
proof -
  have opened: "pq_open rx_open tx_open lanes" and cap: "\<And>i. i < 5 \<Longrightarrow> pq_cap bound lanes i = capacity"
    and lanes: "map queued lanes = lanes_of priority_of xs"
    using assms by (simp_all add: pq_holds_def)
  show ?thesis
  proof (cases c)
    case (PqOffer a)
    show ?thesis
    proof (cases "length (filter (\<lambda>b. priority_of b = priority_of a) xs) < capacity")
      case True
      then show ?thesis
        using pq_offer_room [OF opened, of a] PqOffer cap priority_index_less
        by (auto simp: pq_holds_def lanes lanes_of_nth lanes_of_append)
    next
      case False
      then show ?thesis
        using pq_offer_full [OF opened, of a] PqOffer cap priority_index_less assms
        by (auto simp: lanes lanes_of_nth)
    qed
  next
    case PqTake
    show ?thesis
    proof (cases "concat (lanes_of priority_of xs)")
      case Nil
      then have "by_urgency priority_of xs = []" "pq_take ops lanes = (None, lanes)"
        using pq.deq_none [OF opened] by (simp_all only: lanes by_urgency_lanes)
      then show ?thesis
        using PqTake assms by simp
    next
      case (Cons a r)
      then show ?thesis
        using pq.deq_some [OF opened, of a r] PqTake cap lanes_of_remove [OF Cons]
        by (auto simp: pq_holds_def lanes by_urgency_lanes)
    qed
  qed
qed

lemma priority_queue_holds:
  assumes "0 < n" "n \<le> max_permits"
  shows "\<exists>lanes. priority_queue ops n = Ret lanes \<and> pq_holds n lanes []"
  using channel_new [OF assms]
  by (auto simp: priority_queue_def pq_holds_def pq_open_def pq_cap_def outcome_simps lanes_of_def urgency_def
      nth_Cons' less_Suc_eq numeral_nat)

lemma pq_run_refines:
  assumes "pq_holds capacity lanes xs"
  shows "fst (run_cmds (pq_exec ops priority_of) cs lanes) = fst (run_cmds (arrivals_exec capacity priority_of) cs xs) \<and>
    pq_holds capacity (snd (run_cmds (pq_exec ops priority_of) cs lanes))
      (snd (run_cmds (arrivals_exec capacity priority_of) cs xs))"
  by (rule run_cmds_refines [where R = "pq_holds capacity", OF _ assms]) (rule pq_exec_refines)

end

interpretation packets: priority_channels fifo_ops ff_queue ff_bound ff_rx ff_tx "\<lambda>p. from_tags (pk_tags p)"
  by (simp add: priority_channels_def fifo_mpsc)

lemma fifo_priority_channels:
  "priority_channels fifo_ops ff_queue ff_bound ff_rx ff_tx"
  by (simp add: priority_channels_def fifo_mpsc)

text \<open>
  C37. The scheduler's queue is a priority queue. A fresh one answers every sequence of offers and
  takes as the list of arrivals does: an offer is accepted exactly while fewer than the capacity of
  items of its priority are queued, and a take gives the oldest item of the most urgent priority
  present, realtime before high before normal before low before background. At any time draining,
  with more fuel than there are items, returns all of them in that order and leaves none.
\<close>

theorem priority_queue_order:
  assumes "priority_channels ops queued bound rx_open tx_open" "0 < capacity" "capacity \<le> max_permits"
  shows "\<exists>new. priority_queue ops capacity = Ret new \<and>
    (\<forall>cs answers lanes. run_cmds (pq_exec ops priority_of) cs new = (answers, lanes) \<longrightarrow>
       (\<exists>xs. run_cmds (arrivals_exec capacity priority_of) cs [] = (answers, xs) \<and>
          (\<forall>fuel > length xs. \<exists>empty. pq_drain ops fuel lanes = Ret (by_urgency priority_of xs, empty) \<and>
             concat (map queued empty) = [])))"
proof -
  obtain new where new: "priority_queue ops capacity = Ret new"
      "priority_channels.pq_holds queued bound rx_open tx_open priority_of capacity new []"
    using priority_channels.priority_queue_holds [OF assms] by blast
  have "\<exists>xs. run_cmds (arrivals_exec capacity priority_of) cs [] = (answers, xs) \<and>
      (\<forall>fuel > length xs. \<exists>empty. pq_drain ops fuel lanes = Ret (by_urgency priority_of xs, empty) \<and>
         concat (map queued empty) = [])"
    if "run_cmds (pq_exec ops priority_of) cs new = (answers, lanes)" for cs answers lanes
  proof -
    obtain expected xs where run: "run_cmds (arrivals_exec capacity priority_of) cs [] = (expected, xs)"
      by (rule prod.exhaust)
    have "answers = expected" and "map queued lanes = lanes_of priority_of xs"
      using priority_channels.pq_run_refines [OF assms(1) new(2), of cs] that run
      by (simp_all add: priority_channels.pq_holds_def [OF assms(1)])
    with run show ?thesis
      using priority_channels.pq_drain_all [OF assms(1), of lanes] by_urgency_length [of priority_of xs]
      by (simp add: by_urgency_lanes)
  qed
  with new(1) show ?thesis
    by blast
qed

end
