(* ===== verification/Wire_Codec.thy ===== *)
theory Wire_Codec
  imports Packets
begin

text \<open>
  A byte format for the packets of \<open>Packets\<close>, standing for \<open>bincode\<close> where a property about
  serialization is applied: a codec pairs an encoder with a parser of a prefix of the input, and
  the combinators build the packet's codec from those of its fields.
\<close>

type_synonym 'a codec = "('a \<Rightarrow> u8 list) \<times> (u8 list \<Rightarrow> ('a \<times> u8 list) option)"

definition codec :: "'a codec \<Rightarrow> bool" where
  "codec c \<longleftrightarrow> (\<forall>x r. snd c (fst c x @ r) = Some (x, r))"

lemma codecD: "codec c \<Longrightarrow> snd c (fst c x @ r) = Some (x, r)"
  by (simp add: codec_def)

text \<open>Numbers, seven bits to a byte, the highest bit set on every byte but the last.\<close>

fun enc_nat :: "nat \<Rightarrow> u8 list" where
  "enc_nat n = (if n < 128 then [of_nat n] else of_nat (128 + n mod 128) # enc_nat (n div 128))"

declare enc_nat.simps [simp del]

fun dec_nat :: "u8 list \<Rightarrow> (nat \<times> u8 list) option" where
  "dec_nat [] = None"
| "dec_nat (b # r) =
     (if unat b < 128 then Some (unat b, r)
      else map_option (\<lambda>(m, r'). (unat b - 128 + 128 * m, r')) (dec_nat r))"

lemma unat_byte: "n < 256 \<Longrightarrow> unat (of_nat n :: u8) = n"
  by (simp add: unat_of_nat take_bit_eq_mod)

lemma dec_enc_nat: "dec_nat (enc_nat n @ r) = Some (n, r)"
proof (induction n rule: enc_nat.induct)
  case (1 n)
  show ?case
  proof (cases "n < 128")
    case True
    then show ?thesis by (subst enc_nat.simps) (simp add: unat_byte)
  next
    case False
    have "unat (of_nat (128 + n mod 128) :: u8) = 128 + n mod 128"
      by (rule unat_byte) simp
    with 1 False show ?thesis
      by (subst enc_nat.simps) (simp del: of_nat_add)
  qed
qed

definition c_nat :: "nat codec" where
  "c_nat = (enc_nat, dec_nat)"

definition c_map :: "('b \<Rightarrow> 'a) \<Rightarrow> ('a \<Rightarrow> 'b) \<Rightarrow> 'a codec \<Rightarrow> 'b codec" where
  "c_map f g c = (fst c \<circ> f, (\<lambda>bs. map_option (\<lambda>(x, r). (g x, r)) (snd c bs)))"

definition c_pair :: "'a codec \<Rightarrow> 'b codec \<Rightarrow> ('a \<times> 'b) codec" where
  "c_pair c d =
     ((\<lambda>(x, y). fst c x @ fst d y),
      (\<lambda>bs. Option.bind (snd c bs) (\<lambda>(x, r). map_option (\<lambda>(y, r'). ((x, y), r')) (snd d r))))"

definition c_word :: "'w::len word codec" where
  "c_word = c_map unat of_nat c_nat"

text \<open>A list is its length and its elements; an option is a list of at most one.\<close>

fun dec_many :: "(u8 list \<Rightarrow> ('a \<times> u8 list) option) \<Rightarrow> nat \<Rightarrow> u8 list \<Rightarrow> ('a list \<times> u8 list) option" where
  "dec_many d 0 bs = Some ([], bs)"
| "dec_many d (Suc n) bs =
     Option.bind (d bs) (\<lambda>(x, r). map_option (\<lambda>(xs, r'). (x # xs, r')) (dec_many d n r))"

definition c_list :: "'a codec \<Rightarrow> 'a list codec" where
  "c_list c =
     ((\<lambda>xs. enc_nat (length xs) @ concat (map (fst c) xs)),
      (\<lambda>bs. Option.bind (dec_nat bs) (\<lambda>(n, r). dec_many (snd c) n r)))"

definition c_option :: "'a codec \<Rightarrow> 'a option codec" where
  "c_option c = c_map (\<lambda>v. case v of None \<Rightarrow> [] | Some x \<Rightarrow> [x])
     (\<lambda>xs. case xs of [] \<Rightarrow> None | x # _ \<Rightarrow> Some x) (c_list c)"

text \<open>An enumeration is the position of its value.\<close>

definition c_enum :: "'a list \<Rightarrow> 'a codec" where
  "c_enum vs = c_map (\<lambda>v. the (position (\<lambda>w. w = v) vs)) (\<lambda>n. vs ! n) c_nat"

lemma codec_nat [intro]: "codec c_nat"
  by (simp add: codec_def c_nat_def dec_enc_nat)

lemma codec_map: "codec c \<Longrightarrow> (\<And>x. g (f x) = x) \<Longrightarrow> codec (c_map f g c)"
  by (simp add: codec_def c_map_def)

lemma codec_pair [intro]: "codec c \<Longrightarrow> codec d \<Longrightarrow> codec (c_pair c d)"
  by (simp add: codec_def c_pair_def)

lemma codec_word [intro]: "codec c_word"
  unfolding c_word_def by (rule codec_map) auto

lemma dec_many_enc: "codec c \<Longrightarrow> dec_many (snd c) (length xs) (concat (map (fst c) xs) @ r) = Some (xs, r)"
  by (induction xs) (simp_all add: codecD)

lemma codec_list [intro]: "codec c \<Longrightarrow> codec (c_list c)"
  unfolding codec_def [of "c_list c"] by (simp add: c_list_def dec_enc_nat dec_many_enc)

lemma codec_option [intro]: "codec c \<Longrightarrow> codec (c_option c)"
  unfolding c_option_def by (rule codec_map) (auto split: option.split)

lemma codec_enum: "(\<And>v. v \<in> set vs) \<Longrightarrow> codec (c_enum vs)"
  unfolding c_enum_def
proof (rule codec_map)
  fix v assume all: "\<And>v. v \<in> set vs"
  then obtain n where "position (\<lambda>w. w = v) vs = Some n"
    using position_None [of "\<lambda>w. w = v" vs] by (cases "position (\<lambda>w. w = v) vs") auto
  then show "vs ! the (position (\<lambda>w. w = v) vs) = v"
    using position_SomeD by fastforce
qed auto

subsection \<open>Packets\<close>

definition c_session :: "session_id codec" where
  "c_session = c_map (\<lambda>i. case i of SessionId u \<Rightarrow> u) SessionId c_word"

definition c_flow :: "flow_id codec" where
  "c_flow = c_map (\<lambda>i. case i of FlowId u \<Rightarrow> u) FlowId c_word"

definition c_stream :: "stream_id codec" where
  "c_stream = c_map (\<lambda>i. case i of StreamId u \<Rightarrow> u) StreamId c_word"

definition c_route :: "route_id codec" where
  "c_route = c_map (\<lambda>i. case i of RouteId u \<Rightarrow> u) RouteId c_word"

definition c_node :: "node_id codec" where
  "c_node = c_map node_uuid NodeId c_word"

definition c_module :: "module_id codec" where
  "c_module = c_map (\<lambda>i. case i of ModuleId u \<Rightarrow> u) ModuleId c_word"

definition c_packet_id :: "packet_id codec" where
  "c_packet_id = c_map (\<lambda>i. case i of PacketId u \<Rightarrow> u) PacketId c_word"

definition c_role :: "role codec" where
  "c_role = c_enum [Client, Server, Relay, Gateway]"

definition c_reliability :: "reliability codec" where
  "c_reliability = c_enum [BestEffort, Reliable, AtMostOnce]"

definition c_privacy :: "privacy_policy codec" where
  "c_privacy = c_enum [NoPrivacy, StandardPrivacy, MaximumPrivacy, MinimalPrivacy]"

definition c_bool :: "bool codec" where
  "c_bool = c_enum [False, True]"

lemma codec_fields [intro]:
  "codec c_session" "codec c_flow" "codec c_stream" "codec c_route" "codec c_node" "codec c_module"
  "codec c_packet_id"
  unfolding c_session_def c_flow_def c_stream_def c_route_def c_node_def c_module_def c_packet_id_def
  by (rule codec_map; (rule codec_word | (case_tac x; simp)))+

lemma codec_enums [intro]:
  "codec c_role" "codec c_reliability" "codec c_privacy" "codec c_bool"
  unfolding c_role_def c_reliability_def c_privacy_def c_bool_def
  by (rule codec_enum; (case_tac v; simp))+

definition c_metadata :: "metadata_wire codec" where
  "c_metadata = c_map
     (\<lambda>m. (((md_session_id m, md_flow_id m, md_stream_id m, md_route_id m),
            (md_source_node m, md_destination_node m, md_source_role m, md_destination_role m)),
           ((md_priority m, md_deadline m, md_mtu_hint m, md_latency_hint_us m),
            (md_reliability m, md_created_at m, md_ttl m, md_retry_count m)),
           ((md_origin_module m, md_trace m, md_traced m, md_trace_detailed m),
            (md_trace_timestamps_ms m, md_privacy_policy m, md_capability_mask m))))
     (\<lambda>(((se, fl, st, ro), (sn, dn, sr, dr)), ((pr, de, mt, la), (re, cr, tt, rc)),
         ((om, tr, td, dt), (ts, pp, cm))).
        \<lparr>md_session_id = se, md_flow_id = fl, md_stream_id = st, md_route_id = ro,
         md_source_node = sn, md_destination_node = dn, md_source_role = sr, md_destination_role = dr,
         md_priority = pr, md_deadline = de, md_mtu_hint = mt, md_latency_hint_us = la,
         md_reliability = re, md_created_at = cr, md_ttl = tt, md_retry_count = rc,
         md_origin_module = om, md_trace = tr, md_traced = td, md_trace_detailed = dt,
         md_trace_timestamps_ms = ts, md_privacy_policy = pp, md_capability_mask = cm\<rparr>)
     (c_pair
       (c_pair (c_pair c_session (c_pair c_flow (c_pair c_stream c_route)))
         (c_pair (c_option c_node) (c_pair (c_option c_node) (c_pair (c_option c_role) (c_option c_role)))))
       (c_pair
         (c_pair (c_pair c_word (c_pair (c_option c_word) (c_pair (c_option c_word) (c_option c_word))))
           (c_pair c_reliability (c_pair c_word (c_pair c_word c_word))))
         (c_pair (c_pair (c_option c_module) (c_pair (c_list c_node) (c_pair c_bool c_bool)))
           (c_pair (c_list c_word) (c_pair c_privacy c_word)))))"

lemma codec_metadata [intro]: "codec c_metadata"
  unfolding c_metadata_def
  by (rule codec_map) (blast, simp)

definition c_packet :: "packet_wire codec" where
  "c_packet = c_map (\<lambda>w. (pw_id w, pw_payload w, pw_metadata w, pw_tags w))
     (\<lambda>(i, p, m, t). \<lparr>pw_id = i, pw_payload = p, pw_metadata = m, pw_tags = t\<rparr>)
     (c_pair c_packet_id (c_pair (c_list c_word) (c_pair c_metadata c_word)))"

lemma codec_packet: "codec c_packet"
  unfolding c_packet_def by (rule codec_map) (blast, simp)

definition wire_encode :: "packet_wire \<Rightarrow> u8 list" where
  "wire_encode = fst c_packet"

definition wire_decode :: "u8 list \<Rightarrow> unit + packet_wire" where
  "wire_decode bs = (case snd c_packet bs of Some (w, []) \<Rightarrow> Inr w | _ \<Rightarrow> Inl ())"

lemma wire_decode_encode: "wire_decode (wire_encode w) = Inr w"
  using codecD [OF codec_packet, of w "[]"] by (simp add: wire_decode_def wire_encode_def)

end
