(* ===== verification/Samples.thy ===== *)
theory Samples
  imports Execution Conflicts Dependency_Graph Priority_Queue Package_Signing Wire_Codec
begin

text \<open>
  A small concrete runtime, and the properties that have hypotheses applied to it: the external
  packages are the reference channel, archive and signature scheme, modules pass packets on,
  and the graph is two nodes joined by an edge.
\<close>

subsection \<open>The runtime\<close>

definition sample_f64 :: "nat f64_ops" where
  "sample_f64 = \<lparr>f_of_nat = (\<lambda>n. n), f_le = (\<le>), f_lt = (<), f_add = (+), f_sub = (-), f_mul = (*),
     f_div = (div), f_ceil_u64 = of_nat, f_to_i64 = of_nat\<rparr>"

definition sample_metadata :: "string \<Rightarrow> sem_ver module_metadata" where
  "sample_metadata name = module_metadata_new name (SemVer 1 0 0) FlowModule"

definition sample_module :: "(sem_ver, string, unit) node_ops" where
  "sample_module = \<lparr>op_metadata = sample_metadata, op_initialize = (\<lambda>ctx m. (Ret (Inr ()), m, ctx)),
     op_process = (\<lambda>p m. (Ret (Inr (Some p)), m)), op_shutdown = (\<lambda>ctx m. (Ret (Inr ()), m, ctx)),
     op_health = default_health, op_migrate = default_migrate,
     op_supports_migration = default_supports_migration, op_node_type = (\<lambda>m. Transformer),
     op_input_queue_depth = (\<lambda>m. 0), op_output_connections = (\<lambda>m. [])\<rparr>"

definition sample_ext :: "(sem_ver, string, unit, packet fifo, nat) ext" where
  "sample_ext = \<lparr>x_node = sample_module, x_mpsc = fifo_ops, x_f64 = sample_f64,
     x_uuid = (\<lambda>u. show_nat (unat u)), x_cancel_subscriptions = (\<lambda>ctx. ctx)\<rparr>"

definition open_fifo :: "'a list \<Rightarrow> nat \<Rightarrow> 'a fifo" where
  "open_fifo xs n = \<lparr>ff_queue = xs, ff_bound = n, ff_rx = True, ff_tx = True\<rparr>"

definition sample_queue :: "packet fifo node_queue" where
  "sample_queue = \<lparr>nq_control = open_fifo [] 4, nq_interactive = open_fifo [] 4, nq_bulk = open_fifo [] 4\<rparr>"

definition sample_node :: "node_id \<Rightarrow> string \<Rightarrow> (string, packet fifo, unit) graph_node" where
  "sample_node i name = \<lparr>gn_id = i, gn_node_type = Transformer,
     gn_module = \<lparr>arc_ptr = unat (node_uuid i), arc_value = name, arc_owners = 1\<rparr>,
     gn_config = node_config_default (), gn_state = Running, gn_queue = sample_queue\<rparr>"

abbreviation n1 :: node_id where "n1 \<equiv> NodeId 1"
abbreviation n2 :: node_id where "n2 \<equiv> NodeId 2"
abbreviation n3 :: node_id where "n3 \<equiv> NodeId 3"

definition sample_edge :: "node_id \<Rightarrow> node_id \<Rightarrow> packet fifo edge" where
  "sample_edge a b = \<lparr>ed_from = a, ed_to = b, ed_type = Sequential, ed_condition = None,
     ed_queue = open_fifo [] 2, ed_dropped = 0\<rparr>"

definition sample_graph :: "(string, packet fifo, unit) flow_graph" where
  "sample_graph =
     fg_mark_exit_point n2 (fg_mark_entry_point n1
       (snd (fg_connect sample_ext (sample_edge n1 n2)
         (fg_add_node (sample_node n2 ''sink'') (fg_add_node (sample_node n1 ''source'') fg_new)))))"

definition sample_fresh :: fresh where
  "sample_fresh = \<lparr>fr_packet = PacketId 1, fr_session = SessionId 1, fr_flow = FlowId 1,
     fr_stream = StreamId 1, fr_now = 0\<rparr>"

definition sample_packet :: packet where
  "sample_packet = packet_new sample_fresh (Payload [1, 2, 3])"

definition sample_env :: run_env where
  "sample_env = \<lparr>ev_hop_now = (\<lambda>n. 0), ev_hop_elapsed = (\<lambda>n. 1000), ev_start = 0, ev_total = 5000\<rparr>"

subsection \<open>The graph is well formed, acyclic and idle\<close>

lemma sample_wf: "wf_graph sample_graph"
  unfolding sample_graph_def by (intro wf_intros)

lemma sample_neq [simp]: "n1 \<noteq> n2" "n2 \<noteq> n1"
  by simp_all

lemma sample_nodes_added:
  "fg_add_node (sample_node n2 ''sink'') (fg_add_node (sample_node n1 ''source'') fg_new) =
     \<lparr>fg_nodes = [n1 \<mapsto> sample_node n1 ''source'', n2 \<mapsto> sample_node n2 ''sink''],
      fg_edges = [], fg_adjacency = [n1 \<mapsto> [], n2 \<mapsto> []],
      fg_entry_points = [], fg_exit_points = [], fg_allowed_feedback = {}\<rparr>"
  by (simp add: fg_add_node_def fg_new_def sample_node_def or_insert_def Let_def)

lemma sample_connected:
  "snd (fg_connect X (sample_edge n1 n2)
      \<lparr>fg_nodes = [n1 \<mapsto> a, n2 \<mapsto> b], fg_edges = [], fg_adjacency = [n1 \<mapsto> [], n2 \<mapsto> []],
       fg_entry_points = [], fg_exit_points = [], fg_allowed_feedback = {}\<rparr>) =
     \<lparr>fg_nodes = [n1 \<mapsto> a, n2 \<mapsto> b], fg_edges = [sample_edge n1 n2], fg_adjacency = [n1 \<mapsto> [n2], n2 \<mapsto> []],
      fg_entry_points = [], fg_exit_points = [], fg_allowed_feedback = {}\<rparr>"
  by (simp add: fg_connect_def sample_edge_def or_insert_def Let_def fun_upd_twist)

lemma sample_graph_eq:
  "sample_graph = \<lparr>fg_nodes = [n1 \<mapsto> sample_node n1 ''source'', n2 \<mapsto> sample_node n2 ''sink''],
     fg_edges = [sample_edge n1 n2], fg_adjacency = [n1 \<mapsto> [n2], n2 \<mapsto> []],
     fg_entry_points = [n1], fg_exit_points = [n2], fg_allowed_feedback = {}\<rparr>"
  by (simp add: sample_graph_def sample_nodes_added sample_connected fg_mark_exit_point_def fg_mark_entry_point_def)

lemmas sample_fields = sample_graph_eq

lemma sample_dom: "dom (fg_nodes sample_graph) = {n1, n2}"
  by (auto simp: sample_fields)

lemma sample_count: "fg_node_count sample_graph = 2"
  by (simp add: fg_node_count_def sample_dom)

lemma sample_order: "is_order [n1, n2] (fg_nodes sample_graph)"
  by (simp add: is_order_def sample_dom)

lemma sample_succs: "fg_succs sample_graph n = (if n = n1 then [n2] else [])"
  by (simp add: fg_succs_def sample_fields)

lemma sample_acyclic: "\<nexists>c. is_cycle (fg_succs sample_graph) c"
proof
  assume "\<exists>c. is_cycle (fg_succs sample_graph) c"
  then obtain c where c: "is_cycle (fg_succs sample_graph) c" ..
  have "topo (fg_succs sample_graph) [n2, n1]"
    by (auto simp: topo_def Cons_eq_append_conv sample_succs)
  then have "hd c \<notin> {n1, n2}"
    using topo_acyclic [of "fg_succs sample_graph" "[n2, n1]" c] c by auto
  moreover obtain u v w where "c = u # v # w"
    using c by (cases c; cases "tl c") (auto simp: is_cycle_def)
  ultimately show False
    using c by (auto simp: is_cycle_def path_in_def sample_succs split: if_splits)
qed

lemma sample_idle: "idle_graph ff_queue ff_bound ff_rx ff_tx sample_graph"
  by (auto simp: idle_graph_def idle_node_def sample_fields sample_node_def sample_queue_def open_fifo_def
      nq_open_def nq_lanes_def nq_cap_def less_Suc_eq numeral_3_eq_3 split: if_splits)

lemma sample_channels: "packet_channels (x_mpsc sample_ext) ff_queue ff_bound ff_rx ff_tx"
  by (simp add: sample_ext_def fifo_channels)

lemma sample_modules: "modules_return sample_ext" "modules_keep_trace sample_ext"
  by (simp_all add: modules_return_def modules_keep_trace_def sample_ext_def sample_module_def)

subsection \<open>Queues and edges\<close>

definition busy_queue :: "packet fifo node_queue" where
  "busy_queue = \<lparr>nq_control = \<lparr>ff_queue = [], ff_bound = 2, ff_rx = True, ff_tx = False\<rparr>,
     nq_interactive = open_fifo [] 2, nq_bulk = open_fifo [sample_packet] 2\<rparr>"

theorem node_queue_delivery_witness:
  "deqs (nq_try_recv_prioritized fifo_ops) 2 (sample_queue\<lparr>nq_bulk := open_fifo [sample_packet] 1\<rparr>) = [sample_packet]"
  using node_queue_delivery [OF fifo_channels, of "sample_queue\<lparr>nq_bulk := open_fifo [sample_packet] 1\<rparr>" 2]
  by (simp add: nq_open_def sample_queue_def open_fifo_def nq_lanes_def)

theorem node_queue_drain_witness:
  "\<exists>q'. nq_drain fifo_ops 2 busy_queue = Ret ([sample_packet], q') \<and> nq_is_empty fifo_ops q'"
  using node_queue_drain_complete [OF fifo_channels, of busy_queue 2]
  by (simp add: nq_len_def busy_queue_def open_fifo_def fifo_ops_def nq_lanes_def)

theorem node_queue_recv_witness:
  "fst (nq_recv fifo_ops busy_queue) = Ready None \<and> 0 < nq_len fifo_ops busy_queue"
  using node_queue_recv_ends_early [OF fifo_channels, of busy_queue sample_packet "[]"]
  by (simp add: busy_queue_def open_fifo_def)

theorem priority_queue_witness:
  "\<exists>new. priority_queue fifo_ops 1 = Ret new \<and>
     fst (run_cmds (pq_exec fifo_ops fst)
       [PqOffer (Background, 1 :: nat), PqOffer (Realtime, 2), PqOffer (Realtime, 3), PqTake, PqTake, PqTake] new) =
     [PqAccepted True, PqAccepted True, PqAccepted False, PqTaken (Some (Realtime, 2)),
      PqTaken (Some (Background, 1)), PqTaken None]"
proof -
  let ?cs = "[PqOffer (Background, 1 :: nat), PqOffer (Realtime, 2), PqOffer (Realtime, 3), PqTake, PqTake, PqTake]"
  let ?spec = "run_cmds (arrivals_exec 1 fst) ?cs []"
  have cap: "(0 :: nat) < 1" "1 \<le> max_permits"
    by (simp_all add: max_permits_def)
  obtain new where new: "priority_queue fifo_ops 1 = Ret new"
      and runs: "\<And>cs answers lanes. run_cmds (pq_exec fifo_ops fst) cs new = (answers, lanes) \<Longrightarrow>
        \<exists>xs. run_cmds (arrivals_exec 1 fst) cs [] = (answers, xs :: (task_priority \<times> nat) list)"
    using priority_queue_order [OF fifo_priority_channels cap, of fst] by blast
  obtain answers lanes where run: "run_cmds (pq_exec fifo_ops fst) ?cs new = (answers, lanes)"
    by (rule prod.exhaust)
  have "fst ?spec = [PqAccepted True, PqAccepted True, PqAccepted False, PqTaken (Some (Realtime, 2)),
      PqTaken (Some (Background, 1)), PqTaken None]"
    by (simp add: by_urgency_def urgency_def)
  with runs [OF run] run new show ?thesis
    by (metis fst_conv)
qed

theorem edge_burst_witness:
  "ff_queue (ed_queue (edge_offer_all fifo_ops [sample_packet, sample_packet, sample_packet] (sample_edge n1 n2))) =
     [sample_packet, sample_packet] \<and>
   ed_dropped (edge_offer_all fifo_ops [sample_packet, sample_packet, sample_packet] (sample_edge n1 n2)) = 1"
  using edge_burst_accounting [OF fifo_channels, of "sample_edge n1 n2" "[sample_packet, sample_packet, sample_packet]"]
  by (simp add: sample_edge_def open_fifo_def)

subsection \<open>Packets\<close>

definition deadline_packet :: packet where
  "deadline_packet = sample_packet\<lparr>pk_metadata := (pk_metadata sample_packet)\<lparr>md_deadline := Some 2500000\<rparr>\<rparr>"

theorem packet_roundtrip_witness:
  "\<exists>q. packet_decode wire_decode 9000000 (packet_encode wire_encode 1000000 deadline_packet) = Inr q \<and>
     md_deadline (pk_metadata q) = Some 10000000 \<and> pk_payload q = Payload [1, 2, 3]"
proof -
  have dl: "md_deadline (pk_metadata deadline_packet) = Some 2500000"
    "md_created_at (pk_metadata deadline_packet) = 0" "pk_payload deadline_packet = Payload [1, 2, 3]"
    by (simp_all add: deadline_packet_def sample_packet_def packet_new_def metadata_new_def sample_fresh_def)
  obtain q where q: "packet_decode wire_decode 9000000 (packet_encode wire_encode 1000000 deadline_packet) = Inr q"
    "md_deadline (pk_metadata q) = map_option (\<lambda>d. 9000000 + carried (d - 1000000)) (md_deadline (pk_metadata deadline_packet))"
    "q\<lparr>pk_metadata := (pk_metadata q)\<lparr>md_deadline := md_deadline (pk_metadata deadline_packet),
        md_created_at := md_created_at (pk_metadata deadline_packet)\<rparr>\<rparr> = deadline_packet"
    using packet_roundtrip [of wire_decode wire_encode 9000000 1000000 deadline_packet, OF wire_decode_encode]
    by (elim exE conjE)
  have "md_deadline (pk_metadata q) = Some 10000000"
    using q(2) dl(1) by (simp add: carried_def nanos_per_milli_def)
  with arg_cong [OF q(3), of pk_payload] q(1) dl(3) show ?thesis
    by simp
qed

end
