(* ===== verification/Graph_Samples.thy ===== *)
theory Graph_Samples
  imports Samples Graph_Edit Execution
begin

text \<open>
  The properties of graphs and of their execution applied to the sample graph.
\<close>

subsection \<open>Queries and validation\<close>

lemma sample_live: "fg_live sample_graph = fg_succs sample_graph"
  by (simp add: fg_live_def sample_fields fun_eq_iff)

lemma sample_route: "path_in (fg_succs sample_graph) [n1, n2]"
  by (simp add: path_in_Cons sample_succs)

lemma sample_reaches: "reaches (fg_succs sample_graph) n1 n2"
  unfolding reaches_def by (rule exI [of _ "[n1, n2]"]) (simp add: sample_route)

theorem connect_disconnect_witness:
  "fg_edges (snd (fg_connect sample_ext (sample_edge n2 n1) sample_graph)) = [sample_edge n1 n2, sample_edge n2 n1] \<and>
   fst (fg_disconnect n2 n1 sample_graph) = None"
  using connect_disconnect [where X = sample_ext and e = "sample_edge n2 n1" and a = n2 and b = n1, OF sample_wf]
  by (auto simp: sample_fields sample_edge_def Cons_eq_append_conv split: prod.splits sum.splits option.splits)

theorem find_path_witness:
  "\<exists>p. fg_find_path sample_graph n1 n2 = Ret (Some p) \<and> length p \<le> 2"
proof -
  obtain r where r: "fg_find_path sample_graph n1 n2 = Ret r"
    "case r of
       Some p \<Rightarrow> path_in (fg_succs sample_graph) p \<and> hd p = n1 \<and> last p = n2 \<and> set p \<subseteq> dom (fg_nodes sample_graph) \<and>
         (\<nexists>q. path_in (fg_succs sample_graph) q \<and> hd q = n1 \<and> last q = n2 \<and> length q < length p)
     | None \<Rightarrow> n1 \<notin> dom (fg_nodes sample_graph) \<or> n2 \<notin> dom (fg_nodes sample_graph) \<or>
         \<not> reaches (fg_succs sample_graph) n1 n2"
    using find_path_shortest [OF sample_wf, of n1 n2] by blast
  then obtain p where p: "r = Some p"
    by (cases r) (auto simp: sample_dom sample_reaches)
  have "\<nexists>q. path_in (fg_succs sample_graph) q \<and> hd q = n1 \<and> last q = n2 \<and> length q < length p"
    using r(2) p by simp
  then have "\<not> length [n1, n2] < length p"
    using sample_route by (metis last.simps list.discI list.sel(1))
  with r(1) p show ?thesis
    by simp
qed

theorem detect_cycle_witness:
  "fg_detect_cycle [n1, n2] sample_graph = Ret None"
  using detect_cycle_exact [OF sample_wf sample_order] sample_acyclic
  by (auto simp: sample_live split: option.splits)

theorem validate_witness:
  "fg_validate sample_ext [n1, n2] sample_graph = Ret (Inr ())"
proof -
  have "valid_graph sample_graph"
    using sample_acyclic sample_reaches
    by (simp add: valid_graph_def sample_live entries_reach_exit_def no_orphans_def sample_dom)
       (simp add: sample_fields)
  with validate_decides [OF sample_wf sample_order, of sample_ext] show ?thesis
    by auto
qed

subsection \<open>Edits\<close>

theorem buildable_witness:
  "wf_graph sample_graph"
proof (rule buildable_well_formed [of sample_ext])
  show "buildable sample_ext sample_graph"
    unfolding sample_graph_def
    by (rule build_step [OF build_step [OF build_step [OF build_step [OF build_step [OF build_new]]]]])
      (rule graph_step.intros)+
qed

lemma sample_new_edge: "\<exists>e. edge_new_unread fifo_ops a b ty cond 8 = Ret (e :: packet fifo edge)"
  by (rule packet_channels.edge_new_unread_ok [OF fifo_channels]) (simp_all add: max_permits_def)

definition mid_node :: "(string, packet fifo, unit) graph_node" where
  "mid_node = (sample_node n3 ''mid'')\<lparr>gn_config := (gn_config (sample_node n3 ''mid''))\<lparr>nc_queue_capacity := 8\<rparr>\<rparr>"

lemma mid_node_fields: "gn_id mid_node = n3" "nc_queue_capacity (gn_config mid_node) = 8"
  by (simp_all add: mid_node_def sample_node_def)

theorem insert_after_witness:
  "\<exists>r g'. fg_insert_after sample_ext n1 mid_node sample_graph = Ret (r, g') \<and>
     fg_succs g' n1 = [n3] \<and> fg_succs g' n3 = [n2]"
proof -
  obtain e1 e2 where
    "edge_new_unread fifo_ops n1 n3 Sequential None 8 = Ret (e1 :: packet fifo edge)"
    "edge_new_unread fifo_ops n3 n2 Sequential None 8 = Ret (e2 :: packet fifo edge)"
    using sample_new_edge by metis
  then obtain r g' where r: "fg_insert_after sample_ext n1 mid_node sample_graph = Ret (r, g')"
    by (cases "fg_insert_after sample_ext n1 mid_node sample_graph")
      (auto simp: fg_insert_after_def outgoing_indices_def sample_fields sample_edge_def mid_node_fields
        fg_add_node_def Let_def sample_ext_def mid_node_def sample_node_def split: prod.splits sum.splits)
  have "gn_id mid_node \<notin> dom (fg_nodes sample_graph)" "n1 \<in> dom (fg_nodes sample_graph)"
    "\<not> 1 < length (fg_succs sample_graph n1)" "fg_succs sample_graph n1 = [n2]"
    by (simp_all add: mid_node_fields sample_dom sample_succs)
  with insert_after_splices [OF sample_wf r, of n1 n2] r show ?thesis
    by (auto simp: mid_node_fields sample_dom)
qed

theorem remove_and_reconnect_witness:
  "\<exists>r g'. fg_remove_and_reconnect sample_ext n2 sample_graph = Ret (r, g') \<and> wf_graph g'"
proof -
  obtain r g' where r: "fg_remove_and_reconnect sample_ext n2 sample_graph = Ret (r, g')"
    by (cases "fg_remove_and_reconnect sample_ext n2 sample_graph")
      (auto simp: fg_remove_and_reconnect_def fg_remove_node_def sample_fields sample_edge_def Let_def outcome_simps
        split: option.splits)
  with remove_and_reconnect_keeps_routes [OF sample_wf r, of n1 n1] show ?thesis
    by auto
qed

theorem swap_node_witness:
  "\<exists>r g' ctx'. fg_swap_node sample_ext n2 \<lparr>arc_ptr = 9, arc_value = ''other'', arc_owners = 1\<rparr> () sample_graph =
     Ret (r, g', ctx') \<and> wf_graph g'"
proof -
  let ?m = "\<lparr>arc_ptr = 9, arc_value = ''other'', arc_owners = 1\<rparr>"
  have "\<exists>q. node_queue_new fifo_ops DEFAULT_QUEUE_CAPACITY = Ret (q :: packet fifo node_queue)"
    using packet_channels.node_queue_new_ok [OF fifo_channels, of DEFAULT_QUEUE_CAPACITY]
    by (auto simp: DEFAULT_QUEUE_CAPACITY_def max_permits_def)
  then obtain r g' ctx' where r: "fg_swap_node sample_ext n2 ?m () sample_graph = Ret (r, g', ctx')"
    by (auto simp: fg_swap_node_def sample_fields gn_migrate_def graph_node_new_def sample_node_def
        node_config_default_def sample_ext_def sample_module_def default_migrate_def
        arc_get_mut_def gn_write_module_def outcome_simps Let_def)
  with swap_node_in_place [OF sample_wf r] show ?thesis
    by auto
qed

theorem throughput_window_witness:
  "tt_total (fst (tracker_record sample_f64 5 (FlowId 1) 3 tracker_new (\<lambda>_. registry_new))) = [(5, 3)]"
proof -
  have "tracker_inv 0 tracker_new"
    by (simp add: tracker_inv_def tracker_new_def window_at_def)
  from throughput_window_exact [OF this, of 5 sample_f64 "FlowId 1" 3 "\<lambda>_. registry_new"] show ?thesis
    by (simp add: tracker_new_def)
qed

subsection \<open>Execution\<close>

theorem execute_sequential_witness:
  "\<exists>r g' t' s'. execute_sequential sample_ext sample_env 3 sample_graph n1 sample_packet None None
       (\<lambda>_. registry_new) = Ret (r, g', t', s') \<and> same_topology sample_graph g'"
  using execute_sequential_total [OF sample_channels sample_modules(1) sample_wf sample_acyclic sample_idle,
      of 3 sample_env n1 sample_packet None None "\<lambda>_. registry_new"]
  by (auto simp: sample_count)

theorem flow_metrics_witness:
  "\<exists>r g' t' s'. execute_sequential sample_ext sample_env 3 sample_graph n3 sample_packet (Some 0) None
       (\<lambda>_. registry_new) = Ret (r, g', t', s') \<and>
     fr_dropped (flow_readings (s' 0)) = fr_dropped (flow_readings (registry_new :: nat metric_registry)) + 1"
proof -
  obtain e g' t' s' where run: "execute_sequential sample_ext sample_env 3 sample_graph n3 sample_packet (Some 0) None
       (\<lambda>_. registry_new) = Ret (Inl e, g', t', s')"
    by (simp add: execute_sequential_def execute_sequential_inner_def sample_fields outcome_simps)
  with flow_metrics_account [OF run] show ?thesis
    by (simp add: Let_def)
qed

end
