(* ===== verification/Parallel_Samples.thy ===== *)
theory Parallel_Samples
  imports Parallel Graph_Samples
begin

text \<open>
  Parallel execution on the sample runtime: the witnesses, and a run of a valid graph that can
  never end.
\<close>

lemma sample_packet_hop: "packet_update_metadata (record_hop t n) sample_packet = sample_packet"
  by (simp add: packet_update_metadata_def record_hop_def sample_packet_def packet_new_def metadata_new_def)

lemma sample_lane: "lane_for sample_packet = BulkLane"
  by (simp add: lane_for_def sample_packet_def packet_new_def tags_contains_def tags_new_def
      TAGS_CONTROL_def TAGS_INTERACTIVE_def Let_def)

subsection \<open>A hop of a branch through an idle node\<close>

definition busy_node :: "node_id \<Rightarrow> string \<Rightarrow> (string, packet fifo, unit) graph_node" where
  "busy_node i name = (sample_node i name)\<lparr>gn_queue := sample_queue\<lparr>nq_bulk := open_fifo [sample_packet] 4\<rparr>\<rparr>"

lemma sample_enter:
  assumes "fg_nodes g n = Some (sample_node n name)"
  shows "enter_node sample_ext n sample_packet g = Inr ()"
  using assms
  by (simp add: enter_node_def check_payload_limit_def gn_metadata_def sample_ext_def sample_module_def
      sample_metadata_def module_metadata_new_def limits_unbounded_def Let_def)

lemma sample_send:
  "nq_send fifo_ops sample_packet sample_queue = (Ready (Inr ()), sample_queue\<lparr>nq_bulk := open_fifo [sample_packet] 4\<rparr>)"
  by (simp add: nq_send_def sample_lane sample_queue_def fifo_ops_def fifo_send_def open_fifo_def)

lemma sample_recv:
  "nq_recv fifo_ops (sample_queue\<lparr>nq_bulk := open_fifo [sample_packet] 4\<rparr>) = (Ready (Some sample_packet), sample_queue)"
  by (simp add: nq_recv_def sample_queue_def fifo_ops_def fifo_recv_def open_fifo_def)

lemma sample_process: "gn_process sample_ext sample_packet (sample_node n name) =
    (Ret (Inr (Some sample_packet)), sample_node n name)"
  by (simp add: gn_process_def sample_node_def sample_ext_def sample_module_def arc_get_mut_def
      gn_write_module_def Let_def)

lemma sample_receive:
  assumes "fg_nodes g n = Some (busy_node n name)"
  shows "receive_and_process sample_ext None 0 n g s =
    Some (Ret (walk_outcome sample_ext 0 n (sample_node n name) (Inr (Some sample_packet))
       (fg_write_node n (sample_node n name) g)), fg_write_node n (sample_node n name) g, s)"
proof -
  have "(busy_node n name)\<lparr>gn_queue := sample_queue\<rparr> = sample_node n name"
    by (simp add: busy_node_def sample_node_def)
  moreover have "x_mpsc sample_ext = fifo_ops" "gn_queue (busy_node n name) = sample_queue\<lparr>nq_bulk := open_fifo [sample_packet] 4\<rparr>"
    by (simp_all add: sample_ext_def busy_node_def)
  ultimately show ?thesis
    using assms by (simp add: receive_and_process_def sample_recv sample_process record_node_metrics_def Let_def)
qed

lemma sample_walk_outcome:
  assumes "n \<notin> set (fg_exit_points g)"
  shows "walk_outcome sample_ext 0 n (sample_node n name) (Inr (Some sample_packet)) g =
    Inr (Continue sample_packet (map (\<lambda>e. (ed_type e, ed_to e))
      (filter (\<lambda>e. edge_accepts e sample_packet) (fg_edges_from n g))))"
  using assms
  by (simp add: walk_outcome_def record_and_check_processing_time_def gn_metadata_def sample_ext_def
      sample_module_def sample_metadata_def module_metadata_new_def limits_unbounded_def Let_def)

lemma sample_hop:
  assumes "fg_nodes (ps_graph st) n = Some (sample_node n name)" "n \<notin> set (fg_exit_points (ps_graph st))"
    and "b = after_walk sample_ext h n (Inr (Continue sample_packet (map (\<lambda>e. (ed_type e, ed_to e))
      (filter (\<lambda>e. edge_accepts e sample_packet) (fg_edges_from n (ps_graph st))))))" "\<not> ended b"
  shows "\<exists>st1. branch_step J sample_ext None st (Entering h n sample_packet) st (Sending h n sample_packet) [] \<and>
    branch_step J sample_ext None st (Sending h n sample_packet) st1 (Receiving h n) [] \<and>
    branch_step J sample_ext None st1 (Receiving h n) st b []"
proof -
  let ?g = "ps_graph st" and ?node = "sample_node n name"
  let ?g1 = "fg_write_node n (busy_node n name) ?g"
  let ?st1 = "put_graph ?g1 (ps_regs st) st"
  have enter: "branch_step J sample_ext None st (Entering h n sample_packet) st (Sending h n sample_packet) []"
    using branch_step.step_enter [where now = 0, OF sample_enter [OF assms(1)]]
    by (simp add: sample_packet_hop)
  have "?node\<lparr>gn_queue := sample_queue\<lparr>nq_bulk := open_fifo [sample_packet] 4\<rparr>\<rparr> = busy_node n name"
    by (simp add: busy_node_def)
  moreover have "nq_send (x_mpsc sample_ext) sample_packet (gn_queue ?node) =
      (Ready (Inr ()), sample_queue\<lparr>nq_bulk := open_fifo [sample_packet] 4\<rparr>)"
    using sample_send by (simp add: sample_ext_def sample_node_def)
  ultimately have send: "branch_step J sample_ext None st (Sending h n sample_packet) ?st1 (Receiving h n) []"
    using branch_step.step_send [OF assms(1)] by metis
  have g: "fg_write_node n ?node ?g1 = ?g"
    using assms(1) by (simp add: fg_write_node_def fun_upd_idem)
  have "fg_nodes ?g1 n = Some (busy_node n name)"
    by (simp add: fg_write_node_def)
  from sample_receive [OF this] have
    "receive_and_process sample_ext None 0 n (ps_graph ?st1) (ps_regs ?st1) =
       Some (Ret (Inr (Continue sample_packet (map (\<lambda>e. (ed_type e, ed_to e))
         (filter (\<lambda>e. edge_accepts e sample_packet) (fg_edges_from n ?g))))), ?g, ps_regs st)"
    unfolding g by (simp add: sample_walk_outcome [OF assms(2)])
  from branch_step.step_receive [OF this assms(3), of J]
  have "branch_step J sample_ext None ?st1 (Receiving h n) st b []"
    using assms(4) by (simp add: settle_def put_graph_def)
  with enter send show ?thesis
    by blast
qed

subsection \<open>Witnesses\<close>

theorem parallel_permits_witness:
  "ps_permits (fst (execute_parallel_start sample_ext sample_graph n1 sample_packet 0 None (\<lambda>_. registry_new))) = 1"
proof -
  obtain st b where start: "execute_parallel_start sample_ext sample_graph n1 sample_packet 0 None (\<lambda>_. registry_new) =
      (st, b, [])"
    by (simp add: execute_parallel_start_def)
  then have "par_reach J sample_ext None
      (execute_parallel_start sample_ext sample_graph n1 sample_packet 0 None (\<lambda>_. registry_new)) (st, b, [])" for J
    by simp
  moreover have "children b = []"
    using start by (auto simp: execute_parallel_start_def)
  ultimately show ?thesis
    using parallel_permits_bounded [of J sample_ext None sample_graph n1 sample_packet 0 "\<lambda>_. registry_new" st b "[]"] start
    by simp
qed

theorem parallel_never_panics_witness:
  "\<exists>b. snd (execute_parallel_start sample_ext sample_graph n1 sample_packet 2 None (\<lambda>_. registry_new)) = (b, []) \<and>
     crashless b"
proof -
  obtain st b where start: "execute_parallel_start sample_ext sample_graph n1 sample_packet 2 None (\<lambda>_. registry_new) =
      (st, b, [])"
    by (simp add: execute_parallel_start_def)
  then have "par_reach J sample_ext None
      (execute_parallel_start sample_ext sample_graph n1 sample_packet 2 None (\<lambda>_. registry_new)) (st, b, [])" for J
    by simp
  from parallel_never_panics [OF sample_channels sample_modules(1) sample_wf sample_acyclic sample_idle this] start
  show ?thesis
    by simp
qed

theorem parallel_runs_end_witness:
  "\<nexists>f. f 0 = execute_parallel_start sample_ext sample_graph n1 sample_packet 2 None (\<lambda>_. registry_new) \<and>
     (\<forall>n. par_step id sample_ext None (f n) (f (Suc n)))"
  using parallel_runs_end [OF sample_channels sample_modules(1) sample_wf sample_acyclic sample_idle,
      of n1 sample_packet 2 None "\<lambda>_. registry_new" id]
  by blast

subsection \<open>A run that cannot end\<close>

text \<open>Three nodes in a row, joined by parallel edges.\<close>

definition fan_edge :: "node_id \<Rightarrow> node_id \<Rightarrow> packet fifo edge" where
  "fan_edge a b = (sample_edge a b)\<lparr>ed_type := Parallel\<rparr>"

definition fan_graph :: "(string, packet fifo, unit) flow_graph" where
  "fan_graph = \<lparr>fg_nodes = [n1 \<mapsto> sample_node n1 ''source'', n2 \<mapsto> sample_node n2 ''split'', n3 \<mapsto> sample_node n3 ''sink''],
     fg_edges = [fan_edge n1 n2, fan_edge n2 n3],
     fg_adjacency = [n1 \<mapsto> [n2], n2 \<mapsto> [n3], n3 \<mapsto> []],
     fg_entry_points = [n1], fg_exit_points = [n3], fg_allowed_feedback = {}\<rparr>"

lemma fan_edge_fields [simp]:
  "ed_from (fan_edge a b) = a" "ed_to (fan_edge a b) = b" "ed_type (fan_edge a b) = Parallel"
  "edge_accepts (fan_edge a b) p"
  by (simp_all add: fan_edge_def sample_edge_def edge_accepts_def)

lemma n_neq [simp]: "n1 \<noteq> n3" "n3 \<noteq> n1" "n2 \<noteq> n3" "n3 \<noteq> n2"
  by simp_all

lemma fan_wf: "wf_graph fan_graph"
  by (auto simp: wf_graph_def fan_graph_def sample_node_def edge_targets_def split: if_splits)

lemma fan_succs: "fg_succs fan_graph n = (if n = n1 then [n2] else if n = n2 then [n3] else [])"
  by (simp add: fg_succs_def fan_graph_def)

lemma fan_dom: "dom (fg_nodes fan_graph) = {n1, n2, n3}"
  by (auto simp: fan_graph_def)

lemma fan_acyclic: "\<nexists>c. is_cycle (fg_succs fan_graph) c"
proof
  assume "\<exists>c. is_cycle (fg_succs fan_graph) c"
  then obtain c where c: "is_cycle (fg_succs fan_graph) c" ..
  have "topo (fg_succs fan_graph) [n3, n2, n1]"
    by (auto simp: topo_def Cons_eq_append_conv fan_succs)
  then have "hd c \<notin> {n1, n2, n3}"
    using topo_acyclic [of "fg_succs fan_graph" "[n3, n2, n1]" c] c by auto
  moreover obtain u v w where "c = u # v # w"
    using c by (cases c; cases "tl c") (auto simp: is_cycle_def)
  ultimately show False
    using c by (auto simp: is_cycle_def path_in_def fan_succs split: if_splits)
qed

lemma fan_valid: "valid_graph fan_graph"
proof -
  have "path_in (fg_succs fan_graph) [n1, n2, n3]"
    by (simp add: path_in_Cons fan_succs)
  then have "reaches (fg_succs fan_graph) n1 n3"
    unfolding reaches_def by (intro exI [of _ "[n1, n2, n3]"]) simp
  moreover have "fg_live fan_graph = fg_succs fan_graph"
    by (simp add: fg_live_def fan_graph_def fun_eq_iff)
  ultimately show ?thesis
    using fan_acyclic
    by (simp add: valid_graph_def entries_reach_exit_def no_orphans_def fan_dom)
      (auto simp: fan_graph_def)
qed

lemma fan_idle: "idle_graph ff_queue ff_bound ff_rx ff_tx fan_graph"
  by (auto simp: idle_graph_def idle_node_def fan_graph_def sample_node_def sample_queue_def open_fifo_def
      nq_open_def nq_lanes_def nq_cap_def less_Suc_eq numeral_3_eq_3 split: if_splits)

lemma fan_after_walk:
  "after_walk sample_ext h n1 (Inr (Continue sample_packet (map (\<lambda>e. (ed_type e, ed_to e))
     (filter (\<lambda>e. edge_accepts e sample_packet) (fg_edges_from n1 fan_graph))))) =
   Joining h [WaitPermit n2 sample_packet] []"
  "after_walk sample_ext h n2 (Inr (Continue sample_packet (map (\<lambda>e. (ed_type e, ed_to e))
     (filter (\<lambda>e. edge_accepts e sample_packet) (fg_edges_from n2 fan_graph))))) =
   Joining h [WaitPermit n3 sample_packet] []"
  by (simp_all add: after_walk_def fg_edges_from_def fan_graph_def parallel_targets_def)

lemma root_steps:
  assumes "branch_step J X metrics st b st1 b1 []" "branch_step J X metrics st1 b1 st2 b2 []"
    and "branch_step J X metrics st2 b2 st3 b3 []"
  shows "par_reach J X metrics (st, b, []) (st3, b3, [])"
  using par_step.par_root [OF assms(1), of "[]"] par_step.par_root [OF assms(2), of "[]"]
    par_step.par_root [OF assms(3), of "[]"]
  by (auto intro: converse_rtranclp_into_rtranclp)

lemma join_first_child:
  "branch_step J X metrics st c st' c' [] \<Longrightarrow>
   branch_step J X metrics st (Joining h [c] rs) st' (Joining h [c'] rs) []"
  using branch_step.step_child [of J X metrics st c st' c' "[]" h "[]" "[]" rs] by simp

text \<open>
  C6. A nested fan-out can deadlock the run: with one permit, on a valid acyclic graph of three
  nodes in a row joined by parallel edges, the only branch that has a permit waits for a child
  that waits for the permit. The run has not ended and nothing can go on.
\<close>

theorem parallel_deadlock:
  "wf_graph fan_graph \<and> valid_graph fan_graph \<and> idle_graph ff_queue ff_bound ff_rx ff_tx fan_graph \<and>
   (\<exists>st b. par_reach J sample_ext None (execute_parallel_start sample_ext fan_graph n1 sample_packet 1 None s) (st, b, []) \<and>
      execute_parallel_end sample_ext None d (st, b, []) = None \<and>
      \<not> (\<exists>r. par_step J sample_ext None (st, b, []) r))"
proof -
  let ?p = "sample_packet"
  let ?st = "\<lparr>ps_graph = fan_graph, ps_permits = 1, ps_regs = s\<rparr>" and ?full = "\<lparr>ps_graph = fan_graph, ps_permits = 0, ps_regs = s\<rparr>"
  let ?stuck = "Joining False [Joining True [WaitPermit n3 ?p] []] []"
  have nodes: "fg_nodes fan_graph n1 = Some (sample_node n1 ''source'')" "fg_nodes fan_graph n2 = Some (sample_node n2 ''split'')"
    "n1 \<notin> set (fg_exit_points fan_graph)" "n2 \<notin> set (fg_exit_points fan_graph)"
    by (simp_all add: fan_graph_def)
  have start: "execute_parallel_start sample_ext fan_graph n1 ?p 1 None s = (?st, Entering False n1 ?p, [])"
    using nodes by (simp add: execute_parallel_start_def record_flow_entry_def fan_graph_def)
  have "\<exists>st1. branch_step J sample_ext None ?st (Entering False n1 ?p) ?st (Sending False n1 ?p) [] \<and>
      branch_step J sample_ext None ?st (Sending False n1 ?p) st1 (Receiving False n1) [] \<and>
      branch_step J sample_ext None st1 (Receiving False n1) ?st (Joining False [WaitPermit n2 ?p] []) []"
    by (rule sample_hop [where name = "''source''"]) (simp_all only: nodes fan_after_walk par_state.simps ended.simps, simp_all)
  then have "par_reach J sample_ext None (?st, Entering False n1 ?p, []) (?st, Joining False [WaitPermit n2 ?p] [], [])"
    by (blast intro: root_steps)
  moreover have "par_step J sample_ext None (?st, Joining False [WaitPermit n2 ?p] [], [])
      (?full, Joining False [Entering True n2 ?p] [], [])"
    using par_step.par_root [OF join_first_child [OF branch_step.step_permit [of ?st J sample_ext None n2 ?p]], of False "[]" "[]"]
    by simp
  moreover have "\<exists>st1. branch_step J sample_ext None ?full (Entering True n2 ?p) ?full (Sending True n2 ?p) [] \<and>
      branch_step J sample_ext None ?full (Sending True n2 ?p) st1 (Receiving True n2) [] \<and>
      branch_step J sample_ext None st1 (Receiving True n2) ?full (Joining True [WaitPermit n3 ?p] []) []"
    by (rule sample_hop [where name = "''split''"]) (simp_all only: nodes fan_after_walk par_state.simps ended.simps, simp_all)
  then have "par_reach J sample_ext None (?full, Joining False [Entering True n2 ?p] [], []) (?full, ?stuck, [])"
    by (blast intro: root_steps join_first_child)
  ultimately have "par_reach J sample_ext None (execute_parallel_start sample_ext fan_graph n1 ?p 1 None s) (?full, ?stuck, [])"
    unfolding start by (meson rtranclp.rtrancl_into_rtrancl rtranclp_trans)
  moreover have "\<not> (\<exists>r. par_step J sample_ext None (?full, ?stuck, []) r)"
    by (intro lone_run_stuck parent_stuck no_permit_stuck) simp_all
  ultimately show ?thesis
    using fan_wf fan_valid fan_idle
    by (intro conjI exI [of _ ?full] exI [of _ ?stuck]) (simp_all add: execute_parallel_end_def)
qed

end
