(* ===== verification/Execution_Loop.thy ===== *)
theory Execution_Loop
  imports Execution
begin

text \<open>
  The execution loop of the runtime (\<open>crates/nyarix-runtime/src/execution_loop.rs\<close>), the pause of
  a graph (\<open>pause.rs\<close>) and the containment of panics (\<open>sandbox.rs\<close>).

  The loop is one task; a step is what it does between two points where it may wait: the watch
  of the pause, the \<open>select!\<close>, the graph's lock, room in the sink. Producers and consumers of
  packets, whoever cancels, pauses or edits the graph, and the timer of a timeout may act at any
  of these points. The order in which the nodes are visited is that of a hash map.
\<close>

subsection \<open>Panics\<close>

definition catch_panic :: "'a outcome \<Rightarrow> (string + 'a) outcome" where
  "catch_panic r = (case r of Ret x \<Rightarrow> Ret (Inr x) | Panic reason \<Rightarrow> Ret (Inl reason) | NoFuel \<Rightarrow> NoFuel)"

definition catch_module_panic :: "string \<Rightarrow> (module_error + 'a) outcome \<Rightarrow> (module_error + 'a) outcome" where
  "catch_module_panic module_name r =
     obind (catch_panic r) (\<lambda>c.
       case c of Inr result \<Rightarrow> Ret result | Inl reason \<Rightarrow> Ret (Inl (Crashed module_name reason)))"

text \<open>The payload of a panic: a static string, an owned string, or something else.\<close>

datatype panic_payload = StrPayload string | StringPayload string | OtherPayload

definition panic_message :: "panic_payload \<Rightarrow> string" where
  "panic_message payload =
     (case payload of
        StrPayload m \<Rightarrow> m
      | StringPayload m \<Rightarrow> m
      | OtherPayload \<Rightarrow> ''module panicked with a non-string payload'')"

subsection \<open>Pausing\<close>

text \<open>The watch channel: its value, and how many handles are left to change it.\<close>

record pause_watch =
  pw_paused :: bool
  pw_handles :: nat

definition pause_new :: pause_watch where
  "pause_new = \<lparr>pw_paused = False, pw_handles = 1\<rparr>"

definition pause_pause :: "pause_watch \<Rightarrow> pause_watch" where
  "pause_pause w = w\<lparr>pw_paused := True\<rparr>"

definition pause_resume :: "pause_watch \<Rightarrow> pause_watch" where
  "pause_resume w = w\<lparr>pw_paused := False\<rparr>"

definition pause_clone_handle :: "pause_watch \<Rightarrow> pause_watch" where
  "pause_clone_handle w = w\<lparr>pw_handles := pw_handles w + 1\<rparr>"

definition pause_drop_handle :: "pause_watch \<Rightarrow> pause_watch" where
  "pause_drop_handle w = w\<lparr>pw_handles := pw_handles w - 1\<rparr>"

definition is_paused :: "pause_watch \<Rightarrow> bool" where
  "is_paused w = pw_paused w"

definition always_resumed :: pause_watch where
  "always_resumed = pause_drop_handle pause_new"

text \<open>
  Both waits look at the value first; a wait for a change fails at once when no handle is left.
\<close>

definition wait_until_resumed :: "pause_watch \<Rightarrow> unit poll" where
  "wait_until_resumed w =
     (if \<not> pw_paused w then Ready () else if pw_handles w = 0 then Ready () else Pending)"

definition wait_until_paused :: "pause_watch \<Rightarrow> unit poll" where
  "wait_until_paused w = (if pw_paused w then Ready () else Pending)"

subsection \<open>All nodes\<close>

datatype execution_loop_error = InitializeError module_error

primrec initialize_nodes ::
    "('v, 'm, 'ctx, 'c, 'f) ext \<Rightarrow> node_id list \<Rightarrow> ('m, 'c, 'cfg) flow_graph \<Rightarrow> 'ctx \<Rightarrow>
     (module_error + unit) outcome \<times> ('m, 'c, 'cfg) flow_graph \<times> 'ctx" where
  "initialize_nodes X [] g ctx = (Ret (Inr ()), g, ctx)"
| "initialize_nodes X (i # ids) g ctx =
     (case fg_nodes g i of
        None \<Rightarrow> initialize_nodes X ids g ctx
      | Some node \<Rightarrow>
          (let (r, node', ctx') = gn_initialize X ctx node;
               g' = fg_write_node i node' g
           in if r = Ret (Inr ()) then initialize_nodes X ids g' ctx' else (r, g', ctx')))"

definition initialize_all_nodes ::
    "('v, 'm, 'ctx, 'c, 'f) ext \<Rightarrow> node_id list \<Rightarrow> ('m, 'c, 'cfg) flow_graph \<Rightarrow> 'ctx \<Rightarrow>
     (module_error + unit) outcome \<times> ('m, 'c, 'cfg) flow_graph \<times> 'ctx" where
  "initialize_all_nodes X ids g ctx = initialize_nodes X ids g ctx"

text \<open>The fuel is that of \<open>drain\<close>.\<close>

primrec shutdown_nodes ::
    "('v, 'm, 'ctx, 'c, 'f) ext \<Rightarrow> nat \<Rightarrow> node_id list \<Rightarrow> module_error option \<Rightarrow> ('m, 'c, 'cfg) flow_graph \<Rightarrow>
     'ctx \<Rightarrow> (module_error option) outcome \<times> ('m, 'c, 'cfg) flow_graph \<times> 'ctx" where
  "shutdown_nodes X fuel [] first_error g ctx = (Ret first_error, g, ctx)"
| "shutdown_nodes X fuel (i # ids) first_error g ctx =
     (case fg_nodes g i of
        None \<Rightarrow> shutdown_nodes X fuel ids first_error g ctx
      | Some node \<Rightarrow>
     (case nq_drain (x_mpsc X) fuel (gn_queue node) of
        NoFuel \<Rightarrow> (NoFuel, g, ctx)
      | Panic m \<Rightarrow> (Panic m, g, ctx)
      | Ret (leftover, q) \<Rightarrow>
          (let (r, node', ctx') = gn_shutdown X ctx (node\<lparr>gn_queue := q\<rparr>);
               g' = fg_write_node i node' g
           in case r of
                Ret (Inr _) \<Rightarrow> shutdown_nodes X fuel ids first_error g' ctx'
              | Ret (Inl error) \<Rightarrow>
                  shutdown_nodes X fuel ids (if first_error = None then Some error else first_error) g' ctx'
              | Panic m \<Rightarrow> (Panic m, g', ctx')
              | NoFuel \<Rightarrow> (NoFuel, g', ctx'))))"

definition shutdown_all_nodes ::
    "('v, 'm, 'ctx, 'c, 'f) ext \<Rightarrow> nat \<Rightarrow> node_id list \<Rightarrow> ('m, 'c, 'cfg) flow_graph \<Rightarrow> 'ctx \<Rightarrow>
     (module_error + unit) outcome \<times> ('m, 'c, 'cfg) flow_graph \<times> 'ctx" where
  "shutdown_all_nodes X fuel ids g ctx =
     (let (r, g', ctx') = shutdown_nodes X fuel ids None g ctx
      in (obind r (\<lambda>first_error. Ret (case first_error of None \<Rightarrow> Inr () | Some e \<Rightarrow> Inl e)), g', ctx'))"


subsection \<open>The loop\<close>

text \<open>
  Where the loop waits. The flag of \<open>LoopProcessing\<close> and \<open>LoopForwarding\<close> tells whether the
  loop drains the source; \<open>LoopProcessing\<close> holds a packet and waits for the graph's lock.
\<close>

datatype loop_phase =
    LoopStart
  | LoopAwaitResume
  | LoopSelect
  | LoopProcessing bool packet
  | LoopForwarding bool packet
  | LoopDraining
  | LoopShutdown
  | LoopReturned "execution_loop_error + unit"
  | LoopPanicked string

text \<open>
  The last three fields are a history: the packets taken from the source, those that came out of
  the graph, and those the sink accepted.
\<close>

record ('m, 'c, 'cfg, 'ctx, 'f) loop_state =
  lp_phase :: loop_phase
  lp_graph :: "('m, 'c, 'cfg) flow_graph"
  lp_ctx :: 'ctx
  lp_regs :: "'f registries"
  lp_source :: 'c
  lp_sink :: 'c
  lp_cancelled :: bool
  lp_pause :: pause_watch
  lp_taken :: "packet list"
  lp_came_out :: "packet list"
  lp_sent :: "packet list"

text \<open>What is constant in a run: the entry point, and the metric registry of a context.\<close>

record 'ctx loop_config =
  lc_entry :: node_id
  lc_metrics :: "'ctx \<Rightarrow> nat option"

text \<open>\<open>process_one\<close> after the packet has been through the graph, and what follows it.\<close>

definition loop_next :: "bool \<Rightarrow> loop_phase" where
  "loop_next draining = (if draining then LoopDraining else LoopAwaitResume)"

definition loop_break :: "bool \<Rightarrow> loop_phase" where
  "loop_break draining = (if draining then LoopShutdown else LoopDraining)"

definition after_process ::
    "bool \<Rightarrow> execution_error + packet option \<Rightarrow> ('m, 'c, 'cfg, 'ctx, 'f) loop_state \<Rightarrow>
     ('m, 'c, 'cfg, 'ctx, 'f) loop_state" where
  "after_process draining result st =
     (case result of
        Inr (Some output) \<Rightarrow>
          st\<lparr>lp_phase := LoopForwarding draining output, lp_came_out := lp_came_out st @ [output]\<rparr>
      | _ \<Rightarrow> st\<lparr>lp_phase := loop_next draining\<rparr>)"

definition loop_select ::
    "('c, packet) mpsc_ops \<Rightarrow> ('m, 'c, 'cfg, 'ctx, 'f) loop_state \<Rightarrow>
     ('m, 'c, 'cfg, 'ctx, 'f) loop_state poll" where
  "loop_select C st =
     (if lp_cancelled st then Ready (st\<lparr>lp_phase := LoopDraining\<rparr>)
      else case wait_until_paused (lp_pause st) of
        Ready _ \<Rightarrow> Ready (st\<lparr>lp_phase := LoopAwaitResume\<rparr>)
      | Pending \<Rightarrow>
          (case ch_recv C (lp_source st) of
             (Pending, _) \<Rightarrow> Pending
           | (Ready (Some packet), source) \<Rightarrow>
               Ready (st\<lparr>lp_phase := LoopProcessing False packet, lp_source := source,
                         lp_taken := lp_taken st @ [packet]\<rparr>)
           | (Ready None, source) \<Rightarrow> Ready (st\<lparr>lp_phase := LoopDraining, lp_source := source\<rparr>)))"

definition loop_drain ::
    "('c, packet) mpsc_ops \<Rightarrow> ('m, 'c, 'cfg, 'ctx, 'f) loop_state \<Rightarrow> ('m, 'c, 'cfg, 'ctx, 'f) loop_state" where
  "loop_drain C st =
     (case ch_try_recv C (lp_source st) of
        (Inr packet, source) \<Rightarrow>
          st\<lparr>lp_phase := LoopProcessing True packet, lp_source := source, lp_taken := lp_taken st @ [packet]\<rparr>
      | (Inl _, source) \<Rightarrow> st\<lparr>lp_phase := LoopShutdown, lp_source := source\<rparr>)"

definition loop_forward ::
    "('c, packet) mpsc_ops \<Rightarrow> bool \<Rightarrow> packet \<Rightarrow> ('m, 'c, 'cfg, 'ctx, 'f) loop_state \<Rightarrow>
     ('m, 'c, 'cfg, 'ctx, 'f) loop_state poll" where
  "loop_forward C draining output st =
     (case ch_send C output (lp_sink st) of
        (Pending, _) \<Rightarrow> Pending
      | (Ready (Inr _), sink) \<Rightarrow>
          Ready (st\<lparr>lp_phase := loop_next draining, lp_sink := sink, lp_sent := lp_sent st @ [output]\<rparr>)
      | (Ready (Inl _), sink) \<Rightarrow> Ready (st\<lparr>lp_phase := loop_break draining, lp_sink := sink\<rparr>))"

definition after_initialize ::
    "module_error + unit \<Rightarrow> ('m, 'c, 'cfg, 'ctx, 'f) loop_state \<Rightarrow> ('m, 'c, 'cfg, 'ctx, 'f) loop_state" where
  "after_initialize r st =
     st\<lparr>lp_phase := (case r of Inl e \<Rightarrow> LoopReturned (Inl (InitializeError e)) | Inr _ \<Rightarrow> LoopAwaitResume)\<rparr>"

text \<open>
  The steps of the loop. A panic inside a run of the graph is caught; what the module and the
  run had changed before it stays changed, within the frame of a run. A timeout can end the
  drain where it waits, and the shutdown before it has the graph's lock.
\<close>

inductive loop_step ::
    "('v, 'm, 'ctx, 'c, 'f) ext \<Rightarrow> 'ctx loop_config \<Rightarrow> ('m, 'c, 'cfg, 'ctx, 'f) loop_state \<Rightarrow>
     ('m, 'c, 'cfg, 'ctx, 'f) loop_state \<Rightarrow> bool"
  for X cf where
  loop_initialize:
    "lp_phase st = LoopStart \<Longrightarrow> is_order ids (fg_nodes (lp_graph st)) \<Longrightarrow>
     initialize_all_nodes X ids (lp_graph st) (lp_ctx st) = (Ret r, g, ctx) \<Longrightarrow>
     loop_step X cf st (after_initialize r (st\<lparr>lp_graph := g, lp_ctx := ctx\<rparr>))"
| loop_initialize_panic:
    "lp_phase st = LoopStart \<Longrightarrow> is_order ids (fg_nodes (lp_graph st)) \<Longrightarrow>
     initialize_all_nodes X ids (lp_graph st) (lp_ctx st) = (Panic m, g, ctx) \<Longrightarrow>
     loop_step X cf st (st\<lparr>lp_phase := LoopPanicked m, lp_graph := g, lp_ctx := ctx\<rparr>)"
| loop_resumed:
    "lp_phase st = LoopAwaitResume \<Longrightarrow> wait_until_resumed (lp_pause st) = Ready () \<Longrightarrow>
     loop_step X cf st (st\<lparr>lp_phase := LoopSelect\<rparr>)"
| loop_selected:
    "lp_phase st = LoopSelect \<Longrightarrow> loop_select (x_mpsc X) st = Ready st' \<Longrightarrow> loop_step X cf st st'"
| loop_processed:
    "lp_phase st = LoopProcessing draining packet \<Longrightarrow>
     execute_sequential X env fuel (lp_graph st) (lc_entry cf) packet (lc_metrics cf (lp_ctx st)) None (lp_regs st) =
       Ret (result, g, t, regs) \<Longrightarrow>
     loop_step X cf st (after_process draining result (st\<lparr>lp_graph := g, lp_regs := regs\<rparr>))"
| loop_process_panic:
    "lp_phase st = LoopProcessing draining packet \<Longrightarrow>
     execute_sequential X env fuel (lp_graph st) (lc_entry cf) packet (lc_metrics cf (lp_ctx st)) None (lp_regs st) =
       Panic reason \<Longrightarrow>
     same_topology (lp_graph st) g \<Longrightarrow>
     loop_step X cf st (st\<lparr>lp_phase := loop_next draining, lp_graph := g, lp_regs := regs\<rparr>)"
| loop_forwarded:
    "lp_phase st = LoopForwarding draining output \<Longrightarrow> loop_forward (x_mpsc X) draining output st = Ready st' \<Longrightarrow>
     loop_step X cf st st'"
| loop_drained: "lp_phase st = LoopDraining \<Longrightarrow> loop_step X cf st (loop_drain (x_mpsc X) st)"
| loop_drain_timeout:
    "lp_phase st = LoopProcessing True packet \<or> lp_phase st = LoopForwarding True packet \<Longrightarrow>
     loop_step X cf st (st\<lparr>lp_phase := LoopShutdown\<rparr>)"
| loop_shut_down:
    "lp_phase st = LoopShutdown \<Longrightarrow> is_order ids (fg_nodes (lp_graph st)) \<Longrightarrow>
     shutdown_all_nodes X fuel ids (lp_graph st) (lp_ctx st) = (Ret r, g, ctx) \<Longrightarrow>
     loop_step X cf st (st\<lparr>lp_phase := LoopReturned (Inr ()), lp_graph := g, lp_ctx := ctx\<rparr>)"
| loop_shutdown_panic:
    "lp_phase st = LoopShutdown \<Longrightarrow> is_order ids (fg_nodes (lp_graph st)) \<Longrightarrow>
     shutdown_all_nodes X fuel ids (lp_graph st) (lp_ctx st) = (Panic m, g, ctx) \<Longrightarrow>
     loop_step X cf st (st\<lparr>lp_phase := LoopPanicked m, lp_graph := g, lp_ctx := ctx\<rparr>)"
| loop_shutdown_timeout:
    "lp_phase st = LoopShutdown \<Longrightarrow> loop_step X cf st (st\<lparr>lp_phase := LoopReturned (Inr ())\<rparr>)"

text \<open>What the others do: offer and consume packets, close the ends, cancel, pause, edit the graph.\<close>

inductive loop_env ::
    "('v, 'm, 'ctx, 'c, 'f) ext \<Rightarrow> ('m, 'c, 'cfg, 'ctx, 'f) loop_state \<Rightarrow>
     ('m, 'c, 'cfg, 'ctx, 'f) loop_state \<Rightarrow> bool"
  for X where
  env_offer: "loop_env X st (st\<lparr>lp_source := snd (ch_try_send (x_mpsc X) packet (lp_source st))\<rparr>)"
| env_close_source: "loop_env X st (st\<lparr>lp_source := ch_drop_senders (x_mpsc X) (lp_source st)\<rparr>)"
| env_consume: "loop_env X st (st\<lparr>lp_sink := snd (ch_try_recv (x_mpsc X) (lp_sink st))\<rparr>)"
| env_close_sink: "loop_env X st (st\<lparr>lp_sink := ch_drop_receiver (x_mpsc X) (lp_sink st)\<rparr>)"
| env_cancel: "loop_env X st (st\<lparr>lp_cancelled := True\<rparr>)"
| env_pause: "0 < pw_handles (lp_pause st) \<Longrightarrow> loop_env X st (st\<lparr>lp_pause := pause_pause (lp_pause st)\<rparr>)"
| env_resume: "0 < pw_handles (lp_pause st) \<Longrightarrow> loop_env X st (st\<lparr>lp_pause := pause_resume (lp_pause st)\<rparr>)"
| env_clone_handle:
    "0 < pw_handles (lp_pause st) \<Longrightarrow> loop_env X st (st\<lparr>lp_pause := pause_clone_handle (lp_pause st)\<rparr>)"
| env_drop_handle:
    "0 < pw_handles (lp_pause st) \<Longrightarrow> loop_env X st (st\<lparr>lp_pause := pause_drop_handle (lp_pause st)\<rparr>)"
| env_edit: "loop_env X st (st\<lparr>lp_graph := g, lp_ctx := ctx, lp_regs := regs\<rparr>)"

definition loop_start ::
    "('m, 'c, 'cfg) flow_graph \<Rightarrow> 'ctx \<Rightarrow> 'f registries \<Rightarrow> 'c \<Rightarrow> 'c \<Rightarrow> bool \<Rightarrow> pause_watch \<Rightarrow>
     ('m, 'c, 'cfg, 'ctx, 'f) loop_state" where
  "loop_start g ctx regs source sink cancelled pause = \<lparr>lp_phase = LoopStart, lp_graph = g, lp_ctx = ctx,
     lp_regs = regs, lp_source = source, lp_sink = sink, lp_cancelled = cancelled, lp_pause = pause,
     lp_taken = [], lp_came_out = [], lp_sent = []\<rparr>"

definition loop_reach ::
    "('v, 'm, 'ctx, 'c, 'f) ext \<Rightarrow> 'ctx loop_config \<Rightarrow> ('m, 'c, 'cfg, 'ctx, 'f) loop_state \<Rightarrow>
     ('m, 'c, 'cfg, 'ctx, 'f) loop_state \<Rightarrow> bool" where
  "loop_reach X cf = (\<lambda>st st'. loop_step X cf st st' \<or> loop_env X st st')\<^sup>*\<^sup>*"


subsection \<open>Packets in the loop\<close>

definition source_line :: "('c \<Rightarrow> packet list) \<Rightarrow> ('m, 'c, 'cfg, 'ctx, 'f) loop_state \<Rightarrow> packet list" where
  "source_line queued st = lp_taken st @ queued (lp_source st)"

text \<open>The packets that came out of the graph and did not get into the sink, by phase.\<close>

fun missing_ok :: "bool \<Rightarrow> loop_phase \<Rightarrow> packet list \<Rightarrow> bool" where
  "missing_ok sink_open LoopStart ps \<longleftrightarrow> ps = []"
| "missing_ok sink_open LoopAwaitResume ps \<longleftrightarrow> ps = []"
| "missing_ok sink_open LoopSelect ps \<longleftrightarrow> ps = []"
| "missing_ok sink_open (LoopProcessing False p) ps \<longleftrightarrow> ps = []"
| "missing_ok sink_open (LoopForwarding False q) ps \<longleftrightarrow> ps = [q]"
| "missing_ok sink_open LoopDraining ps \<longleftrightarrow> ps = [] \<or> \<not> sink_open \<and> length ps = 1"
| "missing_ok sink_open (LoopProcessing True p) ps \<longleftrightarrow> ps = [] \<or> \<not> sink_open \<and> length ps = 1"
| "missing_ok sink_open (LoopForwarding True q) ps \<longleftrightarrow> ps = [q] \<or> \<not> sink_open \<and> length ps = 2"
| "missing_ok sink_open LoopShutdown ps \<longleftrightarrow> length ps \<le> 2"
| "missing_ok sink_open (LoopReturned r) ps \<longleftrightarrow> length ps \<le> 2"
| "missing_ok sink_open (LoopPanicked m) ps \<longleftrightarrow> length ps \<le> 2"

lemma missing_ok_closed: "missing_ok True ph ps \<Longrightarrow> missing_ok b ph ps"
  by (induction "True" ph ps rule: missing_ok.induct) auto

lemma missing_ok_le: "missing_ok b ph ps \<Longrightarrow> length ps \<le> 2"
  by (induction b ph ps rule: missing_ok.induct) auto

definition sink_line :: "('c \<Rightarrow> bool) \<Rightarrow> ('m, 'c, 'cfg, 'ctx, 'f) loop_state \<Rightarrow> bool" where
  "sink_line rx_open st \<longleftrightarrow>
     (\<exists>ps. lp_came_out st = lp_sent st @ ps \<and> missing_ok (rx_open (lp_sink st)) (lp_phase st) ps)"

context packet_channels
begin

lemma recv_line:
  assumes "ch_recv ops c = (Ready (Some a), c')"
  shows "queued c = a # queued c'"
proof (cases "queued c")
  case Nil
  with assms show ?thesis by (simp add: recv_none split: if_splits)
next
  case (Cons b rest)
  with assms have "b = a" "c' = snd (ch_try_recv ops c)"
    using recv_some [OF Cons] by simp_all
  with Cons show ?thesis
    using try_recv_some [OF Cons] by auto
qed

lemma try_recv_line:
  assumes "ch_try_recv ops c = (Inr a, c')"
  shows "queued c = a # queued c' \<and> rx_open c' = rx_open c"
proof (cases "queued c")
  case Nil
  with assms show ?thesis by (simp add: try_recv_none)
next
  case (Cons b rest)
  with assms show ?thesis
    using try_recv_some [OF Cons] by auto
qed

lemma try_recv_end:
  assumes "ch_try_recv ops c = (Inl e, c')"
  shows "c' = c"
proof (cases "queued c")
  case Nil
  with assms show ?thesis by (simp add: try_recv_none)
next
  case (Cons b rest)
  with assms show ?thesis
    using try_recv_some [OF Cons] by auto
qed

lemma recv_end:
  assumes "ch_recv ops c = (Ready None, c')"
  shows "c' = c"
proof (cases "queued c")
  case Nil
  with assms show ?thesis by (simp add: recv_none)
next
  case (Cons b rest)
  with assms show ?thesis
    using recv_some [OF Cons] by simp
qed

lemma recv_pending: "fst (ch_recv ops c) = Pending \<longleftrightarrow> queued c = [] \<and> tx_open c"
  using recv_some [of c] recv_none [of c] by (cases "queued c") simp_all

lemma send_cases:
  "ch_send ops a c =
     (if \<not> rx_open c then (Ready (Inl a), c)
      else if length (queued c) < bound c then (Ready (Inr ()), snd (ch_try_send ops a c))
      else (Pending, c))"
  by (simp add: send_closed send_room send_waits)

lemma send_open:
  assumes "ch_send ops a c = (Ready (Inr u), c')"
  shows "rx_open c \<and> rx_open c'"
proof -
  have c: "rx_open c" "length (queued c) < bound c" "c' = snd (ch_try_send ops a c)"
    using assms by (auto simp: send_cases split: if_splits)
  with try_send_room [OF c(1,2), of a] show ?thesis by auto
qed

lemma send_refused: "ch_send ops a c = (Ready (Inl b), c') \<Longrightarrow> \<not> rx_open c \<and> c' = c"
  by (simp add: send_cases split: if_splits)

lemma loop_select_line:
  "loop_select ops st = Ready st' \<Longrightarrow> source_line queued st' = source_line queued st"
  by (auto simp: loop_select_def source_line_def dest: recv_line recv_end
      split: if_splits poll.splits prod.splits option.splits)

lemma loop_drain_line: "source_line queued (loop_drain ops st) = source_line queued st"
  using try_recv_line [of "lp_source st"] try_recv_end [of "lp_source st"]
  by (auto simp: loop_drain_def source_line_def split: prod.splits sum.splits)

lemma loop_forward_line:
  "loop_forward ops d q st = Ready st' \<Longrightarrow> source_line queued st' = source_line queued st"
  by (auto simp: loop_forward_def source_line_def split: poll.splits prod.splits sum.splits)

end

lemma after_process_fields [simp]:
  "lp_taken (after_process d r st) = lp_taken st" "lp_source (after_process d r st) = lp_source st"
  "lp_sink (after_process d r st) = lp_sink st" "lp_sent (after_process d r st) = lp_sent st"
  "lp_cancelled (after_process d r st) = lp_cancelled st" "lp_pause (after_process d r st) = lp_pause st"
  by (simp_all add: after_process_def split: sum.split option.split)

lemma after_initialize_fields [simp]:
  "lp_taken (after_initialize r st) = lp_taken st" "lp_source (after_initialize r st) = lp_source st"
  "lp_sink (after_initialize r st) = lp_sink st" "lp_sent (after_initialize r st) = lp_sent st"
  "lp_cancelled (after_initialize r st) = lp_cancelled st" "lp_pause (after_initialize r st) = lp_pause st"
  "lp_came_out (after_initialize r st) = lp_came_out st"
  by (simp_all add: after_initialize_def split: sum.split)

lemma loop_step_source_line:
  assumes "packet_channels (x_mpsc X) queued bound rx_open tx_open" and "loop_step X cf st st'"
  shows "source_line queued st' = source_line queued st"
  using assms(2)
proof (cases rule: loop_step.cases)
  case loop_selected
  then show ?thesis using packet_channels.loop_select_line [OF assms(1)] by blast
next
  case loop_forwarded
  then show ?thesis using packet_channels.loop_forward_line [OF assms(1)] by blast
next
  case loop_drained
  then show ?thesis using packet_channels.loop_drain_line [OF assms(1)] by blast
qed (simp_all add: source_line_def)

lemma loop_env_source_line:
  assumes "packet_channels (x_mpsc X) queued bound rx_open tx_open" and "loop_env X st st'"
  shows "\<exists>new. source_line queued st' = source_line queued st @ new"
  using assms(2)
proof (cases rule: loop_env.cases)
  case (env_offer packet)
  have "\<exists>new. queued (snd (ch_try_send (x_mpsc X) packet c)) = queued c @ new" for c
    using mpsc.try_send_room [of "x_mpsc X" queued bound rx_open tx_open c packet]
      mpsc.try_send_full [of "x_mpsc X" queued bound rx_open tx_open c packet]
      mpsc.try_send_closed [of "x_mpsc X" queued bound rx_open tx_open c packet] assms(1)
    by (cases "rx_open c"; cases "length (queued c) < bound c") (auto simp: packet_channels_def)
  with env_offer show ?thesis
    by (simp add: source_line_def)
next
  case env_close_source
  then show ?thesis
    using mpsc.drop_senders [of "x_mpsc X" queued bound rx_open tx_open] assms(1)
    by (simp add: source_line_def packet_channels_def)
qed (simp_all add: source_line_def)


lemma loop_forward_cases:
  assumes "loop_forward C d q st = Ready st'"
  obtains (sent) sink where "ch_send C q (lp_sink st) = (Ready (Inr ()), sink)"
      "st' = st\<lparr>lp_phase := loop_next d, lp_sink := sink, lp_sent := lp_sent st @ [q]\<rparr>"
  | (refused) b sink where "ch_send C q (lp_sink st) = (Ready (Inl b), sink)"
      "st' = st\<lparr>lp_phase := loop_break d, lp_sink := sink\<rparr>"
  using assms by (auto simp: loop_forward_def split: poll.splits prod.splits sum.splits)

lemma missing_ok_next:
  "missing_ok b (LoopProcessing d p) ps \<Longrightarrow> missing_ok b (loop_next d) ps"
  "missing_ok b (LoopProcessing d p) ps \<Longrightarrow> missing_ok b (LoopForwarding d q) (ps @ [q])"
  by (cases d; auto simp: loop_next_def)+

lemma sink_line_after_process:
  fixes st :: "('m, 'c, 'cfg, 'ctx, 'f) loop_state"
  assumes "sink_line rx_open st" "lp_phase st = LoopProcessing d p"
  shows "sink_line rx_open (after_process d r (st\<lparr>lp_graph := g, lp_regs := regs\<rparr>))"
proof -
  obtain ps where ps: "lp_came_out st = lp_sent st @ ps" "missing_ok (rx_open (lp_sink st)) (LoopProcessing d p) ps"
    using assms by (auto simp: sink_line_def)
  show ?thesis
  proof (cases "\<exists>q. r = Inr (Some q)")
    case True
    then obtain q where "r = Inr (Some q)" by blast
    with ps missing_ok_next(2) show ?thesis
      by (simp add: after_process_def sink_line_def)
  next
    case False
    then have "after_process d r st' = st'\<lparr>lp_phase := loop_next d\<rparr>"
      for st' :: "('m, 'c, 'cfg, 'ctx, 'f) loop_state"
      by (cases r; cases "projr r") (auto simp: after_process_def)
    with ps missing_ok_next(1) show ?thesis
      by (simp add: sink_line_def)
  qed
qed

context packet_channels
begin

lemma sink_line_forward:
  assumes "sink_line rx_open st" "lp_phase st = LoopForwarding d q" "loop_forward ops d q st = Ready st'"
  shows "sink_line rx_open st'"
proof -
  obtain ps where ps: "lp_came_out st = lp_sent st @ ps" "missing_ok (rx_open (lp_sink st)) (LoopForwarding d q) ps"
    using assms by (auto simp: sink_line_def)
  from assms(3) show ?thesis
  proof (cases rule: loop_forward_cases)
    case (sent sink)
    then have "rx_open (lp_sink st)" "rx_open sink"
      using send_open by blast+
    moreover from this ps have "ps = [q]" by (cases d) auto
    ultimately show ?thesis
      using sent ps by (cases d) (auto simp: sink_line_def loop_next_def)
  next
    case (refused b sink)
    then have "\<not> rx_open (lp_sink st)" "sink = lp_sink st"
      using send_refused by blast+
    with refused ps show ?thesis
      by (cases d) (auto simp: sink_line_def loop_break_def)
  qed
qed

lemma sink_line_sink:
  assumes "sink_line rx_open st" "rx_open sink \<Longrightarrow> rx_open (lp_sink st)"
  shows "sink_line rx_open (st\<lparr>lp_sink := sink\<rparr>)"
proof -
  obtain ps where ps: "lp_came_out st = lp_sent st @ ps" "missing_ok (rx_open (lp_sink st)) (lp_phase st) ps"
    using assms by (auto simp: sink_line_def)
  with assms(2) have "missing_ok (rx_open sink) (lp_phase st) ps"
    by (cases "rx_open (lp_sink st)"; cases "rx_open sink") (auto intro: missing_ok_closed)
  with ps show ?thesis
    by (simp add: sink_line_def)
qed

lemma try_recv_open: "rx_open (snd (ch_try_recv ops c)) \<longleftrightarrow> rx_open c"
  using try_recv_line [of c] try_recv_end [of c]
  by (cases "ch_try_recv ops c"; cases "fst (ch_try_recv ops c)") auto

end


lemma loop_step_sink_line:
  assumes "packet_channels (x_mpsc X) queued bound rx_open tx_open"
    and "sink_line rx_open st" "loop_step X cf st st'"
  shows "sink_line rx_open st'"
  using assms(3)
proof (cases rule: loop_step.cases)
  case loop_processed
  then show ?thesis using sink_line_after_process [OF assms(2)] by simp
next
  case loop_forwarded
  then show ?thesis using packet_channels.sink_line_forward [OF assms(1,2)] by blast
next
  case loop_drained
  then show ?thesis
    using assms(2) by (auto simp: loop_drain_def sink_line_def split: prod.splits sum.splits)
next
  case loop_selected
  then show ?thesis
    using assms(2) by (auto simp: loop_select_def sink_line_def split: if_splits poll.splits prod.splits option.splits)
next
  case (loop_process_panic d p)
  with assms(2) missing_ok_next(1) show ?thesis
    by (auto simp: sink_line_def)
next
  case (loop_drain_timeout p)
  with assms(2) show ?thesis
    by (auto simp: sink_line_def)
next
  case (loop_initialize ids r g ctx)
  with assms(2) show ?thesis
    by (cases r) (auto simp: sink_line_def after_initialize_def)
qed (use assms(2) in \<open>auto simp: sink_line_def\<close>)

lemma loop_env_sink_line:
  assumes "packet_channels (x_mpsc X) queued bound rx_open tx_open"
    and "sink_line rx_open st" "loop_env X st st'"
  shows "sink_line rx_open st'"
  using assms(3)
proof (cases rule: loop_env.cases)
  case env_consume
  moreover have "sink_line rx_open (st\<lparr>lp_sink := snd (ch_try_recv (x_mpsc X) (lp_sink st))\<rparr>)"
    by (rule packet_channels.sink_line_sink [OF assms(1,2)]) (simp add: packet_channels.try_recv_open [OF assms(1)])
  ultimately show ?thesis by simp
next
  case env_close_sink
  have "\<not> rx_open (ch_drop_receiver (x_mpsc X) (lp_sink st))"
    using mpsc.drop_receiver assms(1) by (fastforce simp: packet_channels_def)
  then have "sink_line rx_open (st\<lparr>lp_sink := ch_drop_receiver (x_mpsc X) (lp_sink st)\<rparr>)"
    using packet_channels.sink_line_sink [OF assms(1,2)] by blast
  with env_close_sink show ?thesis by simp
qed (use assms(2) in \<open>simp_all add: sink_line_def\<close>)

text \<open>
  C19. The loop neither loses nor reorders packets on their way in: the packets taken, then those
  waiting in the source, are those of any earlier moment followed by the ones offered since. On
  their way out, the sink accepts the packets that come out of the graph in their order; none is
  missing while the loop takes packets, and at most two are missing at its end, when the sink was
  closed or the drain timed out.
\<close>

theorem loop_delivers_in_order:
  assumes "packet_channels (x_mpsc X) queued bound rx_open tx_open"
    and "loop_reach X cf (loop_start g ctx regs source sink cancelled pause) st"
    and "loop_reach X cf st st'"
  shows "(\<exists>new. lp_taken st' @ queued (lp_source st') = lp_taken st @ queued (lp_source st) @ new) \<and>
    (\<exists>missing. lp_came_out st = lp_sent st @ missing \<and> length missing \<le> 2 \<and>
       (lp_phase st \<in> {LoopStart, LoopAwaitResume, LoopSelect} \<longrightarrow> missing = []) \<and>
       (\<forall>q. lp_phase st = LoopForwarding False q \<longrightarrow> missing = [q]))"
proof -
  have "\<exists>new. source_line queued st' = source_line queued st @ new"
    using assms(3) unfolding loop_reach_def
  proof (induction rule: rtranclp_induct)
    case (step y z)
    then obtain new new' where "source_line queued y = source_line queued st @ new"
        "source_line queued z = source_line queued y @ new'"
      using loop_step_source_line [OF assms(1)] loop_env_source_line [OF assms(1)] by (metis append_Nil2)
    then show ?case by simp
  qed simp
  moreover have "sink_line rx_open st"
    using assms(2) unfolding loop_reach_def
  proof (induction rule: rtranclp_induct)
    case base
    then show ?case by (simp add: sink_line_def loop_start_def)
  next
    case (step y z)
    then show ?case
      using loop_step_sink_line [OF assms(1)] loop_env_sink_line [OF assms(1)] by blast
  qed
  then obtain ps where "lp_came_out st = lp_sent st @ ps" "missing_ok (rx_open (lp_sink st)) (lp_phase st) ps"
    by (auto simp: sink_line_def)
  ultimately show ?thesis
    using missing_ok_le by (fastforce simp: source_line_def)
qed


subsection \<open>Stopping\<close>










text \<open>
  C21. A pause that outlives its handles starves the loop: when the last handle is dropped while
  the graph is paused, the loop is never resumed and takes no packet any more, although it keeps
  running, until it is cancelled.
\<close>

theorem loop_starves_without_handles:
  fixes st :: "('m, 'c, 'cfg, 'ctx, 'f) loop_state"
  assumes "lp_phase st \<in> {LoopAwaitResume, LoopSelect}" "\<not> lp_cancelled st"
    and "pw_paused (lp_pause st)" "pw_handles (lp_pause st) = 0"
    and "(\<lambda>a b. loop_step X cf a b \<or> loop_env X a b \<and> \<not> lp_cancelled b)\<^sup>*\<^sup>* st st'"
  shows "lp_taken st' = lp_taken st \<and> lp_phase st' \<in> {LoopAwaitResume, LoopSelect} \<and>
    (\<exists>next. loop_step X cf st' next)"
proof -
  define starved where "starved = (\<lambda>x :: ('m, 'c, 'cfg, 'ctx, 'f) loop_state. lp_phase x \<in> {LoopAwaitResume, LoopSelect} \<and> \<not> lp_cancelled x \<and>
    pw_paused (lp_pause x) \<and> pw_handles (lp_pause x) = 0 \<and> lp_taken x = lp_taken st)"
  have "starved st'"
    using assms(5)
  proof (induction rule: rtranclp_induct)
    case base
    with assms(1-4) show ?case by (simp add: starved_def)
  next
    case (step y z)
    from step.hyps(2) show ?case
    proof
      assume "loop_step X cf y z"
      then show ?thesis
        using step.IH
        by (cases rule: loop_step.cases)
          (auto simp: starved_def loop_select_def wait_until_paused_def)
    next
      assume "loop_env X y z \<and> \<not> lp_cancelled z"
      then show ?thesis
        using step.IH by (auto simp: starved_def elim!: loop_env.cases)
    qed
  qed
  then consider "lp_phase st' = LoopAwaitResume" | "lp_phase st' = LoopSelect"
    by (auto simp: starved_def)
  then have "\<exists>next. loop_step X cf st' next"
  proof cases
    case 1
    with \<open>starved st'\<close> show ?thesis
      by (auto simp: starved_def wait_until_resumed_def intro!: exI loop_resumed)
  next
    case 2
    with \<open>starved st'\<close> show ?thesis
      by (auto simp: starved_def loop_select_def wait_until_paused_def intro!: exI loop_selected)
  qed
  with \<open>starved st'\<close> show ?thesis
    by (simp add: starved_def)
qed

end
