(* ===== verification/Loop_Samples.thy ===== *)
theory Loop_Samples
  imports Execution_Loop Graph_Samples
begin

text \<open>The execution loop on the sample runtime: a packet offered, a pause that is never lifted.\<close>

definition sample_config :: "unit loop_config" where
  "sample_config = \<lparr>lc_entry = n1, lc_metrics = (\<lambda>_. None)\<rparr>"

definition sample_loop :: "(string, packet fifo, unit, unit, nat) loop_state" where
  "sample_loop = loop_start sample_graph () (\<lambda>_. registry_new) (open_fifo [] 4) (open_fifo [] 4) False pause_new"

definition offered_loop :: "(string, packet fifo, unit, unit, nat) loop_state" where
  "offered_loop = sample_loop\<lparr>lp_source := snd (ch_try_send fifo_ops sample_packet (open_fifo [] 4))\<rparr>"

theorem loop_delivers_witness:
  "ff_queue (lp_source offered_loop) = [sample_packet] \<and>
   (\<exists>new. lp_taken offered_loop @ ff_queue (lp_source offered_loop) = new) \<and>
   lp_came_out offered_loop = lp_sent offered_loop"
proof -
  have "loop_env sample_ext sample_loop offered_loop"
    using env_offer [of sample_ext sample_loop sample_packet]
    by (simp add: offered_loop_def sample_loop_def loop_start_def sample_ext_def)
  then have reach: "loop_reach sample_ext sample_config sample_loop offered_loop"
    by (auto simp: loop_reach_def)
  have refl: "loop_reach sample_ext sample_config offered_loop offered_loop"
    by (simp add: loop_reach_def)
  have "lp_phase offered_loop = LoopStart"
    by (simp add: offered_loop_def sample_loop_def loop_start_def)
  with loop_delivers_in_order [OF sample_channels reach [unfolded sample_loop_def] refl]
  have "lp_came_out offered_loop = lp_sent offered_loop" by auto
  then show ?thesis
    by (simp add: offered_loop_def fifo_ops_def fifo_try_send_def open_fifo_def)
qed



definition deserted_loop :: "(string, packet fifo, unit, unit, nat) loop_state" where
  "deserted_loop = offered_loop\<lparr>lp_phase := LoopAwaitResume,
     lp_pause := pause_drop_handle (pause_pause pause_new)\<rparr>"

theorem loop_starves_witness:
  "\<exists>next. loop_step sample_ext sample_config deserted_loop next"
proof -
  have "lp_phase deserted_loop \<in> {LoopAwaitResume, LoopSelect}" "\<not> lp_cancelled deserted_loop"
      "pw_paused (lp_pause deserted_loop)" "pw_handles (lp_pause deserted_loop) = 0"
    by (simp_all add: deserted_loop_def offered_loop_def sample_loop_def loop_start_def pause_drop_handle_def
        pause_pause_def pause_new_def)
  from loop_starves_without_handles [OF this rtranclp.rtrancl_refl, of sample_ext sample_config]
  show ?thesis by blast
qed

end
