(* ===== verification/Installer.thy ===== *)
theory Installer
  imports Conflicts Package_Signing
begin

text \<open>
  Opening a package file (\<open>discover_one\<close> of \<open>crates/nyarix-loader/src/lib.rs\<close>), validating a
  candidate (\<open>validation.rs\<close>) and installing it (\<open>installer.rs\<close>). The state of the installer is
  the files and the index; what an error leaves behind stays.
\<close>

definition discover_one ::
    "'fs fs_ops \<Rightarrow> archive_ops \<Rightarrow> (string \<Rightarrow> string + ('v, 'r) package_manifest) \<Rightarrow> 'fs \<Rightarrow> string \<Rightarrow>
     (package_error + 'v discovered_package) outcome" where
  "discover_one F A parse s path =
     (case fs_read F path s of
        Inl source \<Rightarrow> Ret (Inl (PackageIo path source))
      | Inr data \<Rightarrow>
          obind (reader_open A parse data) (\<lambda>opened.
            case opened of
              Inl e \<Rightarrow> Ret (Inl e)
            | Inr reader \<Rightarrow>
                (let info = pm_package (pr_manifest reader)
                 in Ret (Inr \<lparr>dp_path = path, dp_name = pi_name info, dp_version = pi_version info\<rparr>))))"

lemma discover_one_returns: "\<exists>r. discover_one F A parse s path = Ret r"
proof (cases "fs_read F path s")
  case (Inr data)
  obtain r where "reader_open A parse data = Ret r"
    using reader_open_returns by blast
  with Inr show ?thesis
    by (cases r) (simp_all add: discover_one_def outcome_simps Let_def)
qed (simp add: discover_one_def)

subsection \<open>Validation\<close>

record 'r validation_report =
  vr_signature_status :: signature_status
  vr_trust_level :: trust_level
  vr_conflicts :: "'r conflict list"
  vr_platform_supported :: bool

definition report_is_valid :: "'r validation_report \<Rightarrow> bool" where
  "report_is_valid r \<longleftrightarrow> vr_conflicts r = [] \<and> vr_platform_supported r"

text \<open>
  The external packages of the pipeline in one record, with the system the code was built for;
  \<open>ks\<close> is the order in which the hash map of requirements is iterated.
\<close>

record ('v, 'r, 'sk, 'pk) loader_ops =
  lo_archive :: archive_ops
  lo_keys :: "('sk, 'pk) ed25519_ops"
  lo_semver :: "('v, 'r) semver_ops"
  lo_parse :: "string \<Rightarrow> string + ('v, 'r) package_manifest"
  lo_target_os :: string

definition validate_package ::
    "('v, 'r, 'sk, 'pk) loader_ops \<Rightarrow> string list \<Rightarrow> bytes \<Rightarrow> ('v, 'r) package_manifest list \<Rightarrow>
     'v module_index \<Rightarrow> trust_store \<Rightarrow> api_version \<Rightarrow> (package_error + 'r validation_report) outcome" where
  "validate_package L ks data other_manifests ix trust_store required_api_version =
     obind (reader_open (lo_archive L) (lo_parse L) data) (\<lambda>opened.
       case opened of
         Inl e \<Rightarrow> Ret (Inl e)
       | Inr reader \<Rightarrow>
       (case Package_Archive.signature_status (lo_archive L) (lo_keys L) reader of
          Inl e \<Rightarrow> Ret (Inl e)
        | Inr status \<Rightarrow>
       (case classify (lo_archive L) (lo_keys L) reader trust_store of
          Inl e \<Rightarrow> Ret (Inl e)
        | Inr level \<Rightarrow>
            (let manifests = other_manifests @ [pr_manifest reader];
                 conflicts = detect_conflicts (lo_semver L) ks manifests ix required_api_version;
                 supported = pt_supported (pm_platforms (pr_manifest reader));
                 platform_supported = (supported = [] \<or> platform_current (lo_target_os L) \<in> set supported)
             in Ret (Inr \<lparr>vr_signature_status = status, vr_trust_level = level, vr_conflicts = conflicts,
                          vr_platform_supported = platform_supported\<rparr>)))))"

subsection \<open>Installation\<close>

definition default_install_root :: "string option \<Rightarrow> string option \<Rightarrow> string option" where
  "default_install_root home userprofile =
     map_option (\<lambda>h. path_join (path_join h ''.nyarix'') ''packages'')
       (case home of Some h \<Rightarrow> Some h | None \<Rightarrow> userprofile)"

datatype 'v install_outcome = Installed "'v discovered_package" | AlreadyInstalled "'v duplicate_module"

text \<open>Writing one entry of the payload, and the loop over the members of the archive.\<close>

definition write_payload ::
    "'fs fs_ops \<Rightarrow> string \<Rightarrow> string \<Rightarrow> bytes \<Rightarrow> 'fs \<Rightarrow> (package_error + unit) \<times> 'fs" where
  "write_payload F payload_dir relative contents s =
     (let destination = path_join payload_dir relative;
          (made, s1) =
            (case path_parent destination of
               None \<Rightarrow> (Inr (), s)
             | Some parent \<Rightarrow>
                 (case fs_create_dir_all F parent s of
                    (Inl e, s') \<Rightarrow> (Inl (PackageIo parent e), s')
                  | (Inr _, s') \<Rightarrow> (Inr (), s')))
      in case made of
           Inl e \<Rightarrow> (Inl e, s1)
         | Inr _ \<Rightarrow>
             (case fs_write F destination contents s1 of
                (Inl e, s2) \<Rightarrow> (Inl (PackageIo destination e), s2)
              | (Inr _, s2) \<Rightarrow> (Inr (), s2)))"

fun unpack_payload ::
    "'fs fs_ops \<Rightarrow> string \<Rightarrow> (string \<times> bytes) list \<Rightarrow> 'fs \<Rightarrow> (package_error + unit) \<times> 'fs" where
  "unpack_payload F payload_dir [] s = (Inr (), s)"
| "unpack_payload F payload_dir ((path, contents) # rest) s =
     (case strip_prefix ''payload/'' path of
        None \<Rightarrow> unpack_payload F payload_dir rest s
      | Some relative \<Rightarrow>
          if relative = [] then unpack_payload F payload_dir rest s
          else if path_has_parent_dir relative
          then (Inl (PackageIo relative (IoError InvalidDataKind (''payload entry escapes payload/: '' @ path))), s)
          else (case write_payload F payload_dir relative contents s of
                  (Inl e, s1) \<Rightarrow> (Inl e, s1)
                | (Inr _, s1) \<Rightarrow> unpack_payload F payload_dir rest s1))"

definition install_package ::
    "'fs fs_ops \<Rightarrow> ('v, 'r, 'sk, 'pk) loader_ops \<Rightarrow> bytes \<Rightarrow> string \<Rightarrow> 'v module_index \<Rightarrow> 'fs \<Rightarrow>
     ((package_error + 'v install_outcome) \<times> 'v module_index \<times> 'fs) outcome" where
  "install_package F L data install_root ix s =
     obind (reader_open (lo_archive L) (lo_parse L) data) (\<lambda>opened.
       case opened of
         Inl e \<Rightarrow> Ret (Inl e, ix, s)
       | Inr reader \<Rightarrow>
         (let name = pi_name (pm_package (pr_manifest reader));
              version = pi_version (pm_package (pr_manifest reader));
              package_dir = path_join (path_join install_root name) (so_show (lo_semver L) version)
          in case fs_create_dir_all F package_dir s of
               (Inl e, s1) \<Rightarrow> Ret (Inl (PackageIo package_dir e), ix, s1)
             | (Inr _, s1) \<Rightarrow>
         (let archive_path = path_join package_dir ''package.nyp''
          in case fs_write F archive_path data s1 of
               (Inl e, s2) \<Rightarrow> Ret (Inl (PackageIo archive_path e), ix, s2)
             | (Inr _, s2) \<Rightarrow>
         (case reader_entries (lo_archive L) reader of
            Inl e \<Rightarrow> Ret (Inl e, ix, s2)
          | Inr entries \<Rightarrow>
         (case unpack_payload F (path_join package_dir ''payload'') entries s2 of
            (Inl e, s3) \<Rightarrow> Ret (Inl e, ix, s3)
          | (Inr _, s3) \<Rightarrow>
         (let discovered = \<lparr>dp_path = archive_path, dp_name = name, dp_version = version\<rparr>
          in case index_insert discovered ix of
               (Some duplicate, ix') \<Rightarrow> Ret (Inr (AlreadyInstalled duplicate), ix', s3)
             | (None, ix') \<Rightarrow> Ret (Inr (Installed discovered), ix', s3)))))))"

subsection \<open>Where the installer writes\<close>

definition under :: "string list \<Rightarrow> string list \<Rightarrow> bool" where
  "under d q \<longleftrightarrow> take (length d) q = d"

text \<open>A name that stays inside the directory it is joined to.\<close>

definition tame :: "string \<Rightarrow> bool" where
  "tame s \<longleftrightarrow> \<not> path_is_absolute s \<and> \<not> path_has_parent_dir s"

definition harmless :: "string \<Rightarrow> bool" where
  "harmless path \<longleftrightarrow> (\<forall>relative. path = ''payload/'' @ relative \<longrightarrow> \<not> path_is_absolute relative)"

lemma under_append [simp]: "under d (d @ q)"
  by (simp add: under_def)

lemma under_prefix: "under (d @ e) q \<Longrightarrow> under d q"
  unfolding under_def by (metis append_take_drop_id append_eq_append_conv2 append_eq_conv_conj take_add)

lemma tame_join: "plain_absolute d \<Longrightarrow> tame b \<Longrightarrow> plain_absolute (path_join d b)"
  by (simp add: tame_def plain_absolute_join)

lemma tame_key: "tame b \<Longrightarrow> path_key (path_join a b) = path_key a @ path_key b"
  by (simp add: tame_def path_key_join)

lemma tame_literals: "tame ''package.nyp''" "tame ''payload''"
  "path_key ''package.nyp'' = [''package.nyp'']" "path_key ''payload'' = [''payload'']"
  by (simp_all add: tame_def path_is_absolute_def path_has_parent_dir_def path_key_def)

context file_store
begin

lemma write_payload_frame:
  assumes "write_payload F payload_dir relative contents s = (r, s')"
    and "plain_absolute (path_join payload_dir relative)" "q \<noteq> path_key (path_join payload_dir relative)"
  shows "files s' q = files s q"
proof -
  let ?dest = "path_join payload_dir relative"
  have "files (snd (fs_write F ?dest contents s1)) q = files s1 q" for s1
    by (rule write_other [OF assms(2,3)])
  moreover have "files (snd (fs_create_dir_all F p s)) = files s" for p
    by (rule create_dir)
  ultimately show ?thesis
    using assms(1)
    by (auto simp: write_payload_def Let_def split: option.splits prod.splits sum.splits) (metis snd_conv)+
qed

lemma write_payload_ok:
  assumes "write_payload F payload_dir relative contents s = (Inr u, s')"
    and "plain_absolute (path_join payload_dir relative)"
  shows "files s' (path_key (path_join payload_dir relative)) = Some contents"
  using assms write_file [OF assms(2)]
  by (auto simp: write_payload_def Let_def split: option.splits prod.splits sum.splits)

lemma unpack_payload_frame:
  assumes "plain_absolute payload_dir"
  shows "unpack_payload F payload_dir entries s = (r, s') \<Longrightarrow> (\<forall>e \<in> set entries. harmless (fst e)) \<Longrightarrow>
    \<not> under (path_key payload_dir) q \<Longrightarrow> files s' q = files s q"
proof (induction entries arbitrary: s)
  case Nil
  then show ?case by simp
next
  case (Cons e rest)
  obtain path contents where e: "e = (path, contents)"
    by fastforce
  show ?case
  proof (cases "strip_prefix ''payload/'' path")
    case None
    with Cons e show ?thesis by simp
  next
    case (Some relative)
    with Cons.prems(2) e have safe: "\<not> path_is_absolute relative"
      by (auto simp: harmless_def strip_prefix_Some)
    show ?thesis
    proof (cases "relative = []")
      case True
      with Cons e Some show ?thesis by simp
    next
      case relative: False
      show ?thesis
      proof (cases "path_has_parent_dir relative")
      case True
      with Cons.prems(1) e Some relative show ?thesis by simp
    next
      case False
      obtain r1 s1 where w: "write_payload F payload_dir relative contents s = (r1, s1)"
        by fastforce
      have "files s1 q = files s q"
      proof (rule write_payload_frame [OF w])
        show "plain_absolute (path_join payload_dir relative)"
          using assms safe False by (simp add: plain_absolute_join)
        show "q \<noteq> path_key (path_join payload_dir relative)"
          using Cons.prems(3) safe by (auto simp: path_key_join)
      qed
      with Cons e Some relative False w show ?thesis
        by (cases r1) auto
      qed
    qed
  qed
qed

lemma unpack_payload_last:
  assumes "unpack_payload F payload_dir (entries @ [(''payload/'' @ relative, contents)]) s = (Inr u, s')"
    and "relative \<noteq> []" "plain_absolute (path_join payload_dir relative)"
  shows "files s' (path_key (path_join payload_dir relative)) = Some contents"
  using assms(1)
proof (induction entries arbitrary: s)
  case Nil
  have "strip_prefix ''payload/'' (''payload/'' @ relative) = Some relative"
    by (simp only: strip_prefix_Some)
  with Nil assms(2) show ?case
    by (auto split: if_splits prod.splits sum.splits intro: write_payload_ok [OF _ assms(3)]
        simp del: append_Cons)
next
  case (Cons e rest)
  obtain path data where "e = (path, data)"
    by fastforce
  with Cons show ?case
    by (auto split: option.splits if_splits prod.splits sum.splits)
qed

end

text \<open>An installation in its steps, once the archive opens.\<close>

definition package_dir_of ::
    "('v, 'r, 'sk, 'pk) loader_ops \<Rightarrow> string \<Rightarrow> ('v, 'r) package_reader \<Rightarrow> string" where
  "package_dir_of L install_root reader =
     path_join (path_join install_root (pi_name (pm_package (pr_manifest reader))))
       (so_show (lo_semver L) (pi_version (pm_package (pr_manifest reader))))"

lemma install_package_cases:
  assumes "install_package F L data install_root ix s = Ret (r, ix', s')"
    and "reader_open (lo_archive L) (lo_parse L) data = Ret (Inr reader)"
  obtains (no_dir) e where "r = Inl e" "ix' = ix" "s' = snd (fs_create_dir_all F (package_dir_of L install_root reader) s)"
  | (no_archive) e where "r = Inl e" "ix' = ix"
      "s' = snd (fs_write F (path_join (package_dir_of L install_root reader) ''package.nyp'') data
              (snd (fs_create_dir_all F (package_dir_of L install_root reader) s)))"
  | (unpacked) s2 es u where
      "fs_write F (path_join (package_dir_of L install_root reader) ''package.nyp'') data
         (snd (fs_create_dir_all F (package_dir_of L install_root reader) s)) = (Inr (), s2)"
      "reader_entries (lo_archive L) reader = Inr es"
      "unpack_payload F (path_join (package_dir_of L install_root reader) ''payload'') es s2 = (u, s')"
      "case u of
         Inl e \<Rightarrow> r = Inl e \<and> ix' = ix
       | Inr _ \<Rightarrow> \<exists>out. r = Inr out \<and> ix' = snd (index_insert
           \<lparr>dp_path = path_join (package_dir_of L install_root reader) ''package.nyp'',
            dp_name = pi_name (pm_package (pr_manifest reader)),
            dp_version = pi_version (pm_package (pr_manifest reader))\<rparr> ix) \<and>
           ((\<exists>d. out = AlreadyInstalled d) \<longleftrightarrow>
              index_has ix (pi_name (pm_package (pr_manifest reader))) (pi_version (pm_package (pr_manifest reader))))"
proof -
  let ?dir = "package_dir_of L install_root reader" and ?arch = "path_join (package_dir_of L install_root reader) ''package.nyp''"
  let ?d = "\<lparr>dp_path = ?arch, dp_name = pi_name (pm_package (pr_manifest reader)),
      dp_version = pi_version (pm_package (pr_manifest reader))\<rparr>"
  obtain r1 s1 where mk: "fs_create_dir_all F ?dir s = (r1, s1)"
    by fastforce
  obtain r2 s2 where wr: "fs_write F ?arch data s1 = (r2, s2)"
    by fastforce
  note run = assms(1) [unfolded install_package_def assms(2) obind.simps sum.case Let_def,
      folded package_dir_of_def, unfolded mk prod.case]
  show thesis
  proof (cases r1)
    case (Inl e)
    with run mk show thesis by (intro no_dir) auto
  next
    case r1: (Inr u1)
    show thesis
    proof (cases r2)
      case (Inl e)
      with run r1 mk wr show thesis by (intro no_archive) auto
    next
      case r2: (Inr u2)
      show thesis
      proof (cases "reader_entries (lo_archive L) reader")
        case (Inl e)
        with run r1 r2 mk wr show thesis by (intro no_archive) auto
      next
        case es: (Inr es)
        obtain u s3 where up: "unpack_payload F (path_join ?dir ''payload'') es s2 = (u, s3)"
          by fastforce
        have dup: "(\<exists>d ix2. index_insert ?d ix = (Some d, ix2)) \<longleftrightarrow>
            index_has ix (dp_name ?d) (dp_version ?d)"
          using index_insert_duplicate [of ?d ix] by (cases "index_insert ?d ix"; cases "fst (index_insert ?d ix)") auto
        show thesis
        proof (rule unpacked [OF _ es, of s2 u])
          show "fs_write F ?arch data (snd (fs_create_dir_all F ?dir s)) = (Inr (), s2)"
            using mk wr r2 by simp
          show "unpack_payload F (path_join ?dir ''payload'') es s2 = (u, s')"
            using run r1 r2 wr es up by (auto split: sum.splits prod.splits option.splits)
          show "case u of Inl e \<Rightarrow> r = Inl e \<and> ix' = ix
             | Inr _ \<Rightarrow> \<exists>out. r = Inr out \<and> ix' = snd (index_insert ?d ix) \<and>
                 ((\<exists>d. out = AlreadyInstalled d) \<longleftrightarrow>
                  index_has ix (pi_name (pm_package (pr_manifest reader))) (pi_version (pm_package (pr_manifest reader))))"
            using run r1 r2 wr es up dup by (auto split: sum.splits prod.splits option.splits)
        qed
      qed
    qed
  qed
qed


lemma package_dir_of_key:
  assumes "plain_absolute root" "tame (pi_name (pm_package (pr_manifest reader)))"
    "tame (so_show (lo_semver L) (pi_version (pm_package (pr_manifest reader))))"
  shows "plain_absolute (package_dir_of L root reader)"
    "path_key (package_dir_of L root reader) = path_key root @ path_key (pi_name (pm_package (pr_manifest reader))) @
       path_key (so_show (lo_semver L) (pi_version (pm_package (pr_manifest reader))))"
  using assms by (simp_all add: package_dir_of_def tame_join tame_key)

lemma install_package_returns: "\<exists>r ix' s'. install_package F L data root ix s = Ret (r, ix', s')"
proof -
  obtain opened where "reader_open (lo_archive L) (lo_parse L) data = Ret opened"
    using reader_open_returns by blast
  then have "\<exists>x. install_package F L data root ix s = Ret x"
    by (cases opened) (simp_all add: install_package_def Let_def split: sum.split prod.split option.split)
  then show ?thesis by auto
qed

text \<open>What an installation changes.\<close>

lemma install_effects:
  fixes F :: "'fs fs_ops"
  assumes store: "file_store F files"
    and run: "install_package F L data root ix s = Ret (r, ix', s')"
    and opened: "reader_open (lo_archive L) (lo_parse L) data = Ret (Inr reader)"
    and entries: "\<forall>es. reader_entries (lo_archive L) reader = Inr es \<longrightarrow> (\<forall>e \<in> set es. harmless (fst e))"
    and root: "plain_absolute root"
    and info: "info = pm_package (pr_manifest reader)"
    and names: "tame (pi_name info)" "tame (so_show (lo_semver L) (pi_version info))"
    and dir: "dir = path_key root @ path_key (pi_name info) @ path_key (so_show (lo_semver L) (pi_version info))"
  shows "(\<forall>q. \<not> under dir q \<longrightarrow> files s' q = files s q) \<and>
    (case r of
       Inl e \<Rightarrow> ix' = ix
     | Inr outcome \<Rightarrow>
         files s' (dir @ [''package.nyp'']) = Some data \<and>
         index_has ix' (pi_name info) (pi_version info) \<and>
         ((\<exists>d. outcome = AlreadyInstalled d) \<longleftrightarrow> index_has ix (pi_name info) (pi_version info)))"
proof -
  let ?dir = "package_dir_of L root reader"
  have plain: "plain_absolute ?dir" and key: "path_key ?dir = dir"
    using package_dir_of_key [OF root] names info dir by simp_all
  have arch: "plain_absolute (path_join ?dir ''package.nyp'')"
      "path_key (path_join ?dir ''package.nyp'') = dir @ [''package.nyp'']"
    and pay: "plain_absolute (path_join ?dir ''payload'')"
      "path_key (path_join ?dir ''payload'') = dir @ [''payload'']"
    using plain key by (simp_all add: tame_join tame_key tame_literals)
  have made: "files (snd (fs_create_dir_all F ?dir s)) = files s"
    by (rule file_store.create_dir [OF store])
  have wrote: "files (snd (fs_write F (path_join ?dir ''package.nyp'') bs s1)) q = files s1 q"
    if "\<not> under dir q" for bs s1 q
    by (rule file_store.write_other [OF store arch(1)]) (use that arch(2) in auto)
  from run opened show ?thesis
  proof (cases rule: install_package_cases)
    case (no_dir e)
    with made show ?thesis by simp
  next
    case (no_archive e)
    with made wrote show ?thesis by simp
  next
    case (unpacked s2 es u)
    have s2: "s2 = snd (fs_write F (path_join ?dir ''package.nyp'') data (snd (fs_create_dir_all F ?dir s)))"
      using unpacked(1) by simp
    have frame: "files s' q = files s2 q" if "\<not> under (dir @ [''payload'']) q" for q
      using file_store.unpack_payload_frame [OF store pay(1) unpacked(3)] entries unpacked(2) that pay(2) by simp
    have "files s' q = files s q" if "\<not> under dir q" for q
      using frame [of q] wrote [OF that] that under_prefix s2 made by metis
    moreover have "files s' (dir @ [''package.nyp'']) = Some data"
      using frame [of "dir @ [''package.nyp'']"] file_store.write_file [OF store arch(1) unpacked(1)] arch(2)
      by (simp add: under_def)
    ultimately show ?thesis
      using unpacked(4) info by (cases u) (auto simp: index_insert_has)
  qed
qed

text \<open>
  C22. An installation whose package name and version stay inside the directory they are joined to,
  and whose payload entries are relative after \<open>payload/\<close>, changes no file outside
  \<open><root>/<name>/<version>\<close>, whatever its outcome. A failed installation leaves the index as it
  was; a completed one has stored the archive verbatim as \<open>package.nyp\<close>, has the package in the
  index, and says that it was already installed exactly when the index had that name and version.
\<close>

theorem install_contained:
  fixes F :: "'fs fs_ops"
  assumes store: "file_store F files"
    and run: "install_package F L data root ix s = Ret (r, ix', s')"
    and opened: "reader_open (lo_archive L) (lo_parse L) data = Ret (Inr reader)"
    and entries: "\<forall>es. reader_entries (lo_archive L) reader = Inr es \<longrightarrow> (\<forall>e \<in> set es. harmless (fst e))"
    and root: "plain_absolute root"
    and info: "info = pm_package (pr_manifest reader)"
    and names: "tame (pi_name info)" "tame (so_show (lo_semver L) (pi_version info))"
    and dir: "dir = path_key root @ path_key (pi_name info) @ path_key (so_show (lo_semver L) (pi_version info))"
  shows "(\<forall>q. \<not> under dir q \<longrightarrow> files s' q = files s q) \<and>
    (case r of
       Inl e \<Rightarrow> ix' = ix
     | Inr outcome \<Rightarrow>
         files s' (dir @ [''package.nyp'']) = Some data \<and>
         index_has ix' (pi_name info) (pi_version info) \<and>
         ((\<exists>d. outcome = AlreadyInstalled d) \<longleftrightarrow> index_has ix (pi_name info) (pi_version info)))"
  by (rule install_effects [OF assms])

text \<open>
  C23. Only \<open>..\<close> is rejected: a payload entry that is an absolute path after \<open>payload/\<close> is
  written to that path. A completed installation of an archive whose last entry is
  \<open>payload/<path>\<close> has replaced the file at \<open>path\<close>, whatever the installation root.
\<close>

theorem install_escapes:
  fixes F :: "'fs fs_ops"
  assumes "file_store F files"
    and "install_package F L data root ix s = Ret (Inr outcome, ix', s')"
    and "reader_open (lo_archive L) (lo_parse L) data = Ret (Inr reader)"
    and "reader_entries (lo_archive L) reader = Inr (es @ [(''payload/'' @ path, contents)])"
    and "plain_absolute path"
  shows "files s' (path_key path) = Some contents"
  using assms(2,3)
proof (cases rule: install_package_cases)
  case (unpacked s2 es' u)
  have joined: "path_join d path = path" for d
    using assms(5) by (simp add: path_join_def plain_absolute_def)
  obtain v where v: "u = Inr v"
    using unpacked(4) by (cases u) auto
  have path: "path \<noteq> []"
    using assms(5) by (auto simp: plain_absolute_def path_is_absolute_def)
  have es: "es' = es @ [(''payload/'' @ path, contents)]"
    using unpacked(2) assms(4) by simp
  have "files s' (path_key (path_join (path_join (package_dir_of L root reader) ''payload'') path)) = Some contents"
    by (rule file_store.unpack_payload_last [OF assms(1) unpacked(3) [unfolded es v] path])
      (simp add: joined assms(5))
  then show ?thesis
    by (simp only: joined)
qed auto

end
