(* ===== verification/Rollback.thy ===== *)
theory Rollback
  imports Installer
begin

text \<open>
  The log of installs and rollbacks (\<open>crates/nyarix-loader/src/rollback.rs\<close>), the switch to a
  previous version, and the cache of packages (\<open>cache.rs\<close>). The time of an entry and the JSON of
  a file are arguments.
\<close>

datatype history_kind = HistoryInstalled | RolledBack

record ('v, 't) history_entry =
  he_name :: string
  he_version :: 'v
  he_kind :: history_kind
  he_at :: 't

datatype ('v, 'r, 'je) rollback_error =
    RollbackIo string io_error
  | InvalidHistory string 'je
  | NoActiveVersion string
  | NoPreviousVersion string
  | MissingArchive string 'v string
  | RollbackPackage package_error
  | Incompatible string 'v "'r conflict list"

record ('v, 't) rollback_history =
  rh_path :: string
  rh_entries :: "('v, 't) history_entry list"

text \<open>Reading and printing a list of records as JSON.\<close>

record ('a, 'je) json_ops =
  js_read :: "string \<Rightarrow> 'je + 'a list"
  js_print :: "'a list \<Rightarrow> 'je + string"

subsection \<open>The history file\<close>

definition history_file_path :: "string \<Rightarrow> string" where
  "history_file_path root = path_join root ''history.json''"

definition history_open ::
    "'fs fs_ops \<Rightarrow> (('v, 't) history_entry, 'je) json_ops \<Rightarrow> string \<Rightarrow> 'fs \<Rightarrow>
     ('v, 'r, 'je) rollback_error + ('v, 't) rollback_history" where
  "history_open F J root s =
     (let path = history_file_path root
      in case (case fs_read_to_string F path s of
                 Inr contents \<Rightarrow>
                   (case js_read J contents of Inl source \<Rightarrow> Inl (InvalidHistory path source) | Inr es \<Rightarrow> Inr es)
               | Inl source \<Rightarrow>
                   if io_kind source = NotFoundKind then Inr [] else Inl (RollbackIo path source)) of
           Inl e \<Rightarrow> Inl e
         | Inr entries \<Rightarrow> Inr \<lparr>rh_path = path, rh_entries = entries\<rparr>)"

definition history_save ::
    "'fs fs_ops \<Rightarrow> (('v, 't) history_entry, 'je) json_ops \<Rightarrow> ('v, 't) rollback_history \<Rightarrow> 'fs \<Rightarrow>
     (('v, 'r, 'je) rollback_error + unit) \<times> 'fs" where
  "history_save F J h s =
     (let (made, s1) =
            (case path_parent (rh_path h) of
               None \<Rightarrow> (Inr (), s)
             | Some parent \<Rightarrow>
                 (case fs_create_dir_all F parent s of
                    (Inl source, s') \<Rightarrow> (Inl (RollbackIo parent source), s')
                  | (Inr _, s') \<Rightarrow> (Inr (), s')))
      in case made of
           Inl e \<Rightarrow> (Inl e, s1)
         | Inr _ \<Rightarrow>
             (case js_print J (rh_entries h) of
                Inl source \<Rightarrow> (Inl (InvalidHistory (rh_path h) source), s1)
              | Inr json \<Rightarrow>
                  (case fs_write F (rh_path h) (string_bytes json) s1 of
                     (Inl source, s2) \<Rightarrow> (Inl (RollbackIo (rh_path h) source), s2)
                   | (Inr _, s2) \<Rightarrow> (Inr (), s2))))"

subsection \<open>The log\<close>

definition record_entry ::
    "history_kind \<Rightarrow> string \<Rightarrow> 'v \<Rightarrow> 't \<Rightarrow> ('v, 't) rollback_history \<Rightarrow> ('v, 't) rollback_history" where
  "record_entry kind name version now h =
     h\<lparr>rh_entries := rh_entries h @
        [\<lparr>he_name = name, he_version = version, he_kind = kind, he_at = now\<rparr>]\<rparr>"

definition record_install ::
    "string \<Rightarrow> 'v \<Rightarrow> 't \<Rightarrow> ('v, 't) rollback_history \<Rightarrow> ('v, 't) rollback_history" where
  "record_install = record_entry HistoryInstalled"

definition record_rollback ::
    "string \<Rightarrow> 'v \<Rightarrow> 't \<Rightarrow> ('v, 't) rollback_history \<Rightarrow> ('v, 't) rollback_history" where
  "record_rollback = record_entry RolledBack"

definition active_version :: "('v, 't) rollback_history \<Rightarrow> string \<Rightarrow> 'v option" where
  "active_version h name =
     map_option he_version (find (\<lambda>e. he_name e = name) (rev (rh_entries h)))"

definition previous_version :: "('v, 't) rollback_history \<Rightarrow> string \<Rightarrow> 'v option" where
  "previous_version h name =
     (case filter (\<lambda>e. he_name e = name) (rev (rh_entries h)) of
        e1 # e2 # _ \<Rightarrow> Some (he_version e2)
      | _ \<Rightarrow> None)"

definition rollback_package ::
    "'fs fs_ops \<Rightarrow> ('v, 'r, 'sk, 'pk) loader_ops \<Rightarrow> string list \<Rightarrow> 't \<Rightarrow> string \<Rightarrow> string \<Rightarrow>
     ('v, 't) rollback_history \<Rightarrow> trust_store \<Rightarrow> 'v module_index \<Rightarrow> api_version \<Rightarrow> 'fs \<Rightarrow>
     ((('v, 'r, 'je) rollback_error + 'v) \<times> ('v, 't) rollback_history) outcome" where
  "rollback_package F L ks now name install_root history trust_store ix required_api_version s =
     (case active_version history name of
        None \<Rightarrow> Ret (Inl (NoActiveVersion name), history)
      | Some _ \<Rightarrow>
     (case previous_version history name of
        None \<Rightarrow> Ret (Inl (NoPreviousVersion name), history)
      | Some previous \<Rightarrow>
     (let archive_path =
            path_join (path_join (path_join install_root name) (so_show (lo_semver L) previous)) ''package.nyp''
      in case fs_read F archive_path s of
           Inl source \<Rightarrow>
             Ret (Inl (if io_kind source = NotFoundKind then MissingArchive name previous archive_path
                       else RollbackIo archive_path source), history)
         | Inr data \<Rightarrow>
             obind (validate_package L ks data [] ix trust_store required_api_version) (\<lambda>validated.
               case validated of
                 Inl e \<Rightarrow> Ret (Inl (RollbackPackage e), history)
               | Inr report \<Rightarrow>
                   if \<not> report_is_valid report
                   then Ret (Inl (Incompatible name previous (vr_conflicts report)), history)
                   else Ret (Inr previous, record_rollback name previous now history)))))"

subsection \<open>The package cache\<close>

record ('v, 't) cache_entry =
  ce_name :: string
  ce_version :: 'v
  ce_path :: string
  ce_installed_at :: 't
  ce_size_bytes :: u64

datatype 'je cache_error = CacheIo string io_error | InvalidIndex string 'je

record ('v, 't) package_cache =
  pc_root :: string
  pc_entries :: "('v, 't) cache_entry list"

definition cache_default_root :: "string option \<Rightarrow> string option \<Rightarrow> string option" where
  "cache_default_root home userprofile =
     map_option (\<lambda>h. path_join (path_join h ''.nyarix'') ''cache'')
       (case home of Some h \<Rightarrow> Some h | None \<Rightarrow> userprofile)"

definition cache_index_path :: "string \<Rightarrow> string" where
  "cache_index_path root = path_join root ''packages.json''"

definition cache_open ::
    "'fs fs_ops \<Rightarrow> (('v, 't) cache_entry, 'je) json_ops \<Rightarrow> string \<Rightarrow> 'fs \<Rightarrow>
     'je cache_error + ('v, 't) package_cache" where
  "cache_open F J root s =
     (let index_path = cache_index_path root
      in case (case fs_read_to_string F index_path s of
                 Inr contents \<Rightarrow>
                   (case js_read J contents of Inl source \<Rightarrow> Inl (InvalidIndex index_path source) | Inr es \<Rightarrow> Inr es)
               | Inl source \<Rightarrow>
                   if io_kind source = NotFoundKind then Inr [] else Inl (CacheIo index_path source)) of
           Inl e \<Rightarrow> Inl e
         | Inr entries \<Rightarrow> Inr \<lparr>pc_root = root, pc_entries = entries\<rparr>)"

definition cache_save ::
    "'fs fs_ops \<Rightarrow> (('v, 't) cache_entry, 'je) json_ops \<Rightarrow> ('v, 't) package_cache \<Rightarrow> 'fs \<Rightarrow>
     ('je cache_error + unit) \<times> 'fs" where
  "cache_save F J c s =
     (case fs_create_dir_all F (pc_root c) s of
        (Inl source, s1) \<Rightarrow> (Inl (CacheIo (pc_root c) source), s1)
      | (Inr _, s1) \<Rightarrow>
     (let index_path = cache_index_path (pc_root c)
      in case js_print J (pc_entries c) of
           Inl source \<Rightarrow> (Inl (InvalidIndex index_path source), s1)
         | Inr json \<Rightarrow>
             (case fs_write F index_path (string_bytes json) s1 of
                (Inl source, s2) \<Rightarrow> (Inl (CacheIo index_path source), s2)
              | (Inr _, s2) \<Rightarrow> (Inr (), s2))))"

definition cache_record :: "('v, 't) cache_entry \<Rightarrow> ('v, 't) package_cache \<Rightarrow> ('v, 't) package_cache" where
  "cache_record e c =
     c\<lparr>pc_entries := filter (\<lambda>x. \<not> (ce_name x = ce_name e \<and> ce_version x = ce_version e)) (pc_entries c) @ [e]\<rparr>"

text \<open>The sum wraps at 64 bits, as the release profile compiles it.\<close>

definition total_size :: "('v, 't) cache_entry list \<Rightarrow> u64" where
  "total_size es = sum_list (map ce_size_bytes es)"

fun evict_loop ::
    "'fs fs_ops \<Rightarrow> u64 \<Rightarrow> ('v, 't) cache_entry list \<Rightarrow> ('v, 't) cache_entry list \<Rightarrow> 'fs \<Rightarrow>
     ('v, 't) cache_entry list \<times> ('v, 't) cache_entry list \<times> 'fs" where
  "evict_loop F max_bytes [] evicted s = (evicted, [], s)"
| "evict_loop F max_bytes (removed # rest) evicted s =
     (if max_bytes < total_size (removed # rest)
      then (let s' = (case path_parent (ce_path removed) of
                        None \<Rightarrow> s
                      | Some install_dir \<Rightarrow> snd (fs_remove_dir_all F install_dir s))
            in evict_loop F max_bytes rest (evicted @ [removed]) s')
      else (evicted, removed # rest, s))"

definition evict_to_fit ::
    "'fs fs_ops \<Rightarrow> u64 \<Rightarrow> ('v, 't::linorder) package_cache \<Rightarrow> 'fs \<Rightarrow>
     ('v, 't) cache_entry list \<times> ('v, 't) package_cache \<times> 'fs" where
  "evict_to_fit F max_bytes c s =
     (let (evicted, kept, s') = evict_loop F max_bytes (sort_key ce_installed_at (pc_entries c)) [] s
      in (evicted, c\<lparr>pc_entries := kept\<rparr>, s'))"


subsection \<open>The log as two lists\<close>

definition entries_of :: "('v, 't) rollback_history \<Rightarrow> string \<Rightarrow> 'v list" where
  "entries_of h name = map he_version (filter (\<lambda>e. he_name e = name) (rh_entries h))"

lemma active_version_last:
  "active_version h name = (if entries_of h name = [] then None else Some (last (entries_of h name)))"
proof -
  have "find P xs = (case filter P xs of [] \<Rightarrow> None | x # _ \<Rightarrow> Some x)" for P and xs :: "('a, 'b) history_entry list"
    by (induction xs) auto
  then show ?thesis
    by (simp add: active_version_def entries_of_def rev_filter [symmetric] last_map hd_rev [symmetric] rev_map
        split: list.split)
qed

lemma previous_version_last:
  "previous_version h name =
     (if length (entries_of h name) < 2 then None else Some (last (butlast (entries_of h name))))"
proof -
  have "previous_version h name =
    (case rev (entries_of h name) of e1 # e2 # _ \<Rightarrow> Some e2 | _ \<Rightarrow> None)"
    by (auto simp: previous_version_def entries_of_def rev_filter [symmetric] rev_map split: list.splits)
  also have "\<dots> = (if length (entries_of h name) < 2 then None else Some (last (butlast (entries_of h name))))"
    by (cases "entries_of h name" rule: rev_cases; cases "butlast (entries_of h name)" rule: rev_cases)
      (auto simp: butlast_append)
  finally show ?thesis .
qed

lemma entries_of_record [simp]:
  "entries_of (record_entry kind n v now h) name = entries_of h name @ (if n = name then [v] else [])"
  by (simp add: record_entry_def entries_of_def)


lemma record_rollback_versions:
  "active_version (record_rollback n x t h) n = Some x"
  "previous_version (record_rollback n x t h) n = active_version h n"
  by (auto simp: record_rollback_def active_version_last previous_version_last butlast_append less_Suc_eq)

lemma rollback_package_cases:
  assumes "rollback_package F L ks now name root h ts ix api s = Ret (r, h')"
  shows "(\<exists>e. r = Inl e \<and> h' = h \<and>
            (e = NoActiveVersion name \<longleftrightarrow> entries_of h name = []) \<and>
            (e = NoPreviousVersion name \<longleftrightarrow> length (entries_of h name) = 1)) \<or>
    (\<exists>v. r = Inr v \<and> h' = record_rollback name v now h \<and> previous_version h name = Some v)"
proof (cases "previous_version h name")
  case None
  then show ?thesis
    using assms
    by (auto simp: rollback_package_def active_version_last previous_version_last less_2_cases_iff split: if_splits)
next
  case (Some v)
  then have len: "\<not> length (entries_of h name) < 2"
    by (auto simp: previous_version_last split: if_splits)
  then have ne: "entries_of h name \<noteq> []" "length (entries_of h name) \<noteq> 1" and "\<exists>w. active_version h name = Some w"
    by (auto simp: active_version_last)
  then obtain w where w: "active_version h name = Some w"
    by blast
  let ?path = "path_join (path_join (path_join root name) (so_show (lo_semver L) v)) ''package.nyp''"
  show ?thesis
  proof (cases "fs_read F ?path s")
    case (Inl source)
    with assms Some w ne show ?thesis
      by (auto simp: rollback_package_def Let_def split: if_splits)
  next
    case (Inr data)
    with assms Some w obtain vr where vr: "validate_package L ks data [] ix ts api = Ret vr"
      by (cases "validate_package L ks data [] ix ts api") (auto simp: rollback_package_def Let_def)
    with assms Some w ne Inr show ?thesis
      by (cases vr) (auto simp: rollback_package_def Let_def split: if_splits)
  qed
qed

text \<open>
  C24. A rollback either fails and leaves the log as it was, or makes the previous version of the
  package the active one and the active version the previous one, and changes no other package.
  Hence a second rollback that succeeds returns to the version the first one left.
\<close>

theorem rollback_alternates:
  assumes first: "rollback_package F L ks now name root h ts ix api s = Ret (r, h')"
  shows "case r of
      Inl e \<Rightarrow> h' = h \<and> (e = NoActiveVersion name \<longleftrightarrow> active_version h name = None) \<and>
        (e = NoPreviousVersion name \<longleftrightarrow> active_version h name \<noteq> None \<and> previous_version h name = None)
    | Inr v \<Rightarrow>
        previous_version h name = Some v \<and> active_version h' name = Some v \<and>
        previous_version h' name = active_version h name \<and>
        (\<forall>n. n \<noteq> name \<longrightarrow> active_version h' n = active_version h n \<and> previous_version h' n = previous_version h n) \<and>
        (\<forall>ks2 now2 root2 ts2 ix2 api2 s2 v2 h2.
           rollback_package F L ks2 now2 name root2 h' ts2 ix2 api2 s2 = Ret (Inr v2, h2) \<longrightarrow>
           active_version h name = Some v2 \<and> active_version h2 name = Some v2)"
proof (cases r)
  case (Inl e)
  with rollback_package_cases [OF first]
  have "h' = h" "e = NoActiveVersion name \<longleftrightarrow> entries_of h name = []"
      "e = NoPreviousVersion name \<longleftrightarrow> length (entries_of h name) = 1"
    by auto
  with Inl show ?thesis
    by (auto simp: active_version_last previous_version_last less_2_cases_iff)
next
  case (Inr v)
  with rollback_package_cases [OF first]
  have h': "h' = record_rollback name v now h" and prev: "previous_version h name = Some v"
    by auto
  note shift = record_rollback_versions
  have other: "active_version h' n = active_version h n \<and> previous_version h' n = previous_version h n"
    if "n \<noteq> name" for n
    using that h' by (simp add: record_rollback_def active_version_last previous_version_last)
  have again: "active_version h name = Some v2 \<and> active_version h2 name = Some v2"
    if "rollback_package F L ks2 now2 name root2 h' ts2 ix2 api2 s2 = Ret (Inr v2, h2)"
    for ks2 now2 root2 ts2 ix2 api2 s2 v2 h2
    using rollback_package_cases [OF that] h' by (auto simp: shift)
  show ?thesis
    using Inr prev other shift [of name v now h, folded h'] by (auto dest: again)
qed

text \<open>
  A log that is saved and opened again from the same root is the same log, when the JSON
  reader reads back what the printer prints.
\<close>

theorem history_roundtrip:
  assumes "file_store F files" "plain_absolute root"
    and "h = \<lparr>rh_path = history_file_path root, rh_entries = es\<rparr>"
    and "js_print J es = Inr json" "js_read J json = Inr es"
    and "\<forall>text. fs_utf8 F (string_bytes text) = Inr text"
    and "history_save F J h s = (Inr u, s')"
  shows "history_open F J root s' = Inr h"
proof -
  have path: "plain_absolute (history_file_path root)"
    using assms(2) by (simp add: history_file_path_def tame_join tame_def path_is_absolute_def path_has_parent_dir_def path_key_def)
  obtain s1 where "fs_write F (history_file_path root) (string_bytes json) s1 = (Inr (), s')"
    using assms(3,4,7) by (auto simp: history_save_def Let_def split: option.splits prod.splits sum.splits)
  then have "files s' (path_key (history_file_path root)) = Some (string_bytes json)"
    using file_store.write_file [OF assms(1) path] by auto
  then have "fs_read F (history_file_path root) s' = Inr (string_bytes json)"
    using file_store.read_file [OF assms(1) path] by blast
  with assms(3,5,6) show ?thesis
    by (simp add: history_open_def fs_read_to_string_def Let_def)
qed


subsection \<open>Eviction\<close>

definition exact_size :: "('v, 't) cache_entry list \<Rightarrow> nat" where
  "exact_size es = sum_list (map (\<lambda>e. unat (ce_size_bytes e)) es)"

lemma total_size_exact: "exact_size es < 2 ^ 64 \<Longrightarrow> unat (total_size es) = exact_size es"
proof (induction es)
  case (Cons e es)
  then have "unat (ce_size_bytes e) + unat (total_size es) < 2 ^ LENGTH(64)"
    by (simp add: exact_size_def)
  with Cons show ?case
    by (simp add: exact_size_def total_size_def unat_add_lem [THEN iffD1])
qed (simp add: total_size_def exact_size_def)

lemma exact_size_drop: "exact_size (drop k es) \<le> exact_size es"
  by (simp add: exact_size_def drop_map [symmetric])
    (metis append_take_drop_id le_add2 sum_list_append)

lemma evict_loop_result:
  assumes "evict_loop F max_bytes es evicted s = (evicted', kept, s')"
  shows "\<exists>k \<le> length es. evicted' = evicted @ take k es \<and> kept = drop k es \<and> total_size kept \<le> max_bytes \<and>
    (\<forall>j < k. max_bytes < total_size (drop j es))"
  using assms
proof (induction es arbitrary: evicted s)
  case Nil
  then show ?case by (simp add: total_size_def)
next
  case (Cons e es)
  show ?case
  proof (cases "max_bytes < total_size (e # es)")
    case True
    with Cons.prems obtain s1 where "evict_loop F max_bytes es (evicted @ [e]) s1 = (evicted', kept, s')"
      by (auto simp: Let_def)
    from Cons.IH [OF this] obtain k where k: "k \<le> length es" "evicted' = (evicted @ [e]) @ take k es"
        "kept = drop k es" "total_size kept \<le> max_bytes" "\<forall>j < k. max_bytes < total_size (drop j es)"
      by blast
    have "\<forall>j < Suc k. max_bytes < total_size (drop j (e # es))"
      using k(5) True by (auto simp: less_Suc_eq_0_disj)
    with k show ?thesis
      by (intro exI [of _ "Suc k"]) simp
  next
    case False
    with Cons.prems show ?thesis
      by (intro exI [of _ 0]) auto
  qed
qed

context file_store
begin

lemma evict_loop_frame:
  "evict_loop F max_bytes es evicted s = (evicted', kept, s') \<Longrightarrow>
   (\<forall>e \<in> set es. \<forall>d. path_parent (ce_path e) = Some d \<longrightarrow> plain_absolute d) \<Longrightarrow>
   (\<forall>e \<in> set evicted'. \<forall>d. path_parent (ce_path e) = Some d \<longrightarrow> \<not> under (path_key d) q) \<Longrightarrow>
   files s' q = files s q"
proof (induction es arbitrary: evicted s)
  case (Cons e es)
  show ?case
  proof (cases "max_bytes < total_size (e # es)")
    case True
    define s1 where "s1 = (case path_parent (ce_path e) of None \<Rightarrow> s | Some d \<Rightarrow> snd (fs_remove_dir_all F d s))"
    from Cons.prems(1) True have run: "evict_loop F max_bytes es (evicted @ [e]) s1 = (evicted', kept, s')"
      by (simp add: s1_def Let_def)
    from evict_loop_result [OF run] have "e \<in> set evicted'"
      by auto
    then have "files s1 q = files s q"
      using Cons.prems(2,3) remove_dir [of _ q s]
      by (auto simp: s1_def under_def split: option.split)
    moreover have "files s' q = files s1 q"
      using Cons.IH [OF run] Cons.prems(2,3) by simp
    ultimately show ?thesis by simp
  qed (use Cons.prems in simp)
qed simp

end

text \<open>
  C26. Eviction removes the oldest entries and no more of them than needed: what it returns and
  what it keeps are together the entries by age, the entries kept fit into the limit, and before
  each eviction the entries left did not. On disk it removes nothing outside the install
  directories of the evicted packages. The sizes must not overflow the 64-bit sum.
\<close>

theorem evict_to_fit_oldest:
  fixes c :: "('v, 't::linorder) package_cache"
  assumes "file_store F files" and run: "evict_to_fit F max_bytes c s = (evicted, c', s')"
    and fits: "exact_size (pc_entries c) < 2 ^ 64"
    and plain: "\<forall>e \<in> set (pc_entries c). \<forall>d. path_parent (ce_path e) = Some d \<longrightarrow> plain_absolute d"
  shows "evicted @ pc_entries c' = sort_key ce_installed_at (pc_entries c) \<and> pc_root c' = pc_root c \<and>
    exact_size (pc_entries c') \<le> unat max_bytes \<and>
    (\<forall>j < length evicted. unat max_bytes < exact_size (drop j evicted @ pc_entries c')) \<and>
    (\<forall>q. (\<forall>e \<in> set evicted. \<forall>d. path_parent (ce_path e) = Some d \<longrightarrow> \<not> under (path_key d) q) \<longrightarrow>
       files s' q = files s q)"
proof -
  define es where "es = sort_key ce_installed_at (pc_entries c)"
  obtain kept where loop: "evict_loop F max_bytes es [] s = (evicted, kept, s')" and c': "c' = c\<lparr>pc_entries := kept\<rparr>"
    using run by (auto simp: evict_to_fit_def es_def Let_def split: prod.splits)
  obtain k where k: "k \<le> length es" "evicted = take k es" "kept = drop k es" "total_size kept \<le> max_bytes"
      "\<forall>j < k. max_bytes < total_size (drop j es)"
    using evict_loop_result [OF loop] by auto
  have "exact_size es = exact_size (pc_entries c)"
    unfolding exact_size_def es_def by (metis mset_map mset_sort sum_mset_sum_list)
  then have exact: "unat (total_size (drop j es)) = exact_size (drop j es)" for j
    using fits exact_size_drop [of j es] by (intro total_size_exact) simp
  have "unat max_bytes < exact_size (drop j evicted @ kept)" if "j < length evicted" for j
  proof -
    have "drop j es = drop j evicted @ kept"
      using that k(2,3) drop_append [of j "take k es" "drop k es"] by simp
    moreover have "unat max_bytes < exact_size (drop j es)"
      using that k(1,2,5) exact [of j] by (auto simp: word_less_nat_alt)
    ultimately show ?thesis by simp
  qed
  moreover have "exact_size kept \<le> unat max_bytes"
    using k(3,4) exact [of k] by (simp add: word_le_nat_alt)
  moreover have "\<forall>e \<in> set es. \<forall>d. path_parent (ce_path e) = Some d \<longrightarrow> plain_absolute d"
    using plain by (simp add: es_def)
  ultimately show ?thesis
    using k(2,3) c' file_store.evict_loop_frame [OF assms(1) loop] by (simp add: es_def)
qed

end
