(* ===== verification/Instantiation.thy ===== *)
theory Instantiation
  imports Module_Api
begin

text \<open>
  Instantiating modules (\<open>crates/nyarix-loader/src/instantiation.rs\<close>). A boxed module is the state
  \<open>'m\<close> of its implementation; a module that failed to initialize is dropped. A registered module
  is read only, so sharing it needs no store. A panic of \<open>initialize\<close> goes through.
\<close>

record instantiation_error =
  ie_name :: string
  ie_source :: module_error

definition instantiate_module ::
    "('v, 'm, 'ctx) node_ops \<Rightarrow> 'm \<Rightarrow> 'ctx \<Rightarrow> (instantiation_error + 'm) outcome \<times> 'ctx" where
  "instantiate_module N m ctx =
     (let name = mm_name (op_metadata N m);
          (r, m', ctx') = op_initialize N ctx m
      in (obind r (\<lambda>res.
            case res of
              Inl source \<Rightarrow> Ret (Inl \<lparr>ie_name = name, ie_source = source\<rparr>)
            | Inr _ \<Rightarrow> Ret (Inr m')), ctx'))"

type_synonym 'm module_registry = "string \<rightharpoonup> 'm"

definition registry_empty :: "'m module_registry" where
  "registry_empty = Map.empty"

definition instantiate_and_register ::
    "('v, 'm, 'ctx) node_ops \<Rightarrow> 'm \<Rightarrow> 'ctx \<Rightarrow> 'm module_registry \<Rightarrow>
     (instantiation_error + unit) outcome \<times> 'm module_registry \<times> 'ctx" where
  "instantiate_and_register N m ctx reg =
     (let (r, ctx') = instantiate_module N m ctx
      in case r of
           Ret (Inl e) \<Rightarrow> (Ret (Inl e), reg, ctx')
         | Ret (Inr instance) \<Rightarrow> (Ret (Inr ()), reg(mm_name (op_metadata N instance) \<mapsto> instance), ctx')
         | Panic msg \<Rightarrow> (Panic msg, reg, ctx')
         | NoFuel \<Rightarrow> (NoFuel, reg, ctx'))"

definition registry_get :: "string \<Rightarrow> 'm module_registry \<Rightarrow> 'm option" where
  "registry_get name reg = reg name"

definition dependencies_for :: "string list \<Rightarrow> 'm module_registry \<Rightarrow> (string \<rightharpoonup> 'm)" where
  "dependencies_for names reg =
     fold (\<lambda>name acc. case registry_get name reg of None \<Rightarrow> acc | Some m \<Rightarrow> acc(name \<mapsto> m)) names Map.empty"

definition registry_len :: "'m module_registry \<Rightarrow> nat" where
  "registry_len reg = card (dom reg)"

definition registry_is_empty :: "'m module_registry \<Rightarrow> bool" where
  "registry_is_empty reg \<longleftrightarrow> registry_len reg = 0"

lemma dependencies_for_eq: "dependencies_for names reg = reg |` set names"
proof -
  have "fold (\<lambda>name acc. case registry_get name reg of None \<Rightarrow> acc | Some m \<Rightarrow> acc(name \<mapsto> m)) names acc =
      (\<lambda>n. if n \<in> set names \<and> reg n \<noteq> None then reg n else acc n)" for acc
    by (induction names arbitrary: acc) (auto simp: registry_get_def fun_eq_iff split: option.splits)
  from this [of Map.empty] show ?thesis
    by (auto simp: dependencies_for_def restrict_map_def fun_eq_iff)
qed

lemma instantiate_and_register_result:
  assumes "instantiate_and_register N m ctx reg = (r, reg', ctx')"
  shows "reg' = (case op_initialize N ctx m of
      (Ret (Inr _), m', _) \<Rightarrow> reg(mm_name (op_metadata N m') \<mapsto> m') | _ \<Rightarrow> reg)"
    "ctx' = snd (snd (op_initialize N ctx m))"
  using assms
  by (auto simp: instantiate_and_register_def instantiate_module_def Let_def
      split: prod.splits outcome.splits sum.splits)

end
