(* ===== verification/Events.thy ===== *)
theory Events
  imports Module_Api
begin

text \<open>
  Events and the event bus (\<open>crates/nyarix-module-api/src/event.rs\<close>). The bus stands on
  \<open>tokio::sync::broadcast\<close>, which is not code of this repository: its operations are a record and
  its documented behaviour the locale \<open>broadcast\<close>. A subscription is a task; what it does with the
  events that reached it until it waits again is a function of the handler's state.
\<close>

subsection \<open>Events\<close>

datatype event =
    ModuleLoaded string
  | ModuleUnloaded string
  | FlowBuilt flow_id
  | FlowChanged flow_id
  | HandshakeStarted session_id
  | HandshakeCompleted session_id
  | PacketDropped string
  | TransportSwitched string string
  | HealthChanged string health
  | RekeyStarted session_id
  | RekeyCompleted session_id
  | ProfileApplied string
  | HealthDegraded string health
  | HealthRestored string
  | UpdateAvailable string
  | CapabilityDeniedEvent string string
  | CustomEvent string

datatype event_kind =
    KModuleLoaded | KModuleUnloaded | KFlowBuilt | KFlowChanged | KHandshakeStarted
  | KHandshakeCompleted | KPacketDropped | KTransportSwitched | KHealthChanged | KRekeyStarted
  | KRekeyCompleted | KProfileApplied | KHealthDegraded | KHealthRestored | KUpdateAvailable
  | KCapabilityDenied | KCustom

definition event_new :: "string \<Rightarrow> event" where
  "event_new name = CustomEvent name"

primrec event_kind_of :: "event \<Rightarrow> event_kind" where
  "event_kind_of (ModuleLoaded n) = KModuleLoaded"
| "event_kind_of (ModuleUnloaded n) = KModuleUnloaded"
| "event_kind_of (FlowBuilt f) = KFlowBuilt"
| "event_kind_of (FlowChanged f) = KFlowChanged"
| "event_kind_of (HandshakeStarted s) = KHandshakeStarted"
| "event_kind_of (HandshakeCompleted s) = KHandshakeCompleted"
| "event_kind_of (PacketDropped r) = KPacketDropped"
| "event_kind_of (TransportSwitched a b) = KTransportSwitched"
| "event_kind_of (HealthChanged m h) = KHealthChanged"
| "event_kind_of (RekeyStarted s) = KRekeyStarted"
| "event_kind_of (RekeyCompleted s) = KRekeyCompleted"
| "event_kind_of (ProfileApplied p) = KProfileApplied"
| "event_kind_of (HealthDegraded m h) = KHealthDegraded"
| "event_kind_of (HealthRestored m) = KHealthRestored"
| "event_kind_of (UpdateAvailable v) = KUpdateAvailable"
| "event_kind_of (CapabilityDeniedEvent m c) = KCapabilityDenied"
| "event_kind_of (CustomEvent n) = KCustom"

datatype event_filter = AllEvents | OnlyKinds "event_kind list"

primrec filter_matches :: "event_filter \<Rightarrow> event \<Rightarrow> bool" where
  "filter_matches AllEvents e = True"
| "filter_matches (OnlyKinds kinds) e = (event_kind_of e \<in> set kinds)"

definition DEFAULT_CAPACITY :: usize where
  "DEFAULT_CAPACITY = 256"

subsection \<open>The interface of a broadcast channel\<close>

text \<open>A receiver is a number; \<open>bc_subscribe\<close> gives a fresh one.\<close>

datatype 'e broadcast_recv = Received 'e | Lagged nat | BroadcastClosed | BroadcastEmpty

record ('b, 'e) broadcast_ops =
  bc_channel :: "usize \<Rightarrow> 'b outcome"
  bc_send :: "'e \<Rightarrow> 'b \<Rightarrow> ('e + nat) \<times> 'b"
  bc_subscribe :: "'b \<Rightarrow> nat \<times> 'b"
  bc_recv :: "nat \<Rightarrow> 'b \<Rightarrow> 'e broadcast_recv \<times> 'b"
  bc_drop :: "nat \<Rightarrow> 'b \<Rightarrow> 'b"

text \<open>
  \<open>unread b r\<close> is what receiver \<open>r\<close> has not received: at most the capacity of the latest events;
  \<open>lag b r\<close> counts the older ones it lost since its last receive.
\<close>

locale broadcast =
  fixes B :: "('b, 'e) broadcast_ops"
    and unread :: "'b \<Rightarrow> nat \<rightharpoonup> 'e list"
    and lag :: "'b \<Rightarrow> nat \<Rightarrow> nat"
    and room :: "'b \<Rightarrow> nat"
  assumes send_unread:
      "unread (snd (bc_send B e b)) r =
       map_option (\<lambda>es. if length es < room b then es @ [e] else tl es @ [e]) (unread b r)"
    and send_lag:
      "unread b r = Some es \<Longrightarrow>
       lag (snd (bc_send B e b)) r = (if length es < room b then lag b r else lag b r + 1)"
    and send_room: "room (snd (bc_send B e b)) = room b"
    and subscribe_fresh:
      "bc_subscribe B b = (r, b') \<Longrightarrow>
       unread b r = None \<and> unread b' = (unread b)(r \<mapsto> []) \<and> lag b' r = 0 \<and> room b' = room b \<and>
       (\<forall>q. q \<noteq> r \<longrightarrow> lag b' q = lag b q)"
    and recv_lagged:
      "unread b r = Some es \<Longrightarrow> 0 < lag b r \<Longrightarrow>
       \<exists>b'. bc_recv B r b = (Lagged (lag b r), b') \<and> unread b' = unread b \<and> lag b' = (lag b)(r := 0) \<and>
            room b' = room b"
    and recv_next:
      "unread b r = Some (e # es) \<Longrightarrow> lag b r = 0 \<Longrightarrow>
       \<exists>b'. bc_recv B r b = (Received e, b') \<and> unread b' = (unread b)(r \<mapsto> es) \<and> lag b' = lag b \<and>
            room b' = room b"
    and recv_empty:
      "unread b r = Some [] \<Longrightarrow> lag b r = 0 \<Longrightarrow> bc_recv B r b = (BroadcastEmpty, b)"
    and drop_receiver: "unread (bc_drop B r b) = (unread b)(r := None)"
    and room_positive: "0 < room b"

subsection \<open>The bus\<close>

definition event_bus_new :: "('b, event) broadcast_ops \<Rightarrow> usize \<Rightarrow> 'b outcome" where
  "event_bus_new B capacity = bc_channel B capacity"

definition event_bus_default :: "('b, event) broadcast_ops \<Rightarrow> 'b outcome" where
  "event_bus_default B = event_bus_new B DEFAULT_CAPACITY"

definition bus_publish :: "('b, event) broadcast_ops \<Rightarrow> event \<Rightarrow> 'b \<Rightarrow> 'b" where
  "bus_publish B e b = snd (bc_send B e b)"

text \<open>
  The body of a subscription's task until it waits again. A handler may change its state or
  panic, which ends the task; the asynchronous one may also run out of its time, which is logged.
  The fuel bounds the receives.
\<close>

datatype 'h subscription = Listening 'h | Unsubscribed 'h | HandlerPanicked

fun subscription_run ::
    "('b, event) broadcast_ops \<Rightarrow> nat \<Rightarrow> event_filter \<Rightarrow> (event \<Rightarrow> 'h \<Rightarrow> 'h option) \<Rightarrow> nat \<Rightarrow> 'h \<Rightarrow> 'b \<Rightarrow>
     ('h subscription \<times> 'b) outcome" where
  "subscription_run B 0 filt handler r h b = NoFuel"
| "subscription_run B (Suc fuel) filt handler r h b =
     (case bc_recv B r b of
        (Received e, b') \<Rightarrow>
          if filter_matches filt e
          then (case handler e h of
                  None \<Rightarrow> Ret (HandlerPanicked, bc_drop B r b')
                | Some h' \<Rightarrow> subscription_run B fuel filt handler r h' b')
          else subscription_run B fuel filt handler r h b'
      | (Lagged n, b') \<Rightarrow> subscription_run B fuel filt handler r h b'
      | (BroadcastClosed, b') \<Rightarrow> Ret (Unsubscribed h, bc_drop B r b')
      | (BroadcastEmpty, b') \<Rightarrow> Ret (Listening h, b'))"

definition bus_subscribe :: "('b, event) broadcast_ops \<Rightarrow> 'b \<Rightarrow> nat \<times> 'b" where
  "bus_subscribe B b = bc_subscribe B b"

text \<open>An asynchronous handler: it returns, or its time runs out with the state it then has.\<close>

datatype 'h handled = InTime 'h | TimedOut 'h

definition async_handler :: "(event \<Rightarrow> 'h \<Rightarrow> 'h handled option) \<Rightarrow> event \<Rightarrow> 'h \<Rightarrow> 'h option" where
  "async_handler handle e h =
     map_option (\<lambda>x. case x of InTime h' \<Rightarrow> h' | TimedOut h' \<Rightarrow> h') (handle e h)"


subsection \<open>What a subscriber sees\<close>

definition latest :: "nat \<Rightarrow> 'a list \<Rightarrow> 'a list" where
  "latest n xs = drop (length xs - n) xs"

lemma latest_snoc:
  assumes "0 < n"
  shows "latest n (xs @ [x]) = (if length (latest n xs) < n then latest n xs @ [x] else tl (latest n xs) @ [x])"
proof (cases "length xs < n")
  case True
  then show ?thesis by (simp add: latest_def)
next
  case False
  then have "Suc (length xs) - n = Suc (length xs - n)" by simp
  with assms False show ?thesis
    by (simp add: latest_def drop_Suc tl_drop)
qed

lemma latest_length [simp]: "length (latest n xs) = min n (length xs)"
  by (auto simp: latest_def min_def)

context broadcast
begin

lemma send_all:
  assumes "unread b r = Some []" "lag b r = 0"
  shows "unread (fold (\<lambda>e b. snd (bc_send B e b)) es b) r = Some (latest (room b) es) \<and>
    lag (fold (\<lambda>e b. snd (bc_send B e b)) es b) r = length es - room b \<and>
    room (fold (\<lambda>e b. snd (bc_send B e b)) es b) = room b"
proof (induction es rule: rev_induct)
  case Nil
  with assms show ?case by (simp add: latest_def)
next
  case (snoc e es)
  let ?b = "fold (\<lambda>e b. snd (bc_send B e b)) es b"
  have "unread (snd (bc_send B e ?b)) r = Some (latest (room b) (es @ [e]))"
    using snoc room_positive [of b] by (simp add: send_unread latest_snoc)
  moreover have "lag (snd (bc_send B e ?b)) r = length (es @ [e]) - room b"
    using snoc send_lag [of ?b r "latest (room b) es" e] by (auto simp: min_def split: if_splits)
  ultimately show ?case
    using snoc by (simp add: send_room)
qed

end

lemma subscription_run_fresh:
  assumes "broadcast B unread lag room"
  shows "unread b r = Some es \<Longrightarrow> lag b r = 0 \<Longrightarrow> length es < fuel \<Longrightarrow>
    \<exists>b'. subscription_run B fuel filt (\<lambda>e h. Some (handler e h)) r h b =
      Ret (Listening (fold handler (filter (filter_matches filt) es) h), b') \<and>
      unread b' = (unread b)(r \<mapsto> []) \<and> lag b' = lag b \<and> room b' = room b"
proof (induction es arbitrary: b h fuel)
  case Nil
  then obtain k where "fuel = Suc k" by (cases fuel) auto
  with Nil broadcast.recv_empty [OF assms Nil(1,2)] show ?case
    by (auto simp: fun_upd_idem)
next
  case (Cons e es)
  then obtain k where k: "fuel = Suc k" "length es < k" by (cases fuel) auto
  obtain b1 where b1: "bc_recv B r b = (Received e, b1)" "unread b1 = (unread b)(r \<mapsto> es)" "lag b1 = lag b"
      "room b1 = room b"
    using broadcast.recv_next [OF assms Cons.prems(1,2)] by blast
  let ?h = "if filter_matches filt e then handler e h else h"
  have "unread b1 r = Some es" "lag b1 r = 0"
    using b1 Cons.prems(2) by simp_all
  from Cons.IH [OF this k(2), of ?h] obtain b' where
    "subscription_run B k filt (\<lambda>e h. Some (handler e h)) r ?h b1 =
      Ret (Listening (fold handler (filter (filter_matches filt) es) ?h), b')"
    "unread b' = (unread b1)(r \<mapsto> [])" "lag b' = lag b1" "room b' = room b1"
    by blast
  with b1 k show ?case by auto
qed

text \<open>
  C30. A subscriber that gets its turn after events were published has seen the last of them, up to
  the capacity of the bus, in their order, without those its filter excludes; the older ones are
  lost to it, without an error.
\<close>

theorem subscriber_sees_latest:
  fixes B :: "('b, event) broadcast_ops"
  assumes "broadcast B unread lag room"
    and "bus_subscribe B b = (r, b1)"
    and "b2 = fold (bus_publish B) es b1"
    and "length es + 1 < fuel"
  shows "\<exists>b3. subscription_run B fuel filt (\<lambda>e h. Some (handler e h)) r h b2 =
      Ret (Listening (fold handler (filter (filter_matches filt) (drop (length es - room b) es)) h), b3) \<and>
      unread b3 r = Some [] \<and> lag b3 r = 0"
proof -
  have sub: "unread b1 r = Some []" "lag b1 r = 0" "room b1 = room b"
    using broadcast.subscribe_fresh [OF assms(1) assms(2) [unfolded bus_subscribe_def]] by auto
  have "bus_publish B = (\<lambda>e b. snd (bc_send B e b))"
    by (simp add: bus_publish_def fun_eq_iff)
  then have b2: "unread b2 r = Some (latest (room b) es)" "lag b2 r = length es - room b"
    using broadcast.send_all [OF assms(1) sub(1,2), of es] assms(3) sub(3) by simp_all
  obtain k where k: "fuel = Suc k" "length es < k"
    using assms(4) by (cases fuel) auto
  show ?thesis
  proof (cases "lag b2 r = 0")
    case True
    have "length (latest (room b) es) < fuel"
      using assms(4) by simp
    from subscription_run_fresh [OF assms(1) b2(1) True this, of filt handler h] True show ?thesis
      unfolding latest_def [symmetric] by (metis fun_upd_same)
  next
    case False
    with broadcast.recv_lagged [OF assms(1) b2(1)] obtain b' where
      b': "bc_recv B r b2 = (Lagged (lag b2 r), b')" "unread b' = unread b2" "lag b' = (lag b2)(r := 0)"
      by auto
    have u: "unread b' r = Some (latest (room b) es)" "lag b' r = 0" "length (latest (room b) es) < k"
      using b' b2(1) k(2) by simp_all
    obtain b3 where "subscription_run B k filt (\<lambda>e h. Some (handler e h)) r h b' =
        Ret (Listening (fold handler (filter (filter_matches filt) (latest (room b) es)) h), b3)"
        "unread b3 = (unread b')(r \<mapsto> [])" "lag b3 = lag b'"
      using subscription_run_fresh [OF assms(1) u, of filt handler h] by blast
    with k(1) b' show ?thesis
      by (auto simp: latest_def)
  qed
qed

subsection \<open>A reference channel\<close>

record 'e ref_bus =
  rb_extra :: nat
  rb_subs :: "('e list \<times> nat) option list"

definition ref_unread :: "'e ref_bus \<Rightarrow> nat \<rightharpoonup> 'e list" where
  "ref_unread b r = (if r < length (rb_subs b) then map_option fst (rb_subs b ! r) else None)"

definition ref_lag :: "'e ref_bus \<Rightarrow> nat \<Rightarrow> nat" where
  "ref_lag b r = (if r < length (rb_subs b) then (case rb_subs b ! r of None \<Rightarrow> 0 | Some (_, n) \<Rightarrow> n) else 0)"

definition ref_room :: "'e ref_bus \<Rightarrow> nat" where
  "ref_room b = Suc (rb_extra b)"

definition ref_broadcast :: "('e ref_bus, 'e) broadcast_ops" where
  "ref_broadcast = \<lparr>
     bc_channel = (\<lambda>n. if n = 0 then Panic ''broadcast channel capacity cannot be zero''
                       else Ret \<lparr>rb_extra = n - 1, rb_subs = []\<rparr>),
     bc_send = (\<lambda>e b. (Inr (length (rb_subs b)), b\<lparr>rb_subs := map (map_option (\<lambda>(es, n).
        if length es < ref_room b then (es @ [e], n) else (tl es @ [e], n + 1))) (rb_subs b)\<rparr>)),
     bc_subscribe = (\<lambda>b. (length (rb_subs b), b\<lparr>rb_subs := rb_subs b @ [Some ([], 0)]\<rparr>)),
     bc_recv = (\<lambda>r b.
        if r < length (rb_subs b)
        then (case rb_subs b ! r of
                None \<Rightarrow> (BroadcastClosed, b)
              | Some (es, n) \<Rightarrow>
                  if 0 < n then (Lagged n, b\<lparr>rb_subs := (rb_subs b)[r := Some (es, 0)]\<rparr>)
                  else (case es of
                          [] \<Rightarrow> (BroadcastEmpty, b)
                        | e # rest \<Rightarrow> (Received e, b\<lparr>rb_subs := (rb_subs b)[r := Some (rest, 0)]\<rparr>)))
        else (BroadcastClosed, b)),
     bc_drop = (\<lambda>r b. b\<lparr>rb_subs := (rb_subs b)[r := None]\<rparr>)\<rparr>"

interpretation ref_bus: broadcast ref_broadcast ref_unread ref_lag ref_room
proof unfold_locales
  fix b :: "'e ref_bus" and r e es
  show "ref_unread (snd (bc_send ref_broadcast e b)) r =
      map_option (\<lambda>es. if length es < ref_room b then es @ [e] else tl es @ [e]) (ref_unread b r)"
    by (cases "rb_subs b ! r") (auto simp: ref_broadcast_def ref_unread_def split: prod.split)
  show "ref_unread b r = Some es \<Longrightarrow> ref_lag (snd (bc_send ref_broadcast e b)) r =
      (if length es < ref_room b then ref_lag b r else ref_lag b r + 1)"
    by (auto simp: ref_broadcast_def ref_unread_def ref_lag_def split: option.splits if_splits)
  show "ref_room (snd (bc_send ref_broadcast e b)) = ref_room b"
    by (simp add: ref_broadcast_def ref_room_def)
  show "ref_unread b r = Some es \<Longrightarrow> 0 < ref_lag b r \<Longrightarrow>
      \<exists>b'. bc_recv ref_broadcast r b = (Lagged (ref_lag b r), b') \<and> ref_unread b' = ref_unread b \<and>
           ref_lag b' = (ref_lag b)(r := 0) \<and> ref_room b' = ref_room b"
    by (auto simp: ref_broadcast_def ref_unread_def ref_lag_def ref_room_def fun_eq_iff nth_list_update
        split: option.splits if_splits)
  show "ref_unread b r = Some (e # es) \<Longrightarrow> ref_lag b r = 0 \<Longrightarrow>
      \<exists>b'. bc_recv ref_broadcast r b = (Received e, b') \<and> ref_unread b' = (ref_unread b)(r \<mapsto> es) \<and>
           ref_lag b' = ref_lag b \<and> ref_room b' = ref_room b"
    by (auto simp: ref_broadcast_def ref_unread_def ref_lag_def ref_room_def fun_eq_iff nth_list_update
        split: option.splits if_splits)
  show "ref_unread b r = Some [] \<Longrightarrow> ref_lag b r = 0 \<Longrightarrow> bc_recv ref_broadcast r b = (BroadcastEmpty, b)"
    by (auto simp: ref_broadcast_def ref_unread_def ref_lag_def split: option.splits if_splits)
  show "ref_unread (bc_drop ref_broadcast r b) = (ref_unread b)(r := None)"
    by (auto simp: ref_broadcast_def ref_unread_def fun_eq_iff nth_list_update)
  show "0 < ref_room b"
    by (simp add: ref_room_def)
next
  fix b b' :: "'e ref_bus" and r
  show "bc_subscribe ref_broadcast b = (r, b') \<Longrightarrow>
      ref_unread b r = None \<and> ref_unread b' = (ref_unread b)(r \<mapsto> []) \<and> ref_lag b' r = 0 \<and>
      ref_room b' = ref_room b \<and> (\<forall>q. q \<noteq> r \<longrightarrow> ref_lag b' q = ref_lag b q)"
    by (auto simp: ref_broadcast_def ref_unread_def ref_lag_def ref_room_def fun_eq_iff nth_append)
qed

lemma ref_broadcast_laws: "broadcast ref_broadcast ref_unread ref_lag ref_room"
  by unfold_locales

text \<open>Three events on a bus with room for two: the first is lost.\<close>

theorem subscriber_sees_latest_witness:
  "\<exists>b. subscription_run ref_broadcast 6 AllEvents (\<lambda>e h. Some (h @ [e])) 0 []
      (fold (bus_publish ref_broadcast) [event_new ''a'', event_new ''b'', event_new ''c'']
        (snd (bus_subscribe ref_broadcast \<lparr>rb_extra = 1, rb_subs = []\<rparr>))) =
    Ret (Listening [event_new ''b'', event_new ''c''], b)"
proof -
  let ?b = "\<lparr>rb_extra = 1, rb_subs = []\<rparr> :: event ref_bus"
  have "bus_subscribe ref_broadcast ?b = (0, snd (bus_subscribe ref_broadcast ?b))"
    by (simp add: bus_subscribe_def ref_broadcast_def)
  from subscriber_sees_latest [OF ref_broadcast_laws this refl, of "[event_new ''a'', event_new ''b'', event_new ''c'']"
      6 AllEvents "\<lambda>e h. h @ [e]" "[]"]
  show ?thesis
    by (auto simp: ref_room_def)
qed

end
