(* ===== verification/Runtime_Context.thy ===== *)
theory Runtime_Context
  imports Events Throughput File_System Complex_Main
begin

text \<open>
  What the runtime hands a module (\<open>crates/nyarix-module-api/src/context.rs\<close>): its configuration
  (\<open>config.rs\<close>), its sandbox token (\<open>sandbox.rs\<close>), its dependencies, the event bus, and the checks
  that stand before I/O (\<open>io_policy.rs\<close>, \<open>rate_limiter.rs\<close>).

  Buses, metric registries and the cancellation tokens of \<open>tokio_util\<close> are shared; a context
  refers to them by number. The clock is an argument.
\<close>

subsection \<open>Policies\<close>

text \<open>
  The components of a path as \<open>std::path\<close> compares them: the root, a leading \<open>.\<close> and the names,
  \<open>..\<close> included.
\<close>

definition path_comps :: "string \<Rightarrow> string list" where
  "path_comps p =
     (if path_is_absolute p then [''/'']
      else if hd (path_components p) = ''.'' then [''.''] else []) @ path_key p"

definition path_starts_with :: "string \<Rightarrow> string \<Rightarrow> bool" where
  "path_starts_with p prefix \<longleftrightarrow> take (length (path_comps prefix)) (path_comps p) = path_comps prefix"

datatype filesystem_policy = FilesystemPolicy (allowed_prefixes: "string list")

definition fs_deny_all :: filesystem_policy where
  "fs_deny_all = FilesystemPolicy []"

definition fs_allowing :: "string list \<Rightarrow> filesystem_policy" where
  "fs_allowing prefixes = FilesystemPolicy prefixes"

definition fs_allows :: "filesystem_policy \<Rightarrow> string \<Rightarrow> bool" where
  "fs_allows policy path \<longleftrightarrow> (\<exists>prefix \<in> set (allowed_prefixes policy). path_starts_with path prefix)"

datatype network_policy = NetworkPolicy (allowed_hosts: "(string \<times> u16 option) list")

definition net_deny_all :: network_policy where
  "net_deny_all = NetworkPolicy []"

definition allow_host :: "string \<Rightarrow> network_policy \<Rightarrow> network_policy" where
  "allow_host host p = NetworkPolicy (allowed_hosts p @ [(host, None)])"

definition allow_host_port :: "string \<Rightarrow> u16 \<Rightarrow> network_policy \<Rightarrow> network_policy" where
  "allow_host_port host port p = NetworkPolicy (allowed_hosts p @ [(host, Some port)])"

definition net_allows :: "network_policy \<Rightarrow> string \<Rightarrow> u16 \<Rightarrow> bool" where
  "net_allows p host port \<longleftrightarrow>
     (\<exists>(h, q) \<in> set (allowed_hosts p). h = host \<and> (case q of None \<Rightarrow> True | Some allowed \<Rightarrow> allowed = port))"

definition net_allows_host :: "network_policy \<Rightarrow> string \<Rightarrow> bool" where
  "net_allows_host p host \<longleftrightarrow> (\<exists>(h, q) \<in> set (allowed_hosts p). h = host)"

subsection \<open>The rate limiter\<close>

record 'f rate_limiter =
  rl_capacity :: 'f
  rl_refill_per_second :: 'f
  rl_tokens :: 'f
  rl_last_refill :: nat

definition rate_limiter_new :: "'f f64_ops \<Rightarrow> nat \<Rightarrow> u32 \<Rightarrow> u32 \<Rightarrow> 'f rate_limiter" where
  "rate_limiter_new F now capacity refill_per_second = \<lparr>
     rl_capacity = f_of_nat F (unat capacity), rl_refill_per_second = f_of_nat F (unat refill_per_second),
     rl_tokens = f_of_nat F (unat capacity), rl_last_refill = now\<rparr>"

definition f_min :: "'f f64_ops \<Rightarrow> 'f \<Rightarrow> 'f \<Rightarrow> 'f" where
  "f_min F a b = (if f_le F a b then a else b)"

definition try_acquire :: "'f f64_ops \<Rightarrow> nat \<Rightarrow> 'f rate_limiter \<Rightarrow> bool \<times> 'f rate_limiter" where
  "try_acquire F now l =
     (let elapsed = secs_f64 F (now - rl_last_refill l);
          tokens = f_min F (f_add F (rl_tokens l) (f_mul F elapsed (rl_refill_per_second l))) (rl_capacity l);
          l1 = l\<lparr>rl_tokens := tokens, rl_last_refill := now\<rparr>
      in if f_le F (f_of_nat F 1) tokens
         then (True, l1\<lparr>rl_tokens := f_sub F tokens (f_of_nat F 1)\<rparr>)
         else (False, l1))"

subsection \<open>Tokens and configuration\<close>

text \<open>
  The cancellation tokens: \<open>tk_new\<close> and \<open>tk_child\<close> give a fresh one, the latter below another.
\<close>

record 't token_ops =
  tk_new :: "'t \<Rightarrow> nat \<times> 't"
  tk_child :: "nat \<Rightarrow> 't \<Rightarrow> nat \<times> 't"
  tk_cancel :: "nat \<Rightarrow> 't \<Rightarrow> 't"
  tk_is_cancelled :: "nat \<Rightarrow> 't \<Rightarrow> bool"

definition sandbox_default :: "'t token_ops \<Rightarrow> 't \<Rightarrow> nat \<times> 't" where
  "sandbox_default K s = tk_new K s"

definition sandbox_isolated :: "'t token_ops \<Rightarrow> nat \<Rightarrow> 't \<Rightarrow> nat \<times> 't" where
  "sandbox_isolated K parent s = tk_child K parent s"

definition sandbox_cancel :: "'t token_ops \<Rightarrow> nat \<Rightarrow> 't \<Rightarrow> 't" where
  "sandbox_cancel K token s = tk_cancel K token s"

text \<open>A module's configuration is a TOML value; looking up a key is the parser's.\<close>

record 'toml toml_ops =
  tm_empty :: 'toml
  tm_get :: "'toml \<Rightarrow> string \<Rightarrow> 'toml option"

definition module_config_get ::
    "'toml toml_ops \<Rightarrow> ('toml \<Rightarrow> 'e + 'a) \<Rightarrow> string \<Rightarrow> 'toml \<Rightarrow> 'a option" where
  "module_config_get T try_into key config =
     (case tm_get T config key of
        None \<Rightarrow> None
      | Some v \<Rightarrow> (case try_into v of Inl e \<Rightarrow> None | Inr x \<Rightarrow> Some x))"

subsection \<open>The context\<close>

record ('toml, 'm, 'f) runtime_context =
  cx_config :: 'toml
  cx_metrics :: "nat option"
  cx_sandbox :: nat
  cx_platform :: platform
  cx_dependencies :: "string \<rightharpoonup> 'm"
  cx_event_bus :: "nat option"
  cx_subscriptions :: "(nat \<times> nat) list"
  cx_granted_capabilities :: capability_mask
  cx_filesystem_policy :: filesystem_policy
  cx_network_policy :: network_policy
  cx_io_rate_limiter :: "'f rate_limiter option"
  cx_open_connections :: "string \<rightharpoonup> usize"

text \<open>\<open>target_os\<close> is the system the code was built for, \<open>sandbox\<close> a fresh token.\<close>

definition context_new ::
    "string \<Rightarrow> nat \<Rightarrow> 'toml \<Rightarrow> (string \<rightharpoonup> 'm) \<Rightarrow> ('toml, 'm, 'f) runtime_context" where
  "context_new target_os sandbox config dependencies = \<lparr>cx_config = config, cx_metrics = None,
     cx_sandbox = sandbox, cx_platform = platform_current target_os, cx_dependencies = dependencies,
     cx_event_bus = None, cx_subscriptions = [], cx_granted_capabilities = 0,
     cx_filesystem_policy = fs_deny_all, cx_network_policy = net_deny_all, cx_io_rate_limiter = None,
     cx_open_connections = Map.empty\<rparr>"

definition context_empty :: "'toml toml_ops \<Rightarrow> string \<Rightarrow> nat \<Rightarrow> ('toml, 'm, 'f) runtime_context" where
  "context_empty T target_os sandbox = context_new target_os sandbox (tm_empty T) Map.empty"

definition context_with_event_bus ::
    "string \<Rightarrow> nat \<Rightarrow> 'toml \<Rightarrow> (string \<rightharpoonup> 'm) \<Rightarrow> nat \<Rightarrow> ('toml, 'm, 'f) runtime_context" where
  "context_with_event_bus target_os sandbox config dependencies bus =
     (context_new target_os sandbox config dependencies)\<lparr>cx_event_bus := Some bus\<rparr>"

definition with_granted_capabilities ::
    "capability_mask \<Rightarrow> ('toml, 'm, 'f) runtime_context \<Rightarrow> ('toml, 'm, 'f) runtime_context" where
  "with_granted_capabilities granted ctx = ctx\<lparr>cx_granted_capabilities := granted\<rparr>"

definition with_filesystem_policy ::
    "filesystem_policy \<Rightarrow> ('toml, 'm, 'f) runtime_context \<Rightarrow> ('toml, 'm, 'f) runtime_context" where
  "with_filesystem_policy policy ctx = ctx\<lparr>cx_filesystem_policy := policy\<rparr>"

definition with_network_policy ::
    "network_policy \<Rightarrow> ('toml, 'm, 'f) runtime_context \<Rightarrow> ('toml, 'm, 'f) runtime_context" where
  "with_network_policy policy ctx = ctx\<lparr>cx_network_policy := policy\<rparr>"

definition with_io_rate_limiter ::
    "'f rate_limiter \<Rightarrow> ('toml, 'm, 'f) runtime_context \<Rightarrow> ('toml, 'm, 'f) runtime_context" where
  "with_io_rate_limiter limiter ctx = ctx\<lparr>cx_io_rate_limiter := Some limiter\<rparr>"

definition with_metrics_registry ::
    "nat \<Rightarrow> ('toml, 'm, 'f) runtime_context \<Rightarrow> ('toml, 'm, 'f) runtime_context" where
  "with_metrics_registry registry ctx = ctx\<lparr>cx_metrics := Some registry\<rparr>"

subsection \<open>Events of a context\<close>

text \<open>What contexts share.\<close>

record ('b, 'f) shared =
  sh_buses :: "nat \<Rightarrow> 'b"
  sh_registries :: "'f registries"

definition emit_event ::
    "('b, event) broadcast_ops \<Rightarrow> ('toml, 'm, 'f) runtime_context \<Rightarrow> event \<Rightarrow> ('b, 'f) shared \<Rightarrow> ('b, 'f) shared" where
  "emit_event B ctx e w =
     (let w1 = w\<lparr>sh_registries := on_registry (cx_metrics ctx)
                   (\<lambda>r. counter_increment 1 (registry_counter ''runtime'' ''event_rate'' r)) (sh_registries w)\<rparr>
      in case cx_event_bus ctx of
           None \<Rightarrow> w1
         | Some i \<Rightarrow> w1\<lparr>sh_buses := (sh_buses w1)(i := bus_publish B e (sh_buses w1 i))\<rparr>)"

text \<open>Both kinds of subscription: the receiver, tracked with its bus.\<close>

definition on_event ::
    "('b, event) broadcast_ops \<Rightarrow> ('toml, 'm, 'f) runtime_context \<Rightarrow> ('b, 'f) shared \<Rightarrow>
     bool \<times> ('toml, 'm, 'f) runtime_context \<times> ('b, 'f) shared" where
  "on_event B ctx w =
     (case cx_event_bus ctx of
        None \<Rightarrow> (False, ctx, w)
      | Some i \<Rightarrow>
          (let (r, b) = bus_subscribe B (sh_buses w i)
           in (True, ctx\<lparr>cx_subscriptions := cx_subscriptions ctx @ [(i, r)]\<rparr>,
               w\<lparr>sh_buses := (sh_buses w)(i := b)\<rparr>)))"

definition cancel_subscriptions ::
    "('b, event) broadcast_ops \<Rightarrow> ('toml, 'm, 'f) runtime_context \<Rightarrow> ('b, 'f) shared \<Rightarrow>
     ('toml, 'm, 'f) runtime_context \<times> ('b, 'f) shared" where
  "cancel_subscriptions B ctx w =
     (ctx\<lparr>cx_subscriptions := []\<rparr>,
      w\<lparr>sh_buses := fold (\<lambda>(i, r) bs. bs(i := bc_drop B r (bs i))) (cx_subscriptions ctx) (sh_buses w)\<rparr>)"

subsection \<open>Checks\<close>

primrec capability_name :: "capability \<Rightarrow> string" where
  "capability_name Filesystem = ''filesystem''"
| "capability_name Network = ''network''"
| "capability_name Tun = ''tun''"
| "capability_name Random = ''random''"
| "capability_name Crypto = ''crypto''"
| "capability_name Clock = ''clock''"
| "capability_name Scheduler = ''scheduler''"
| "capability_name Storage = ''storage''"
| "capability_name Metrics = ''metrics''"
| "capability_name Dns = ''dns''"
| "capability_name UiHooks = ''uihooks''"
| "capability_name Background = ''background''"
| "capability_name PrivilegedSockets = ''privilegedsockets''"

definition request_capabilities ::
    "('toml, 'm, 'f) runtime_context \<Rightarrow> 'v module_metadata \<Rightarrow> capability_grant" where
  "request_capabilities ctx metadata =
     grant_request (mm_required_capabilities metadata) (cx_granted_capabilities ctx)"

text \<open>The state a check may change: the context, for its limiter, and what is shared.\<close>

type_synonym ('toml, 'm, 'f, 'b) ctx_state = "('toml, 'm, 'f) runtime_context \<times> ('b, 'f) shared"

definition request_capability ::
    "('b, event) broadcast_ops \<Rightarrow> 'v module_metadata \<Rightarrow> capability \<Rightarrow> ('toml, 'm, 'f, 'b) ctx_state \<Rightarrow>
     (security_error + unit) \<times> ('toml, 'm, 'f, 'b) ctx_state" where
  "request_capability B metadata c = (\<lambda>(ctx, w).
     if mask_has (cx_granted_capabilities ctx) c then (Inr (), (ctx, w))
     else (Inl (CapabilityDenied (mm_name metadata) (capability_name c)),
           (ctx, emit_event B ctx (CapabilityDeniedEvent (mm_name metadata) (capability_name c)) w)))"

definition check_rate_limit ::
    "'f f64_ops \<Rightarrow> nat \<Rightarrow> 'v module_metadata \<Rightarrow> ('toml, 'm, 'f, 'b) ctx_state \<Rightarrow>
     (security_error + unit) \<times> ('toml, 'm, 'f, 'b) ctx_state" where
  "check_rate_limit F now metadata = (\<lambda>(ctx, w).
     case cx_io_rate_limiter ctx of
       None \<Rightarrow> (Inr (), (ctx, w))
     | Some limiter \<Rightarrow>
         (let (ok, limiter') = try_acquire F now limiter;
              ctx' = ctx\<lparr>cx_io_rate_limiter := Some limiter'\<rparr>
          in if ok then (Inr (), (ctx', w))
             else (Inl (SandboxViolation (mm_name metadata) ''I/O rate limit exceeded''), (ctx', w))))"

text \<open>\<open>?\<close>: the rest runs when the check passes.\<close>

definition check_then ::
    "('s \<Rightarrow> (security_error + unit) \<times> 's) \<Rightarrow> ('s \<Rightarrow> (security_error + unit) \<times> 's) \<Rightarrow> 's \<Rightarrow>
     (security_error + unit) \<times> 's" where
  "check_then f g s = (case f s of (Inl e, s') \<Rightarrow> (Inl e, s') | (Inr _, s') \<Rightarrow> g s')"

definition check_file_access ::
    "('b, event) broadcast_ops \<Rightarrow> 'f f64_ops \<Rightarrow> nat \<Rightarrow> 'v module_metadata \<Rightarrow> string \<Rightarrow>
     ('toml, 'm, 'f, 'b) ctx_state \<Rightarrow> (security_error + unit) \<times> ('toml, 'm, 'f, 'b) ctx_state" where
  "check_file_access B F now metadata path =
     check_then (request_capability B metadata Filesystem)
       (check_then (check_rate_limit F now metadata)
         (\<lambda>(ctx, w).
            if \<not> fs_allows (cx_filesystem_policy ctx) path
            then (Inl (SandboxViolation (mm_name metadata)
                    (''filesystem access to '' @ path @ '' is not whitelisted'')), (ctx, w))
            else (Inr (), (ctx, w))))"

definition check_network_access ::
    "('b, event) broadcast_ops \<Rightarrow> 'f f64_ops \<Rightarrow> nat \<Rightarrow> 'v module_metadata \<Rightarrow> string \<Rightarrow> u16 \<Rightarrow>
     ('toml, 'm, 'f, 'b) ctx_state \<Rightarrow> (security_error + unit) \<times> ('toml, 'm, 'f, 'b) ctx_state" where
  "check_network_access B F now metadata host port =
     check_then (request_capability B metadata Network)
       (check_then (check_rate_limit F now metadata)
         (\<lambda>(ctx, w).
            if \<not> net_allows (cx_network_policy ctx) host port
            then (Inl (SandboxViolation (mm_name metadata)
                    (''network access to '' @ host @ '':'' @ show_nat (unat port) @ '' is not whitelisted'')), (ctx, w))
            else (Inr (), (ctx, w))))"

definition check_dns_resolve ::
    "('b, event) broadcast_ops \<Rightarrow> 'f f64_ops \<Rightarrow> nat \<Rightarrow> 'v module_metadata \<Rightarrow> string \<Rightarrow>
     ('toml, 'm, 'f, 'b) ctx_state \<Rightarrow> (security_error + unit) \<times> ('toml, 'm, 'f, 'b) ctx_state" where
  "check_dns_resolve B F now metadata host =
     check_then (request_capability B metadata Dns)
       (check_then (check_rate_limit F now metadata)
         (\<lambda>(ctx, w).
            if \<not> net_allows_host (cx_network_policy ctx) host
            then (Inl (SandboxViolation (mm_name metadata)
                    (''DNS resolution of '' @ host @ '' is not whitelisted'')), (ctx, w))
            else (Inr (), (ctx, w))))"

definition check_bind_access ::
    "('b, event) broadcast_ops \<Rightarrow> 'f f64_ops \<Rightarrow> nat \<Rightarrow> 'v module_metadata \<Rightarrow> u16 \<Rightarrow>
     ('toml, 'm, 'f, 'b) ctx_state \<Rightarrow> (security_error + unit) \<times> ('toml, 'm, 'f, 'b) ctx_state" where
  "check_bind_access B F now metadata port =
     check_then (request_capability B metadata Network)
       (check_then
          (if port < 1024 then request_capability B metadata PrivilegedSockets else (\<lambda>s. (Inr (), s)))
          (check_rate_limit F now metadata))"

subsection \<open>Connections and dependencies\<close>

definition track_connection_opened ::
    "string \<Rightarrow> ('toml, 'm, 'f) runtime_context \<Rightarrow> ('toml, 'm, 'f) runtime_context" where
  "track_connection_opened name ctx =
     ctx\<lparr>cx_open_connections := (cx_open_connections ctx)(name \<mapsto>
        (case cx_open_connections ctx name of None \<Rightarrow> 0 | Some n \<Rightarrow> n) + 1)\<rparr>"

definition track_connection_closed ::
    "string \<Rightarrow> ('toml, 'm, 'f) runtime_context \<Rightarrow> ('toml, 'm, 'f) runtime_context" where
  "track_connection_closed name ctx =
     ctx\<lparr>cx_open_connections :=
        (case cx_open_connections ctx name of
           None \<Rightarrow> cx_open_connections ctx
         | Some n \<Rightarrow> (cx_open_connections ctx)(name \<mapsto> n - 1))\<rparr>"

definition open_connection_count :: "string \<Rightarrow> ('toml, 'm, 'f) runtime_context \<Rightarrow> usize" where
  "open_connection_count name ctx = (case cx_open_connections ctx name of None \<Rightarrow> 0 | Some n \<Rightarrow> n)"

definition resolve_dependency :: "string \<Rightarrow> ('toml, 'm, 'f) runtime_context \<Rightarrow> 'm option" where
  "resolve_dependency name ctx = cx_dependencies ctx name"

definition has_module :: "string \<Rightarrow> ('toml, 'm, 'f) runtime_context \<Rightarrow> bool" where
  "has_module name ctx \<longleftrightarrow> cx_dependencies ctx name \<noteq> None"


subsection \<open>What the checks let through\<close>

definition limiter_allows :: "'f f64_ops \<Rightarrow> nat \<Rightarrow> ('toml, 'm, 'f) runtime_context \<Rightarrow> bool" where
  "limiter_allows F now ctx \<longleftrightarrow>
     (case cx_io_rate_limiter ctx of None \<Rightarrow> True | Some l \<Rightarrow> fst (try_acquire F now l))"

definition limiter_charged ::
    "'f f64_ops \<Rightarrow> nat \<Rightarrow> ('toml, 'm, 'f) runtime_context \<Rightarrow> ('toml, 'm, 'f) runtime_context" where
  "limiter_charged F now ctx =
     ctx\<lparr>cx_io_rate_limiter := map_option (\<lambda>l. snd (try_acquire F now l)) (cx_io_rate_limiter ctx)\<rparr>"

lemma request_capability_result:
  "fst (request_capability B md c (ctx, w)) = Inr () \<longleftrightarrow> mask_has (cx_granted_capabilities ctx) c"
  "mask_has (cx_granted_capabilities ctx) c \<Longrightarrow> request_capability B md c (ctx, w) = (Inr (), (ctx, w))"
  "\<not> mask_has (cx_granted_capabilities ctx) c \<Longrightarrow> request_capability B md c (ctx, w) =
     (Inl (CapabilityDenied (mm_name md) (capability_name c)),
      (ctx, emit_event B ctx (CapabilityDeniedEvent (mm_name md) (capability_name c)) w))"
  by (simp_all add: request_capability_def)

lemma check_rate_limit_result:
  "check_rate_limit F now md (ctx, w) =
     (if limiter_allows F now ctx then Inr ()
      else Inl (SandboxViolation (mm_name md) ''I/O rate limit exceeded''), (limiter_charged F now ctx, w))"
  by (cases ctx)
    (auto simp: check_rate_limit_def limiter_allows_def limiter_charged_def Let_def split: option.split prod.split)

lemma limiter_charged_fields [simp]:
  "cx_filesystem_policy (limiter_charged F now ctx) = cx_filesystem_policy ctx"
  "cx_network_policy (limiter_charged F now ctx) = cx_network_policy ctx"
  by (simp_all add: limiter_charged_def)

lemma check_then_ok:
  "fst (check_then f g s) = Inr () \<longleftrightarrow> fst (f s) = Inr () \<and> fst (g (snd (f s))) = Inr ()"
  by (simp add: check_then_def split: prod.split sum.split)

lemma check_then_snd:
  "snd (check_then f g s) = (if fst (f s) = Inr () then snd (g (snd (f s))) else snd (f s))"
  by (auto simp: check_then_def split: prod.split sum.split)

lemmas checks = check_then_ok check_then_snd request_capability_result check_rate_limit_result

text \<open>
  C28. Access is allowed exactly when the capabilities were granted, the rate limiter has a token
  and the whitelist has the destination: for files, network connections, name resolution and, with
  the second capability for a port below 1024 and without whitelist, listening. Each of the four
  charges the limiter when its capabilities are there, also if the destination is refused, and
  publishes nothing then; without one it charges nothing and publishes the denial of the first
  that is missing.
\<close>

theorem access_checks_exact:
  "(fst (check_file_access B F now md path (ctx, w)) = Inr () \<longleftrightarrow>
      mask_has (cx_granted_capabilities ctx) Filesystem \<and> limiter_allows F now ctx \<and> fs_allows (cx_filesystem_policy ctx) path) \<and>
    (fst (check_network_access B F now md host port (ctx, w)) = Inr () \<longleftrightarrow>
      mask_has (cx_granted_capabilities ctx) Network \<and> limiter_allows F now ctx \<and> net_allows (cx_network_policy ctx) host port) \<and>
    (fst (check_dns_resolve B F now md host (ctx, w)) = Inr () \<longleftrightarrow>
      mask_has (cx_granted_capabilities ctx) Dns \<and> limiter_allows F now ctx \<and> net_allows_host (cx_network_policy ctx) host) \<and>
    (fst (check_bind_access B F now md port (ctx, w)) = Inr () \<longleftrightarrow>
      mask_has (cx_granted_capabilities ctx) Network \<and> (1024 \<le> port \<or> mask_has (cx_granted_capabilities ctx) PrivilegedSockets) \<and> limiter_allows F now ctx) \<and>
    snd (check_file_access B F now md path (ctx, w)) =
      (if mask_has (cx_granted_capabilities ctx) Filesystem then (limiter_charged F now ctx, w)
       else (ctx, emit_event B ctx (CapabilityDeniedEvent (mm_name md) ''filesystem'') w)) \<and>
    snd (check_network_access B F now md host port (ctx, w)) =
      (if mask_has (cx_granted_capabilities ctx) Network then (limiter_charged F now ctx, w)
       else (ctx, emit_event B ctx (CapabilityDeniedEvent (mm_name md) ''network'') w)) \<and>
    snd (check_dns_resolve B F now md host (ctx, w)) =
      (if mask_has (cx_granted_capabilities ctx) Dns then (limiter_charged F now ctx, w)
       else (ctx, emit_event B ctx (CapabilityDeniedEvent (mm_name md) ''dns'') w)) \<and>
    snd (check_bind_access B F now md port (ctx, w)) =
      (if \<not> mask_has (cx_granted_capabilities ctx) Network
       then (ctx, emit_event B ctx (CapabilityDeniedEvent (mm_name md) ''network'') w)
       else if port < 1024 \<and> \<not> mask_has (cx_granted_capabilities ctx) PrivilegedSockets
       then (ctx, emit_event B ctx (CapabilityDeniedEvent (mm_name md) ''privilegedsockets'') w)
       else (limiter_charged F now ctx, w))"
proof -
  have fs: "fst (check_file_access B F now md path (ctx, w)) = Inr () \<longleftrightarrow>
      mask_has (cx_granted_capabilities ctx) Filesystem \<and> limiter_allows F now ctx \<and> fs_allows (cx_filesystem_policy ctx) path"
    unfolding check_file_access_def by (auto simp: checks split: if_splits)
  have net: "fst (check_network_access B F now md host port (ctx, w)) = Inr () \<longleftrightarrow>
      mask_has (cx_granted_capabilities ctx) Network \<and> limiter_allows F now ctx \<and> net_allows (cx_network_policy ctx) host port"
    unfolding check_network_access_def by (auto simp: checks split: if_splits)
  have dns: "fst (check_dns_resolve B F now md host (ctx, w)) = Inr () \<longleftrightarrow>
      mask_has (cx_granted_capabilities ctx) Dns \<and> limiter_allows F now ctx \<and> net_allows_host (cx_network_policy ctx) host"
    unfolding check_dns_resolve_def by (auto simp: checks split: if_splits)
  have bind: "fst (check_bind_access B F now md port (ctx, w)) = Inr () \<longleftrightarrow>
      mask_has (cx_granted_capabilities ctx) Network \<and> (1024 \<le> port \<or> mask_has (cx_granted_capabilities ctx) PrivilegedSockets) \<and> limiter_allows F now ctx"
    unfolding check_bind_access_def by (cases "port < 1024") (auto simp: checks not_less split: if_splits)
  have fs_s: "snd (check_file_access B F now md path (ctx, w)) =
      (if mask_has (cx_granted_capabilities ctx) Filesystem then (limiter_charged F now ctx, w)
       else (ctx, emit_event B ctx (CapabilityDeniedEvent (mm_name md) ''filesystem'') w))"
    unfolding check_file_access_def by (simp add: checks)
  have net_s: "snd (check_network_access B F now md host port (ctx, w)) =
      (if mask_has (cx_granted_capabilities ctx) Network then (limiter_charged F now ctx, w)
       else (ctx, emit_event B ctx (CapabilityDeniedEvent (mm_name md) ''network'') w))"
    unfolding check_network_access_def by (simp add: checks)
  have dns_s: "snd (check_dns_resolve B F now md host (ctx, w)) =
      (if mask_has (cx_granted_capabilities ctx) Dns then (limiter_charged F now ctx, w)
       else (ctx, emit_event B ctx (CapabilityDeniedEvent (mm_name md) ''dns'') w))"
    unfolding check_dns_resolve_def by (simp add: checks)
  have bind_s: "snd (check_bind_access B F now md port (ctx, w)) =
      (if \<not> mask_has (cx_granted_capabilities ctx) Network
       then (ctx, emit_event B ctx (CapabilityDeniedEvent (mm_name md) ''network'') w)
       else if port < 1024 \<and> \<not> mask_has (cx_granted_capabilities ctx) PrivilegedSockets
       then (ctx, emit_event B ctx (CapabilityDeniedEvent (mm_name md) ''privilegedsockets'') w)
       else (limiter_charged F now ctx, w))"
    unfolding check_bind_access_def by (cases "port < 1024") (simp_all add: checks)
  show ?thesis
    by (intro conjI fs net dns bind fs_s net_s dns_s bind_s)
qed

text \<open>A prefix of a whitelist is compared with the components of a path as they stand: \<open>..\<close> is one.\<close>

lemma whitelist_keeps_parent_dir: "fs_allows (fs_allowing [''/data'']) ''/data/../etc/passwd''"
  by (simp add: fs_allows_def fs_allowing_def path_starts_with_def path_comps_def path_is_absolute_def path_key_def)

end
