(* ===== verification/Module_Loading.thy ===== *)
theory Module_Loading
  imports Rollback Instantiation Runtime_Context Execution_Loop
begin

text \<open>
  The runtime's side of modules: loading every package of the search directories
  (\<open>crates/nyarix-runtime/src/module_loader.rs\<close>), refusing modules without their capabilities
  (\<open>capability_enforcement.rs\<close>) and switching versions (\<open>version_switch.rs\<close>).
\<close>

subsection \<open>Loading\<close>

record 'r loaded_package =
  lp_path :: string
  lp_data :: bytes
  lp_validation :: "'r validation_report"

record 'r rejected_package =
  rj_path :: string
  rj_validation :: "'r validation_report"

record 'r module_load_report =
  ml_valid :: "'r loaded_package list"
  ml_invalid :: "'r rejected_package list"
  ml_errors :: "scan_error list"

primrec conflict_involves :: "'r conflict \<Rightarrow> string \<Rightarrow> bool" where
  "conflict_involves (IncompatibleVersions name requirements) n =
     (\<exists>rq \<in> set requirements. rq_requirer rq = n)"
| "conflict_involves (MissingDependency name requirers) n = (n \<in> set requirers)"
| "conflict_involves (IncompatibleApiVersion m required declared) n = (m = n)"

text \<open>Opening a file for the scan; \<open>discover_one\<close> always returns.\<close>

definition discover_total ::
    "'fs fs_ops \<Rightarrow> ('v, 'r, 'sk, 'pk) loader_ops \<Rightarrow> 'fs \<Rightarrow> string \<Rightarrow> package_error + 'v discovered_package" where
  "discover_total F L s path =
     (case discover_one F (lo_archive L) (lo_parse L) s path of
        Ret r \<Rightarrow> r
      | Panic m \<Rightarrow> Inl (InvalidManifest m)
      | NoFuel \<Rightarrow> Inl (InvalidManifest []))"

fun read_candidates ::
    "'fs fs_ops \<Rightarrow> 'fs \<Rightarrow> 'v discovered_package list \<Rightarrow> scan_error list \<Rightarrow>
     (string \<times> bytes) list \<times> scan_error list" where
  "read_candidates F s [] errors = ([], errors)"
| "read_candidates F s (d # ds) errors =
     (case fs_read F (dp_path d) s of
        Inr data \<Rightarrow> (case read_candidates F s ds errors of (cs, es) \<Rightarrow> ((dp_path d, data) # cs, es))
      | Inl source \<Rightarrow>
          read_candidates F s ds (errors @ [\<lparr>sc_path = dp_path d, sc_error = PackageIo (dp_path d) source\<rparr>]))"

definition manifest_of :: "('v, 'r, 'sk, 'pk) loader_ops \<Rightarrow> bytes \<Rightarrow> ('v, 'r) package_manifest option" where
  "manifest_of L data =
     (case reader_open (lo_archive L) (lo_parse L) data of
        Ret (Inr reader) \<Rightarrow> Some (pr_manifest reader)
      | _ \<Rightarrow> None)"

definition others_of :: "nat \<Rightarrow> 'a option list \<Rightarrow> 'a list" where
  "others_of i ms = concat (map (\<lambda>(j, m). if j = i then [] else case m of None \<Rightarrow> [] | Some x \<Rightarrow> [x]) (enumerate 0 ms))"

definition retain_conflicts :: "string option \<Rightarrow> 'r validation_report \<Rightarrow> 'r validation_report" where
  "retain_conflicts own_name v =
     (case own_name of
        None \<Rightarrow> v
      | Some n \<Rightarrow> v\<lparr>vr_conflicts := filter (\<lambda>c. conflict_involves c n) (vr_conflicts v)\<rparr>)"

fun load_candidates ::
    "('v, 'r, 'sk, 'pk) loader_ops \<Rightarrow> (nat \<Rightarrow> string list) \<Rightarrow> ('v, 'r) package_manifest option list \<Rightarrow>
     'v module_index \<Rightarrow> trust_store \<Rightarrow> api_version \<Rightarrow> nat \<Rightarrow> (string \<times> bytes) list \<Rightarrow>
     'r module_load_report \<Rightarrow> 'r module_load_report outcome" where
  "load_candidates L ks manifests ix ts api i [] report = Ret report"
| "load_candidates L ks manifests ix ts api i ((path, data) # rest) report =
     obind (validate_package L (ks i) data (others_of i manifests) ix ts api) (\<lambda>validated.
       let own_name = map_option (\<lambda>m. pi_name (pm_package m)) (manifests ! i)
       in case validated of
            Inr validation \<Rightarrow>
              (let validation = retain_conflicts own_name validation
               in load_candidates L ks manifests ix ts api (i + 1) rest
                    (if report_is_valid validation
                     then report\<lparr>ml_valid := ml_valid report @
                            [\<lparr>lp_path = path, lp_data = data, lp_validation = validation\<rparr>]\<rparr>
                     else report\<lparr>ml_invalid := ml_invalid report @
                            [\<lparr>rj_path = path, rj_validation = validation\<rparr>]\<rparr>))
          | Inl error \<Rightarrow>
              load_candidates L ks manifests ix ts api (i + 1) rest
                (report\<lparr>ml_errors := ml_errors report @ [\<lparr>sc_path = path, sc_error = error\<rparr>]\<rparr>))"

text \<open>
  \<open>names\<close> is the order of the index, \<open>dirs\<close> what the directories list. The files may change
  between the scan, in state \<open>s\<close>, and the reads, in state \<open>s2\<close>.
\<close>

definition load_modules ::
    "'fs fs_ops \<Rightarrow> ('v, 'r, 'sk, 'pk) loader_ops \<Rightarrow> (nat \<Rightarrow> string list) \<Rightarrow> string list \<Rightarrow> string list option list \<Rightarrow>
     trust_store \<Rightarrow> api_version \<Rightarrow> 'fs \<Rightarrow> 'fs \<Rightarrow> 'r module_load_report outcome" where
  "load_modules F L ks names dirs ts api s s2 =
     (let scan = scan_directories (discover_total F L s) dirs;
          (candidates, errors) =
            read_candidates F s2 (concat (map (\<lambda>n. index_get n (sr_index scan)) (index_names names (sr_index scan))))
              (sr_errors scan);
          manifests = map (\<lambda>(_, data). manifest_of L data) candidates
      in load_candidates L ks manifests (sr_index scan) ts api 0 candidates
           \<lparr>ml_valid = [], ml_invalid = [], ml_errors = errors\<rparr>)"

subsection \<open>Enforcement\<close>

datatype enforcement_error = EnforcementDenied security_error | EnforcementInstantiation instantiation_error

definition enforce_and_instantiate ::
    "('v, 'm, ('toml, 'd, 'f, 'b) ctx_state) node_ops \<Rightarrow> 'm \<Rightarrow> ('toml, 'd, 'f, 'b) ctx_state \<Rightarrow>
     (enforcement_error + 'm) outcome \<times> ('toml, 'd, 'f, 'b) ctx_state" where
  "enforce_and_instantiate N m st =
     (let name = mm_name (op_metadata N m);
          grant = request_capabilities (fst st) (op_metadata N m)
      in if \<not> grant_is_fully_granted grant
         then (case grant_denied grant of
                 [] \<Rightarrow> (Panic ''index out of bounds'', st)
               | c # _ \<Rightarrow> (Ret (Inl (EnforcementDenied (CapabilityDenied name (capability_name c)))), st))
         else (let (r, st') = instantiate_module N m st;
                   inner = obind r (\<lambda>x. Ret (case x of Inl error \<Rightarrow> Inl (ie_source error) | Inr m' \<Rightarrow> Inr m'))
               in (obind (catch_module_panic name inner) (\<lambda>x. Ret (case x of
                     Inl source \<Rightarrow> Inl (EnforcementInstantiation \<lparr>ie_name = name, ie_source = source\<rparr>)
                   | Inr m' \<Rightarrow> Inr m')), st')))"

subsection \<open>Switching versions\<close>

datatype 'v version_switch_error = NotCached string 'v | MigrationFailed module_error

datatype switch_outcome = HotSwapped | RestartRequired

definition version_is_cached :: "('v, 't) package_cache \<Rightarrow> string \<Rightarrow> 'v \<Rightarrow> bool" where
  "version_is_cached cache name version \<longleftrightarrow>
     (\<exists>e \<in> set (pc_entries cache). ce_name e = name \<and> ce_version e = version)"

definition switch_version ::
    "('v, 'm, 'ctx) node_ops \<Rightarrow> string \<Rightarrow> 'v \<Rightarrow> ('v, 't) package_cache \<Rightarrow> 'm \<Rightarrow> 'ctx \<Rightarrow>
     ('v version_switch_error + switch_outcome) outcome \<times> 'm \<times> 'ctx" where
  "switch_version N name target_version cache m ctx =
     (if \<not> version_is_cached cache name target_version then (Ret (Inl (NotCached name target_version)), m, ctx)
      else if \<not> op_supports_migration N m then (Ret (Inr RestartRequired), m, ctx)
      else case op_migrate N ctx m of
             (r, m', ctx') \<Rightarrow>
               (obind r (\<lambda>x. Ret (case x of Inl e \<Rightarrow> Inl (MigrationFailed e) | Inr _ \<Rightarrow> Inr HotSwapped)), m', ctx'))"

lemma version_is_cached_record: "version_is_cached (cache_record e c) (ce_name e) (ce_version e)"
  by (simp add: version_is_cached_def cache_record_def)

lemma version_is_cached_record_other:
  "(n, v) \<noteq> (ce_name e, ce_version e) \<Longrightarrow> version_is_cached (cache_record e c) n v = version_is_cached c n v"
  by (auto simp: version_is_cached_def cache_record_def)

subsection \<open>No module runs without its capabilities\<close>

text \<open>
  A module that was not granted a capability it requires is refused, by the name of the first
  one missing, and is not initialized: nothing changes. Otherwise it is initialized once, and an
  error or a panic of its initialization is an ordinary error that names it; enforcement itself
  never panics.
\<close>

theorem enforcement_gate:
  fixes N :: "('v, 'm, ('toml, 'd, 'f, 'b) ctx_state) node_ops"
  shows "enforce_and_instantiate N m st =
    (case filter (\<lambda>c. \<not> mask_has (cx_granted_capabilities (fst st)) c) (mm_required_capabilities (op_metadata N m)) of
       c # _ \<Rightarrow>
         (Ret (Inl (EnforcementDenied (CapabilityDenied (mm_name (op_metadata N m)) (capability_name c)))), st)
     | [] \<Rightarrow>
         (case op_initialize N st m of
            (Ret (Inr _), m', st') \<Rightarrow> (Ret (Inr m'), st')
          | (Ret (Inl e), m', st') \<Rightarrow>
              (Ret (Inl (EnforcementInstantiation \<lparr>ie_name = mm_name (op_metadata N m), ie_source = e\<rparr>)), st')
          | (Panic reason, m', st') \<Rightarrow>
              (Ret (Inl (EnforcementInstantiation \<lparr>ie_name = mm_name (op_metadata N m),
                 ie_source = Crashed (mm_name (op_metadata N m)) reason\<rparr>)), st')
          | (NoFuel, m', st') \<Rightarrow> (NoFuel, st')))"
proof -
  obtain r m' st' where "op_initialize N st m = (r, m', st')"
    using prod_cases3 by blast
  then show ?thesis
    by (cases r; cases "filter (\<lambda>c. \<not> mask_has (cx_granted_capabilities (fst st)) c) (mm_required_capabilities (op_metadata N m))")
      (auto simp: enforce_and_instantiate_def request_capabilities_def grant_request_def grant_is_fully_granted_def
        instantiate_module_def catch_module_panic_def catch_panic_def Let_def split: sum.split)
qed


subsection \<open>Every package ends up in one list\<close>

lemma validate_package_opens:
  assumes "validate_package L ks data ms ix ts api = Ret (Inr v)"
  shows "\<exists>reader. reader_open (lo_archive L) (lo_parse L) data = Ret (Inr reader)"
proof -
  obtain r where r: "reader_open (lo_archive L) (lo_parse L) data = Ret r"
    using reader_open_returns by blast
  with assms show ?thesis
    by (cases r) (simp_all add: validate_package_def)
qed

lemma validate_package_returns: "\<exists>r. validate_package L ks data ms ix ts api = Ret r"
proof -
  obtain r where r: "reader_open (lo_archive L) (lo_parse L) data = Ret r"
    using reader_open_returns by blast
  then show ?thesis
    by (cases r) (simp_all add: validate_package_def Let_def split: sum.split)
qed

text \<open>What is known of a package that was rejected.\<close>

definition rejected_for_cause ::
    "('v, 'r, 'sk, 'pk) loader_ops \<Rightarrow> (string \<times> bytes) list \<Rightarrow> 'r rejected_package \<Rightarrow> bool" where
  "rejected_for_cause L cs p \<longleftrightarrow>
     (\<exists>data m. (rj_path p, data) \<in> set cs \<and> manifest_of L data = Some m \<and>
        (\<forall>c \<in> set (vr_conflicts (rj_validation p)). conflict_involves c (pi_name (pm_package m))) \<and>
        (vr_conflicts (rj_validation p) \<noteq> [] \<or> \<not> vr_platform_supported (rj_validation p)))"

lemma load_candidates_result:
  assumes "drop i manifests = map (\<lambda>(_, data). manifest_of L data) cs" "i + length cs = length manifests"
  shows "\<exists>rep' vs ivs es. load_candidates L ks manifests ix ts api i cs rep = Ret rep' \<and>
    ml_valid rep' = ml_valid rep @ vs \<and> ml_invalid rep' = ml_invalid rep @ ivs \<and>
    ml_errors rep' = ml_errors rep @ es \<and>
    mset (map lp_path vs) + mset (map rj_path ivs) + mset (map sc_path es) = mset (map fst cs) \<and>
    (\<forall>p \<in> set vs. (lp_path p, lp_data p) \<in> set cs \<and> report_is_valid (lp_validation p)) \<and>
    (\<forall>p \<in> set ivs. rejected_for_cause L cs p)"
  using assms
proof (induction cs arbitrary: i rep)
  case Nil
  then show ?case by simp
next
  case (Cons c cs)
  obtain path data where c: "c = (path, data)" by fastforce
  obtain r where r: "validate_package L (ks i) data (others_of i manifests) ix ts api = Ret r"
    using validate_package_returns by blast
  have i: "i < length manifests" "manifests ! i = manifest_of L data"
    using Cons.prems c by (auto simp: hd_drop_conv_nth [symmetric])
  have next_i: "drop (i + 1) manifests = map (\<lambda>(_, data). manifest_of L data) cs" "i + 1 + length cs = length manifests"
  proof -
    have "drop (i + 1) manifests = tl (drop i manifests)"
      by (simp add: drop_Suc tl_drop)
    then show "drop (i + 1) manifests = map (\<lambda>(_, data). manifest_of L data) cs"
      using Cons.prems(1) by simp
    show "i + 1 + length cs = length manifests"
      using Cons.prems(2) by simp
  qed
  note IH = Cons.IH [OF next_i]
  have weaken: "rejected_for_cause L (c # cs) p" if "rejected_for_cause L cs p" for p
    using that unfolding rejected_for_cause_def by (metis list.set_intros(2))
  show ?case
  proof (cases r)
    case (Inl error)
    let ?rep = "rep\<lparr>ml_errors := ml_errors rep @ [\<lparr>sc_path = path, sc_error = error\<rparr>]\<rparr>"
    obtain rep' vs ivs es where step: "load_candidates L ks manifests ix ts api (i + 1) cs ?rep = Ret rep'"
      "ml_valid rep' = ml_valid rep @ vs" "ml_invalid rep' = ml_invalid rep @ ivs"
      "ml_errors rep' = ml_errors rep @ [\<lparr>sc_path = path, sc_error = error\<rparr>] @ es"
      "mset (map lp_path vs) + mset (map rj_path ivs) + mset (map sc_path es) = mset (map fst cs)"
      "\<forall>p \<in> set vs. (lp_path p, lp_data p) \<in> set cs \<and> report_is_valid (lp_validation p)"
      "\<forall>p \<in> set ivs. rejected_for_cause L cs p"
      using IH [of ?rep] by auto
    have "load_candidates L ks manifests ix ts api i (c # cs) rep = Ret rep'"
      using step(1) r Inl c by simp
    then show ?thesis
      by (intro exI [of _ rep'] exI [of _ vs] exI [of _ ivs] exI [of _ "\<lparr>sc_path = path, sc_error = error\<rparr> # es"])
        (use step c weaken in auto)
  next
    case (Inr v)
    obtain reader where reader: "reader_open (lo_archive L) (lo_parse L) data = Ret (Inr reader)"
      using validate_package_opens r Inr by blast
    then have m: "manifest_of L data = Some (pr_manifest reader)"
      by (simp add: manifest_of_def)
    define own where "own = pi_name (pm_package (pr_manifest reader))"
    define v' where "v' = retain_conflicts (Some own) v"
    show ?thesis
    proof (cases "report_is_valid v'")
      case True
      let ?p = "\<lparr>lp_path = path, lp_data = data, lp_validation = v'\<rparr>"
      let ?rep = "rep\<lparr>ml_valid := ml_valid rep @ [?p]\<rparr>"
      obtain rep' vs ivs es where step: "load_candidates L ks manifests ix ts api (i + 1) cs ?rep = Ret rep'"
        "ml_valid rep' = ml_valid rep @ [?p] @ vs" "ml_invalid rep' = ml_invalid rep @ ivs"
        "ml_errors rep' = ml_errors rep @ es"
        "mset (map lp_path vs) + mset (map rj_path ivs) + mset (map sc_path es) = mset (map fst cs)"
        "\<forall>p \<in> set vs. (lp_path p, lp_data p) \<in> set cs \<and> report_is_valid (lp_validation p)"
        "\<forall>p \<in> set ivs. rejected_for_cause L cs p"
        using IH [of ?rep] by auto
      have "load_candidates L ks manifests ix ts api i (c # cs) rep = Ret rep'"
        using step(1) r Inr c i m True by (simp add: Let_def v'_def own_def)
      then show ?thesis
        by (intro exI [of _ rep'] exI [of _ "?p # vs"] exI [of _ ivs] exI [of _ es])
          (use step c weaken True in auto)
    next
      case False
      let ?p = "\<lparr>rj_path = path, rj_validation = v'\<rparr>"
      let ?rep = "rep\<lparr>ml_invalid := ml_invalid rep @ [?p]\<rparr>"
      obtain rep' vs ivs es where step: "load_candidates L ks manifests ix ts api (i + 1) cs ?rep = Ret rep'"
        "ml_valid rep' = ml_valid rep @ vs" "ml_invalid rep' = ml_invalid rep @ [?p] @ ivs"
        "ml_errors rep' = ml_errors rep @ es"
        "mset (map lp_path vs) + mset (map rj_path ivs) + mset (map sc_path es) = mset (map fst cs)"
        "\<forall>p \<in> set vs. (lp_path p, lp_data p) \<in> set cs \<and> report_is_valid (lp_validation p)"
        "\<forall>p \<in> set ivs. rejected_for_cause L cs p"
        using IH [of ?rep] by auto
      have "load_candidates L ks manifests ix ts api i (c # cs) rep = Ret rep'"
        using step(1) r Inr c i m False by (simp add: Let_def v'_def own_def)
      moreover have "rejected_for_cause L (c # cs) ?p"
        using False m c by (auto simp: rejected_for_cause_def v'_def retain_conflicts_def own_def report_is_valid_def)
      ultimately show ?thesis
        by (intro exI [of _ rep'] exI [of _ vs] exI [of _ "?p # ivs"] exI [of _ es])
          (use step c weaken in auto)
    qed
  qed
qed

lemma read_candidates_paths:
  "read_candidates F s ds errors = (cs, es) \<Longrightarrow>
   mset (map fst cs) + mset (map sc_path es) = mset (map dp_path ds) + mset (map sc_path errors) \<and>
   (\<forall>(path, data) \<in> set cs. fs_read F path s = Inr data)"
  by (induction ds arbitrary: errors cs es) (fastforce split: sum.splits prod.splits)+

lemma discover_total_path:
  assumes "discover_total F L s f = Inr p"
  shows "dp_path p = f"
proof (cases "fs_read F f s")
  case (Inl e)
  with assms show ?thesis by (simp add: discover_total_def discover_one_def)
next
  case (Inr data)
  with assms show ?thesis
    by (cases "reader_open (lo_archive L) (lo_parse L) data")
      (auto simp: discover_total_def discover_one_def outcome_simps Let_def split: sum.splits)
qed

text \<open>
  C27. Loading accounts for every file: the \<open>.nyp\<close> files found in the directories are those the
  report lists, each once, as valid, as invalid or as an error, and those that repeat the name and
  version of an indexed package, which the report does not list at all. A valid package has no
  conflict it takes part in and fits the platform; an invalid one has such a conflict or does not
  fit, and is never rejected for conflicts between others. The data kept of a valid package is
  what its file held when it was read.
\<close>

theorem load_modules_sorts:
  assumes "scan = scan_directories (discover_total F L s) dirs" "is_order names (sr_index scan)"
  shows "\<exists>report. load_modules F L ks names dirs ts api s s2 = Ret report \<and>
    mset (map lp_path (ml_valid report)) + mset (map rj_path (ml_invalid report)) +
      mset (map sc_path (ml_errors report)) + mset (map dm_duplicate_path (sr_duplicates scan)) = mset (nyp_files dirs) \<and>
    (\<forall>d \<in> set (sr_duplicates scan). \<exists>q \<in> set (index_get (dm_name d) (sr_index scan)).
       dp_version q = dm_version d \<and> dp_path q = dm_kept_path d) \<and>
    (\<forall>p \<in> set (ml_valid report). fs_read F (lp_path p) s2 = Inr (lp_data p) \<and> report_is_valid (lp_validation p)) \<and>
    (\<forall>p \<in> set (ml_invalid report). \<exists>data m. fs_read F (rj_path p) s2 = Inr data \<and> manifest_of L data = Some m \<and>
       (\<forall>c \<in> set (vr_conflicts (rj_validation p)). conflict_involves c (pi_name (pm_package m))) \<and>
       (vr_conflicts (rj_validation p) \<noteq> [] \<or> \<not> vr_platform_supported (rj_validation p)))"
proof -
  let ?scan = scan
  obtain cs es where read: "read_candidates F s2 (concat (map (\<lambda>n. index_get n (sr_index ?scan)) names))
      (sr_errors ?scan) = (cs, es)"
    by fastforce
  note paths = read_candidates_paths [OF read]
  have account: "scan_account scan = mset (nyp_files dirs)" and ok: "scan_ok scan"
    using scan_accounts [of "discover_total F L s" dirs, OF discover_total_path [of F L s]] by (simp_all add: assms(1))
  obtain rep vs ivs es' where
    "load_candidates L ks (map (\<lambda>(_, data). manifest_of L data) cs) (sr_index ?scan) ts api 0 cs
       \<lparr>ml_valid = [], ml_invalid = [], ml_errors = es\<rparr> = Ret rep"
    "ml_valid rep = vs" "ml_invalid rep = ivs" "ml_errors rep = es @ es'"
    "mset (map lp_path vs) + mset (map rj_path ivs) + mset (map sc_path es') = mset (map fst cs)"
    "\<forall>p \<in> set vs. (lp_path p, lp_data p) \<in> set cs \<and> report_is_valid (lp_validation p)"
    "\<forall>p \<in> set ivs. rejected_for_cause L cs p"
    using load_candidates_result [of 0 "map (\<lambda>(_, data). manifest_of L data) cs" L cs ks "sr_index ?scan" ts api
        "\<lparr>ml_valid = [], ml_invalid = [], ml_errors = es\<rparr>"]
    by auto
  note res = this
  have "load_modules F L ks names dirs ts api s s2 = Ret rep"
    using res(1) read by (simp add: load_modules_def index_names_def Let_def assms(1))
  moreover have "mset (map lp_path vs) + mset (map rj_path ivs) + mset (map sc_path (es @ es')) +
      mset (map dm_duplicate_path (sr_duplicates scan)) = mset (nyp_files dirs)"
  proof -
    have "mset (map lp_path vs) + mset (map rj_path ivs) + mset (map sc_path (es @ es')) =
        (mset (map lp_path vs) + mset (map rj_path ivs) + mset (map sc_path es')) + mset (map sc_path es)"
      by (simp add: ac_simps)
    also have "\<dots> = mset (map fst cs) + mset (map sc_path es)"
      by (simp only: res(5))
    also have "\<dots> = index_paths (sr_index scan) + mset (map sc_path (sr_errors scan))"
      using paths index_paths_order [OF assms(2)] by (simp only:)
    finally show ?thesis
      using account by (simp only: scan_account_def)
  qed
  moreover have "\<forall>d \<in> set (sr_duplicates scan). \<exists>q \<in> set (index_get (dm_name d) (sr_index scan)).
      dp_version q = dm_version d \<and> dp_path q = dm_kept_path d"
    using ok by (simp add: scan_ok_def duplicate_kept_def)
  moreover have "\<forall>p \<in> set vs. fs_read F (lp_path p) s2 = Inr (lp_data p) \<and> report_is_valid (lp_validation p)"
    using res(6) paths by fastforce
  moreover have "\<forall>p \<in> set ivs. \<exists>data m. fs_read F (rj_path p) s2 = Inr data \<and> manifest_of L data = Some m \<and>
       (\<forall>c \<in> set (vr_conflicts (rj_validation p)). conflict_involves c (pi_name (pm_package m))) \<and>
       (vr_conflicts (rj_validation p) \<noteq> [] \<or> \<not> vr_platform_supported (rj_validation p))"
    using res(7) paths unfolding rejected_for_cause_def by fast
  ultimately show ?thesis
    by (intro exI [of _ rep] conjI) (simp_all only: res(2,3,4))
qed

end
