(* ===== verification/Install_Samples.thy ===== *)
theory Install_Samples
  imports Rollback Loader_Samples
begin

text \<open>
  The properties of installation, rollback and the package cache applied to two small archives,
  an empty file system and the reference implementations of the external packages.
\<close>

definition sample_loader :: "(sem_ver, sem_ver, u8, u8) loader_ops" where
  "sample_loader = \<lparr>lo_archive = ref_archive, lo_keys = ref_ed25519, lo_semver = core_semver,
     lo_parse = sample_parse, lo_target_os = ''linux''\<rparr>"

definition plain_entries :: "(string \<times> bytes) list" where
  "plain_entries = [(''manifest.toml'', [1]), (''payload/m.wasm'', [5, 6])]"

definition hostile_entries :: "(string \<times> bytes) list" where
  "hostile_entries = [(''manifest.toml'', [1]), (''payload/'' @ ''/etc/passwd'', [9])]"

definition packed :: "(string \<times> bytes) list \<Rightarrow> bytes" where
  "packed es = concat (map ref_entry es)"

definition packed_reader :: "(string \<times> bytes) list \<Rightarrow> (sem_ver, sem_ver) package_reader" where
  "packed_reader es = \<lparr>pr_tar_bytes = packed es, pr_manifest = sample_manifest ''app'' []\<rparr>"

lemma packed_ar_entries: "ar_entries ref_archive (packed es) = Inr (map (\<lambda>(p, c). Inr (Inr p, Inr c)) es)"
proof -
  have "length es \<le> length (concat (map ref_entry es))"
    by (induction es) (simp_all add: ref_entry_def)
  then show ?thesis
    using ref_entries_all by (simp add: ref_archive_def packed_def)
qed

lemma packed_entries: "reader_entries ref_archive (packed_reader es) = Inr es"
  using archive_codec.entries_scan_all [OF ref_archive_codec, of es "[]"]
  by (simp add: reader_entries_def packed_reader_def packed_ar_entries)

lemma packed_decompress [simp]: "ar_decompress ref_archive = Inr" "ar_utf8 ref_archive = (\<lambda>bs. Inr (bytes_string bs))"
  by (simp_all add: ref_archive_def)

lemma sample_opens:
  "reader_open ref_archive sample_parse (packed plain_entries) = Ret (Inr (packed_reader plain_entries))"
  "reader_open ref_archive sample_parse (packed hostile_entries) = Ret (Inr (packed_reader hostile_entries))"
  by (simp_all add: reader_open_def packed_ar_entries plain_entries_def [symmetric] packed_reader_def)
    (simp_all add: plain_entries_def hostile_entries_def validate_layout_ok [THEN iffD2] sample_manifest_valid)


lemma sample_version: "sem_ver_display (SemVer 1 0 0) = ''1.0.0''"
  by code_simp

lemma sample_info: "pm_package (pr_manifest (packed_reader es)) =
  \<lparr>pi_name = ''app'', pi_version = SemVer 1 0 0, pi_module_type = FlowModule, pi_api_version = ApiVersion 1 0,
   pi_author = [], pi_description = []\<rparr>"
  by (simp add: packed_reader_def sample_manifest_def)

lemma sample_platforms: "pt_supported (pm_platforms (pr_manifest (packed_reader es))) = []"
  by (simp add: packed_reader_def sample_manifest_def)

lemma sample_loader_fields [simp]:
  "lo_archive sample_loader = ref_archive" "lo_parse sample_loader = sample_parse"
  "lo_keys sample_loader = ref_ed25519" "lo_semver sample_loader = core_semver"
  "so_show core_semver = sem_ver_display"
  by (simp_all add: sample_loader_def core_semver_def)

lemmas path_defs = path_key_def path_is_absolute_def path_has_parent_dir_def plain_absolute_def tame_def

text \<open>A file of the user next to the installation root survives an installation.\<close>

theorem install_contained_witness:
  "\<exists>r ix' s'. install_package ref_fs sample_loader (packed plain_entries) ''/home/u/.nyarix'' Map.empty
      [[''home'', ''u'', ''notes''] \<mapsto> [7]] = Ret (r, ix', s') \<and>
     s' [''home'', ''u'', ''notes''] = Some [7]"
proof -
  let ?s = "[[''home'', ''u'', ''notes''] \<mapsto> [7 :: u8]]"
  obtain r ix' s' where run: "install_package ref_fs sample_loader (packed plain_entries) ''/home/u/.nyarix''
      Map.empty ?s = Ret (r, ix', s')"
    using install_package_returns [of ref_fs sample_loader "packed plain_entries" "''/home/u/.nyarix''" Map.empty ?s]
    by auto
  have "\<forall>es. reader_entries ref_archive (packed_reader plain_entries) = Inr es \<longrightarrow>
      (\<forall>e \<in> set es. harmless (fst e))"
    by (simp add: packed_entries plain_entries_def harmless_def path_is_absolute_def)
  moreover have "plain_absolute ''/home/u/.nyarix''" "tame ''app''" "tame ''1.0.0''"
    by (simp_all add: path_defs)
  ultimately have "(\<forall>q. \<not> under (path_key ''/home/u/.nyarix'' @ path_key ''app'' @ path_key ''1.0.0'') q \<longrightarrow> s' q = ?s q)"
    using install_contained [OF ref_fs_store run, of "packed_reader plain_entries"] sample_opens(1)
    by (simp add: sample_info sample_version)
  then have "s' [''home'', ''u'', ''notes''] = Some [7]"
    by (simp add: path_defs under_def)
  with run show ?thesis by blast
qed

lemma ref_fs_ok: "fs_create_dir_all ref_fs p s = (Inr (), s)" "fs_write ref_fs p bs s = (Inr (), s(path_key p \<mapsto> bs))"
  by (simp_all add: ref_fs_def)

lemma install_completes:
  assumes "reader_open (lo_archive L) (lo_parse L) data = Ret (Inr reader)"
    and "reader_entries (lo_archive L) reader = Inr es"
    and "\<And>d t. fst (unpack_payload ref_fs d es t) = Inr ()"
  shows "\<exists>outcome ix' s'. install_package ref_fs L data root ix s = Ret (Inr outcome, ix', s')"
proof -
  let ?dir = "path_join (path_join root (pi_name (pm_package (pr_manifest reader))))
    (so_show (lo_semver L) (pi_version (pm_package (pr_manifest reader))))"
  let ?d = "\<lparr>dp_path = path_join ?dir ''package.nyp'', dp_name = pi_name (pm_package (pr_manifest reader)),
    dp_version = pi_version (pm_package (pr_manifest reader))\<rparr>"
  let ?s2 = "s(path_key (path_join ?dir ''package.nyp'') \<mapsto> data)"
  obtain s3 where s3: "unpack_payload ref_fs (path_join ?dir ''payload'') es ?s2 = (Inr (), s3)"
    using assms(3) [of "path_join ?dir ''payload''" ?s2] by (metis prod.collapse)
  obtain dup ix' where dup: "index_insert ?d ix = (dup, ix')"
    by fastforce
  show ?thesis
    by (cases dup) (simp_all add: install_package_def assms(1,2) Let_def ref_fs_ok s3 dup)
qed

text \<open>An archive of two members replaces \<open>/etc/passwd\<close>.\<close>

theorem install_escapes_witness:
  "\<exists>outcome ix' s'. install_package ref_fs sample_loader (packed hostile_entries) ''/home/u/.nyarix'' Map.empty
      [[''etc'', ''passwd''] \<mapsto> [7]] = Ret (Inr outcome, ix', s') \<and>
     s' [''etc'', ''passwd''] = Some [9]"
proof -
  let ?s = "[[''etc'', ''passwd''] \<mapsto> [7 :: u8]]"
  have ok: "fst (write_payload ref_fs d p c s) = Inr ()" for d p c s
    by (simp add: write_payload_def ref_fs_def Let_def split: option.split)
  have unpacked: "fst (unpack_payload ref_fs d hostile_entries s) = Inr ()" for d s
    using ok [of d "''/etc/passwd''" "[9]" s]
    by (cases "write_payload ref_fs d ''/etc/passwd'' [9] s")
      (simp add: hostile_entries_def strip_prefix_def path_has_parent_dir_def path_key_def)
  have "\<exists>outcome ix' s'. install_package ref_fs sample_loader (packed hostile_entries)
      ''/home/u/.nyarix'' Map.empty ?s = Ret (Inr outcome, ix', s')"
    by (rule install_completes [of _ _ "packed_reader hostile_entries" hostile_entries])
      (simp_all add: sample_opens packed_entries unpacked)
  then obtain outcome ix' s' where run: "install_package ref_fs sample_loader (packed hostile_entries)
      ''/home/u/.nyarix'' Map.empty ?s = Ret (Inr outcome, ix', s')"
    by blast
  have "s' (path_key ''/etc/passwd'') = Some [9]"
  proof (rule install_escapes [OF ref_fs_store run])
    show "reader_open (lo_archive sample_loader) (lo_parse sample_loader) (packed hostile_entries) =
        Ret (Inr (packed_reader hostile_entries))"
      by (simp add: sample_opens)
    show "reader_entries (lo_archive sample_loader) (packed_reader hostile_entries) =
        Inr ([(''manifest.toml'', [1])] @ [(''payload/'' @ ''/etc/passwd'', [9])])"
      by (simp add: packed_entries) (simp add: hostile_entries_def)
    show "plain_absolute ''/etc/passwd''"
      by (simp add: path_defs)
  qed
  with run show ?thesis
    by (auto simp: path_key_def)
qed


subsection \<open>Rollback\<close>

definition sample_history :: "(sem_ver, nat) rollback_history" where
  "sample_history = \<lparr>rh_path = ''/p/history.json'',
     rh_entries = [\<lparr>he_name = ''app'', he_version = SemVer 1 0 0, he_kind = HistoryInstalled, he_at = 1\<rparr>,
                   \<lparr>he_name = ''app'', he_version = SemVer 1 2 0, he_kind = HistoryInstalled, he_at = 2\<rparr>]\<rparr>"

lemma sample_history_versions:
  "active_version sample_history ''app'' = Some (SemVer 1 2 0)"
  "previous_version sample_history ''app'' = Some (SemVer 1 0 0)"
  by (simp_all add: active_version_def previous_version_def sample_history_def)

lemma sample_validates:
  "\<exists>report. validate_package sample_loader [] (packed plain_entries) [] Map.empty trust_store_new (ApiVersion 1 0) =
     Ret (Inr report) \<and> report_is_valid report"
proof -
  let ?reader = "packed_reader plain_entries"
  have "Package_Archive.signature_status ref_archive ref_ed25519 ?reader = Inr Unsigned"
    by (simp add: Package_Archive.signature_status_def packed_entries)
      (simp add: plain_entries_def entry_at_def SIGNATURE_MEMBER_PATH_def PUBLIC_KEY_MEMBER_PATH_def)
  moreover have "\<exists>level. classify ref_archive ref_ed25519 ?reader trust_store_new = Inr level"
    using calculation by (simp add: classify_def)
  moreover have "detect_conflicts core_semver [] [pr_manifest ?reader] Map.empty (ApiVersion 1 0) = []"
    by (simp add: detect_conflicts_def sample_info is_compatible_def resolve_versions_def)
  ultimately show ?thesis
    by (auto simp: validate_package_def sample_opens report_is_valid_def sample_platforms Let_def)
qed


definition installed_files :: ref_files where
  "installed_files = [[''p'', ''app'', ''1.0.0'', ''package.nyp''] \<mapsto> packed plain_entries]"

theorem rollback_alternates_witness:
  "\<exists>h. rollback_package ref_fs sample_loader [] 3 ''app'' ''/p'' sample_history trust_store_new Map.empty
      (ApiVersion 1 0) installed_files = Ret (Inr (SemVer 1 0 0) :: (_, _, string) rollback_error + _, h) \<and>
     active_version h ''app'' = Some (SemVer 1 0 0) \<and> previous_version h ''app'' = Some (SemVer 1 2 0)"
proof -
  let ?path = "path_join (path_join (path_join ''/p'' ''app'') ''1.0.0'') ''package.nyp''"
  have "path_key ?path = [''p'', ''app'', ''1.0.0'', ''package.nyp'']"
    by (simp add: path_join_def path_defs)
  then have "fs_read ref_fs ?path installed_files = Inr (packed plain_entries)"
    by (simp add: ref_fs_def installed_files_def)
  then have run: "rollback_package ref_fs sample_loader [] 3 ''app'' ''/p'' sample_history trust_store_new Map.empty
      (ApiVersion 1 0) installed_files =
      Ret (Inr (SemVer 1 0 0) :: (_, _, string) rollback_error + _, record_rollback ''app'' (SemVer 1 0 0) 3 sample_history)"
    using sample_validates sample_history_versions
    by (auto simp: rollback_package_def Let_def sample_version)
  let ?h = "record_rollback ''app'' (SemVer 1 0 0) 3 sample_history"
  note res = rollback_alternates [OF run, unfolded sum.case]
  have "active_version ?h ''app'' = Some (SemVer 1 0 0) \<and>
      previous_version ?h ''app'' = active_version sample_history ''app''"
    using res [THEN conjunct2, THEN conjunct1] res [THEN conjunct2, THEN conjunct2, THEN conjunct1] by blast
  with run sample_history_versions show ?thesis
    by (intro exI [of _ ?h]) (simp only: simp_thms)
qed

definition text_json :: "(('v, 't) history_entry, string) json_ops" where
  "text_json = \<lparr>js_read = (\<lambda>text. if text = ''[]'' then Inr [] else Inl ''expected value''),
     js_print = (\<lambda>es. if es = [] then Inr ''[]'' else Inl ''unsupported'')\<rparr>"

definition empty_history :: "(sem_ver, nat) rollback_history" where
  "empty_history = \<lparr>rh_path = ''/p/history.json'', rh_entries = []\<rparr>"

type_synonym sample_error = "(sem_ver, sem_ver, string) rollback_error"

theorem history_roundtrip_witness:
  "\<exists>s. history_save ref_fs text_json empty_history Map.empty = (Inr () :: sample_error + unit, s) \<and>
     history_open ref_fs text_json ''/p'' s = (Inr empty_history :: sample_error + _)"
proof -
  define s where "s = [path_key ''/p/history.json'' \<mapsto> string_bytes ''[]'']"
  have "path_parent ''/p/history.json'' = Some ''/p''"
    by (simp add: path_parent_def path_defs slash_join_def)
  then have saved: "history_save ref_fs text_json empty_history Map.empty = (Inr () :: sample_error + unit, s)"
    by (simp add: history_save_def empty_history_def ref_fs_ok text_json_def s_def)
  have "empty_history = \<lparr>rh_path = history_file_path ''/p'', rh_entries = []\<rparr>"
    by (simp add: empty_history_def history_file_path_def path_join_def path_is_absolute_def)
  moreover have "\<forall>text. fs_utf8 ref_fs (string_bytes text) = Inr text"
    using bytes_string_bytes by (simp add: ref_fs_def bytes_string_def)
  ultimately have "history_open ref_fs text_json ''/p'' s = (Inr empty_history :: sample_error + _)"
    by (intro history_roundtrip [OF ref_fs_store _ _ _ _ _ saved, of "''/p''" "[]" "''[]''"])
      (simp_all add: path_defs text_json_def)
  with saved show ?thesis by blast
qed

subsection \<open>The cache\<close>

definition cached :: "string \<Rightarrow> nat \<Rightarrow> u64 \<Rightarrow> (sem_ver, nat) cache_entry" where
  "cached name t n = \<lparr>ce_name = name, ce_version = SemVer 1 0 0, ce_path = ''/c/'' @ name @ ''/package.nyp'',
     ce_installed_at = t, ce_size_bytes = n\<rparr>"

definition sample_cache :: "(sem_ver, nat) package_cache" where
  "sample_cache = \<lparr>pc_root = ''/c'', pc_entries = [cached ''new'' 9 30, cached ''old'' 2 40]\<rparr>"

theorem evict_to_fit_witness:
  "\<exists>evicted c s'. evict_to_fit ref_fs 50 sample_cache [[''c'', ''new'', ''package.nyp''] \<mapsto> [1]] = (evicted, c, s') \<and>
     evicted @ pc_entries c = [cached ''old'' 2 40, cached ''new'' 9 30] \<and> exact_size (pc_entries c) \<le> 50"
proof -
  obtain evicted c s' where run:
    "evict_to_fit ref_fs 50 sample_cache [[''c'', ''new'', ''package.nyp''] \<mapsto> [1]] = (evicted, c, s')"
    using prod_cases3 by blast
  have parents: "path_parent ''/c/new/package.nyp'' = Some ''/c/new''"
      "path_parent ''/c/old/package.nyp'' = Some ''/c/old''"
    by (simp_all add: path_parent_def path_defs slash_join_def)
  have "sort_key ce_installed_at (pc_entries sample_cache) = [cached ''old'' 2 40, cached ''new'' 9 30]"
    by (simp add: sample_cache_def cached_def)
  moreover have "exact_size (pc_entries sample_cache) < 2 ^ 64"
    by (simp add: sample_cache_def cached_def exact_size_def)
  moreover have "\<forall>e \<in> set (pc_entries sample_cache). \<forall>d. path_parent (ce_path e) = Some d \<longrightarrow> plain_absolute d"
    by (simp add: sample_cache_def cached_def parents) (simp add: path_defs)
  ultimately show ?thesis
    using evict_to_fit_oldest [OF ref_fs_store run] run by auto
qed

end
