(* ===== verification/Loading_Samples.thy ===== *)
theory Loading_Samples
  imports Module_Loading Install_Samples
begin

text \<open>Loading modules from one directory with one package file.\<close>

definition module_files :: "string list \<rightharpoonup> bytes" where
  "module_files = [[''m'', ''app.nyp''] \<mapsto> packed plain_entries]"

definition sample_scan :: "sem_ver scan_report" where
  "sample_scan = \<lparr>sr_index = [''app'' \<mapsto> [\<lparr>dp_path = ''/m/app.nyp'', dp_name = ''app'', dp_version = SemVer 1 0 0\<rparr>]],
     sr_errors = [], sr_duplicates = []\<rparr>"

lemma sample_scanned:
  "scan_directories (discover_total ref_fs sample_loader module_files) [None, Some [''/m/app.nyp'', ''/m/notes'']] =
   sample_scan"
proof -
  have "fs_read ref_fs ''/m/app.nyp'' module_files = Inr (packed plain_entries)"
    by (simp add: ref_fs_def module_files_def path_key_def)
  then have "discover_total ref_fs sample_loader module_files ''/m/app.nyp'' =
      Inr \<lparr>dp_path = ''/m/app.nyp'', dp_name = ''app'', dp_version = SemVer 1 0 0\<rparr>"
    by (simp add: discover_total_def discover_one_def sample_opens sample_info outcome_simps Let_def)
  moreover have "extension ''/m/app.nyp'' = Some ''nyp''" "extension ''/m/notes'' = None"
    by code_simp+
  ultimately show ?thesis
    by (simp add: scan_directories_def scan_file_def scan_report_default_def sample_scan_def index_insert_def
        index_get_def Let_def)
qed

theorem load_modules_witness:
  "\<exists>report. load_modules ref_fs sample_loader (\<lambda>_. []) [''app''] [None, Some [''/m/app.nyp'', ''/m/notes'']]
      trust_store_new (ApiVersion 1 0) module_files module_files = Ret report \<and>
    length (ml_valid report) + length (ml_invalid report) + length (ml_errors report) = 1"
proof -
  have "extension ''/m/app.nyp'' = Some ''nyp''" "extension ''/m/notes'' = None"
    by code_simp+
  then have nyp: "nyp_files [None, Some [''/m/app.nyp'', ''/m/notes'']] = [''/m/app.nyp'']"
    by (simp add: nyp_files_def)
  have scan: "is_order [''app''] (sr_index sample_scan)" "sr_duplicates sample_scan = []"
    by (simp_all add: sample_scan_def is_order_def)
  obtain report where
    "load_modules ref_fs sample_loader (\<lambda>_. []) [''app''] [None, Some [''/m/app.nyp'', ''/m/notes'']]
      trust_store_new (ApiVersion 1 0) module_files module_files = Ret report"
    "mset (map lp_path (ml_valid report)) + mset (map rj_path (ml_invalid report)) +
      mset (map sc_path (ml_errors report)) + mset (map dm_duplicate_path (sr_duplicates sample_scan)) =
      mset (nyp_files [None, Some [''/m/app.nyp'', ''/m/notes'']])"
    using load_modules_sorts [OF sample_scanned [symmetric] scan(1), of "\<lambda>_. []" trust_store_new "ApiVersion 1 0" module_files]
    by (elim exE conjE)
  then have "load_modules ref_fs sample_loader (\<lambda>_. []) [''app''] [None, Some [''/m/app.nyp'', ''/m/notes'']]
      trust_store_new (ApiVersion 1 0) module_files module_files = Ret report"
    "mset (map lp_path (ml_valid report)) + mset (map rj_path (ml_invalid report)) +
      mset (map sc_path (ml_errors report)) = {#''/m/app.nyp''#}"
    by (simp_all only: scan(2) nyp list.map mset.simps add_0_right)
  from this(1) arg_cong [OF this(2), of size] show ?thesis
    by simp
qed

end
