(* ===== verification/Configuration.thy ===== *)
theory Configuration
  imports File_System
begin

text \<open>
  The configuration of a runtime (\<open>crates/nyarix-config/src/lib.rs\<close>). What the TOML parser finds
  for a structure is a record whose fields may be missing; deserialization fills them in as the
  \<open>serde\<close> attributes say. A free-form TOML value is of type \<open>'toml\<close>.
\<close>

datatype runtime_mode = ClientMode | ServerMode | RelayMode | GatewayMode | BridgeMode | DiagnosticMode

definition runtime_mode_default :: runtime_mode where
  "runtime_mode_default = ClientMode"

datatype log_level = TraceLevel | DebugLevel | InfoLevel | WarnLevel | ErrorLevel

definition log_level_default :: log_level where
  "log_level_default = InfoLevel"

definition default_profile :: string where "default_profile = []"
definition default_max_flows :: usize where "default_max_flows = 1024"
definition default_queue_depth :: usize where "default_queue_depth = 256"
definition default_pool_size :: usize where "default_pool_size = 4096"
definition default_tun_name :: string where "default_tun_name = []"
definition default_mtu :: u16 where "default_mtu = 1500"
definition default_io_threads :: usize where "default_io_threads = 2"
definition default_cpu_threads :: usize where "default_cpu_threads = 4"
definition default_max_background :: usize where "default_max_background = 16"

record scheduler_config =
  sc_io_threads :: usize
  sc_cpu_threads :: usize
  sc_max_background_tasks :: usize

definition scheduler_config_default :: scheduler_config where
  "scheduler_config_default = \<lparr>sc_io_threads = default_io_threads, sc_cpu_threads = default_cpu_threads,
     sc_max_background_tasks = default_max_background\<rparr>"

record device_config =
  dv_name :: string
  dv_tun_name :: string
  dv_mtu :: u16
  dv_battery_aware :: bool

definition device_config_default :: device_config where
  "device_config_default = \<lparr>dv_name = [], dv_tun_name = default_tun_name, dv_mtu = default_mtu,
     dv_battery_aware = False\<rparr>"

record global_defaults =
  gd_log_level :: log_level
  gd_max_flows :: usize
  gd_queue_depth :: usize
  gd_pool_size :: usize
  gd_scheduler :: scheduler_config

text \<open>The derived \<open>Default\<close>: every field has the default of its type.\<close>

definition global_defaults_default :: global_defaults where
  "global_defaults_default = \<lparr>gd_log_level = log_level_default, gd_max_flows = 0, gd_queue_depth = 0,
     gd_pool_size = 0, gd_scheduler = scheduler_config_default\<rparr>"

record 'toml profile_config =
  pf_name :: string
  pf_description :: string
  pf_stack :: "string list"
  pf_policy :: "string \<rightharpoonup> 'toml"

record 'toml runtime_config =
  rc_mode :: runtime_mode
  rc_profile :: string
  rc_profiles :: "'toml profile_config list"
  rc_defaults :: global_defaults
  rc_device :: "device_config option"
  rc_modules :: "string \<rightharpoonup> 'toml"

subsection \<open>Deserialization\<close>

record raw_scheduler =
  rs_io_threads :: "usize option"
  rs_cpu_threads :: "usize option"
  rs_max_background_tasks :: "usize option"

record raw_defaults =
  rd_log_level :: "log_level option"
  rd_max_flows :: "usize option"
  rd_queue_depth :: "usize option"
  rd_pool_size :: "usize option"
  rd_scheduler :: "raw_scheduler option"

record raw_device =
  rv_name :: "string option"
  rv_tun_name :: "string option"
  rv_mtu :: "u16 option"
  rv_battery_aware :: "bool option"

record 'toml raw_profile =
  rp_name :: string
  rp_description :: "string option"
  rp_stack :: "string list option"
  rp_policy :: "(string \<rightharpoonup> 'toml) option"

record 'toml raw_config =
  rr_mode :: "runtime_mode option"
  rr_profile :: "string option"
  rr_profiles :: "'toml raw_profile list option"
  rr_defaults :: "raw_defaults option"
  rr_device :: "raw_device option"
  rr_modules :: "(string \<rightharpoonup> 'toml) option"

definition or_default :: "'a \<Rightarrow> 'a option \<Rightarrow> 'a" where
  "or_default d o' = (case o' of None \<Rightarrow> d | Some x \<Rightarrow> x)"

definition deserialize_scheduler :: "raw_scheduler \<Rightarrow> scheduler_config" where
  "deserialize_scheduler r = \<lparr>
     sc_io_threads = or_default default_io_threads (rs_io_threads r),
     sc_cpu_threads = or_default default_cpu_threads (rs_cpu_threads r),
     sc_max_background_tasks = or_default default_max_background (rs_max_background_tasks r)\<rparr>"

definition deserialize_defaults :: "raw_defaults \<Rightarrow> global_defaults" where
  "deserialize_defaults r = \<lparr>
     gd_log_level = or_default log_level_default (rd_log_level r),
     gd_max_flows = or_default default_max_flows (rd_max_flows r),
     gd_queue_depth = or_default default_queue_depth (rd_queue_depth r),
     gd_pool_size = or_default default_pool_size (rd_pool_size r),
     gd_scheduler = or_default scheduler_config_default (map_option deserialize_scheduler (rd_scheduler r))\<rparr>"

definition deserialize_device :: "raw_device \<Rightarrow> device_config" where
  "deserialize_device r = \<lparr>
     dv_name = or_default [] (rv_name r),
     dv_tun_name = or_default default_tun_name (rv_tun_name r),
     dv_mtu = or_default default_mtu (rv_mtu r),
     dv_battery_aware = or_default False (rv_battery_aware r)\<rparr>"

definition deserialize_profile :: "'toml raw_profile \<Rightarrow> 'toml profile_config" where
  "deserialize_profile r = \<lparr>pf_name = rp_name r, pf_description = or_default [] (rp_description r),
     pf_stack = or_default [] (rp_stack r), pf_policy = or_default Map.empty (rp_policy r)\<rparr>"

definition deserialize_config :: "'toml raw_config \<Rightarrow> 'toml runtime_config" where
  "deserialize_config r = \<lparr>
     rc_mode = or_default runtime_mode_default (rr_mode r),
     rc_profile = or_default default_profile (rr_profile r),
     rc_profiles = or_default [] (map_option (map deserialize_profile) (rr_profiles r)),
     rc_defaults = or_default global_defaults_default (map_option deserialize_defaults (rr_defaults r)),
     rc_device = map_option deserialize_device (rr_device r),
     rc_modules = or_default Map.empty (rr_modules r)\<rparr>"

definition config_from_toml :: "(string \<Rightarrow> 'e + 'toml raw_config) \<Rightarrow> string \<Rightarrow> 'e + 'toml runtime_config" where
  "config_from_toml parse text =
     (case parse text of Inl e \<Rightarrow> Inl e | Inr raw \<Rightarrow> Inr (deserialize_config raw))"

definition config_from_file ::
    "'fs fs_ops \<Rightarrow> (string \<Rightarrow> 'e + 'toml raw_config) \<Rightarrow> string \<Rightarrow> 'fs \<Rightarrow>
     (io_error + 'e) + 'toml runtime_config" where
  "config_from_file F parse path s =
     (case fs_read_to_string F path s of
        Inl e \<Rightarrow> Inl (Inl e)
      | Inr content \<Rightarrow>
          (case config_from_toml parse content of Inl e \<Rightarrow> Inl (Inr e) | Inr c \<Rightarrow> Inr c))"

definition find_profile :: "string \<Rightarrow> 'toml runtime_config \<Rightarrow> 'toml profile_config option" where
  "find_profile name c = find (\<lambda>p. pf_name p = name) (rc_profiles c)"

subsection \<open>Missing tables\<close>

text \<open>The limits a configuration ends up with, in the order of the structure.\<close>

definition limits_of :: "'toml runtime_config \<Rightarrow> usize list" where
  "limits_of c = [gd_max_flows (rc_defaults c), gd_queue_depth (rc_defaults c), gd_pool_size (rc_defaults c)]"

definition empty_defaults :: raw_defaults where
  "empty_defaults = \<lparr>rd_log_level = None, rd_max_flows = None, rd_queue_depth = None, rd_pool_size = None,
     rd_scheduler = None\<rparr>"

text \<open>
  Leaving the \<open>[defaults]\<close> table out of a configuration is not the same as leaving it empty:
  without the table, no flow may run and queues and the packet pool have size zero; with an
  empty one, the documented defaults apply. Everything else that is missing gets the default it
  has in either case.
\<close>

theorem missing_defaults_table:
  fixes raw :: "'toml raw_config"
  shows "limits_of (deserialize_config (raw\<lparr>rr_defaults := None\<rparr>)) = [0, 0, 0] \<and>
    limits_of (deserialize_config (raw\<lparr>rr_defaults := Some empty_defaults\<rparr>)) = [1024, 256, 4096] \<and>
    (deserialize_config (raw\<lparr>rr_defaults := None\<rparr>))\<lparr>rc_defaults := rc_defaults (deserialize_config raw)\<rparr> =
      deserialize_config raw \<and>
    gd_scheduler (rc_defaults (deserialize_config (raw\<lparr>rr_defaults := None\<rparr>))) =
      gd_scheduler (rc_defaults (deserialize_config (raw\<lparr>rr_defaults := Some empty_defaults\<rparr>)))"
  by (simp add: deserialize_config_def deserialize_defaults_def global_defaults_default_def or_default_def
      limits_of_def empty_defaults_def default_max_flows_def default_queue_depth_def default_pool_size_def)

lemma find_profile_name: "find_profile name c = Some p \<Longrightarrow> pf_name p = name \<and> p \<in> set (rc_profiles c)"
  by (auto simp: find_profile_def find_Some_iff)

end
