(* ===== verification/Graph_Builder.thy ===== *)
theory Graph_Builder
  imports Graph_Validate Configuration
begin

text \<open>
  Building a graph from a profile (\<open>crates/nyarix-runtime/src/graph_builder.rs\<close>). The identifiers
  drawn for the nodes are an argument, and so is the state of the callback that finds a module.
\<close>

datatype build_error = UnknownModule string | BuildGraph graph_error

fun build_nodes ::
    "('v, 'm, 'ctx, 'c, 'f) ext \<Rightarrow> (string \<Rightarrow> 's \<Rightarrow> 'm arc option \<times> 's) \<Rightarrow> 'cfg \<Rightarrow> (nat \<Rightarrow> node_id) \<Rightarrow> nat \<Rightarrow>
     string list \<Rightarrow> ('m, 'c, 'cfg) flow_graph \<Rightarrow> 's \<Rightarrow> node_id list \<Rightarrow>
     ((build_error + node_id list) \<times> ('m, 'c, 'cfg) flow_graph \<times> 's) outcome" where
  "build_nodes X find_module cfg fresh k [] g s node_ids = Ret (Inr node_ids, g, s)"
| "build_nodes X find_module cfg fresh k (name # names) g s node_ids =
     (case find_module name s of
        (None, s') \<Rightarrow> Ret (Inl (UnknownModule name), g, s')
      | (Some module, s') \<Rightarrow>
          obind (graph_node_new X (fresh k) module (node_config_default cfg)) (\<lambda>node.
            build_nodes X find_module cfg fresh (Suc k) names (fg_add_node node g) s' (node_ids @ [gn_id node])))"

fun connect_chain ::
    "('v, 'm, 'ctx, 'c, 'f) ext \<Rightarrow> node_id list \<Rightarrow> ('m, 'c, 'cfg) flow_graph \<Rightarrow>
     ((graph_error + unit) \<times> ('m, 'c, 'cfg) flow_graph) outcome" where
  "connect_chain X (a # b # rest) g =
     obind (edge_new_unread (x_mpsc X) a b Sequential None DEFAULT_QUEUE_CAPACITY) (\<lambda>edge.
       case fg_connect X edge g of
         (Inl e, g') \<Rightarrow> Ret (Inl e, g')
       | (Inr _, g') \<Rightarrow> connect_chain X (b # rest) g')"
| "connect_chain X [a] g = Ret (Inr (), g)"
| "connect_chain X [] g = Ret (Inr (), g)"

definition build_from_profile ::
    "('v, 'm, 'ctx, 'c, 'f) ext \<Rightarrow> (string \<Rightarrow> 's \<Rightarrow> 'm arc option \<times> 's) \<Rightarrow> 'cfg \<Rightarrow> (nat \<Rightarrow> node_id) \<Rightarrow>
     node_id list \<Rightarrow> 'toml profile_config \<Rightarrow> 's \<Rightarrow> ((build_error + ('m, 'c, 'cfg) flow_graph) \<times> 's) outcome" where
  "build_from_profile X find_module cfg fresh ks profile s =
     obind (build_nodes X find_module cfg fresh 0 (pf_stack profile) fg_new s []) (\<lambda>(r, g, s').
       case r of
         Inl e \<Rightarrow> Ret (Inl e, s')
       | Inr node_ids \<Rightarrow>
           obind (connect_chain X node_ids g) (\<lambda>(r, g).
             case r of
               Inl e \<Rightarrow> Ret (Inl (BuildGraph e), s')
             | Inr _ \<Rightarrow>
                 (let g = (case node_ids of [] \<Rightarrow> g | first # _ \<Rightarrow> fg_mark_entry_point first g);
                      g = (if node_ids = [] then g else fg_mark_exit_point (last node_ids) g)
                  in obind (fg_validate X ks g) (\<lambda>v.
                       Ret (case v of Inl e \<Rightarrow> Inl (BuildGraph e) | Inr _ \<Rightarrow> Inr g, s')))))"

subsection \<open>Chains\<close>

lemma topo_chain:
  "distinct ids \<Longrightarrow> (\<And>u v. u \<in> set ids \<Longrightarrow> v \<in> set (s u) \<Longrightarrow> (u, v) \<in> set (zip ids (tl ids))) \<Longrightarrow> topo s (rev ids)"
proof (induction ids)
  case (Cons a ids)
  have "(u, v) \<in> set (zip ids (tl ids))" if "u \<in> set ids" "v \<in> set (s u)" for u v
    using Cons.prems(2) [of u v] that Cons.prems(1) by (cases ids) auto
  then have "topo s (rev ids)"
    using Cons by simp
  moreover have "set (s a) \<subseteq> set ids"
    using Cons.prems(2) [of a] by (auto dest: set_zip_rightD)
  ultimately show ?case
    by (simp add: topo_snoc)
qed simp

lemma chain_reaches:
  "(\<And>u v. (u, v) \<in> set (zip ids (tl ids)) \<Longrightarrow> v \<in> set (s u)) \<Longrightarrow> u \<in> set ids \<Longrightarrow> reaches s u (last ids)"
proof (induction ids arbitrary: u)
  case (Cons a ids)
  show ?case
  proof (cases ids)
    case Nil
    with Cons.prems show ?thesis by simp
  next
    case (Cons b rest)
    have IH: "reaches s v (last ids)" if "v \<in> set ids" for v
      using Cons.IH [OF _ that] Cons.prems(1) local.Cons by auto
    have "reaches s a b"
      using Cons.prems(1) [of a b] local.Cons reaches_step [OF reaches_refl, of b s a] by simp
    then have "reaches s a (last ids)"
      using IH [of b] local.Cons reaches_trans by fastforce
    with IH Cons.prems(2) local.Cons show ?thesis by auto
  qed
qed simp

text \<open>What a chain of edges is, by what an edge says of its ends.\<close>

definition edge_sig :: "'c edge \<Rightarrow> node_id \<times> node_id \<times> edge_type \<times> condition option" where
  "edge_sig e = (ed_from e, ed_to e, ed_type e, ed_condition e)"

definition chain_sigs :: "node_id list \<Rightarrow> (node_id \<times> node_id \<times> edge_type \<times> condition option) list" where
  "chain_sigs ids = map (\<lambda>(a, b). (a, b, Sequential, None)) (zip ids (tl ids))"

lemma default_capacity_ok: "0 < DEFAULT_QUEUE_CAPACITY" "DEFAULT_QUEUE_CAPACITY \<le> max_permits"
  by (simp_all add: DEFAULT_QUEUE_CAPACITY_def max_permits_def)

lemma connect_chain_ok:
  assumes "packet_channels (x_mpsc X) queued bound rx_open tx_open"
    and "wf_graph g" "set ids \<subseteq> dom (fg_nodes g)"
  shows "\<exists>g'. connect_chain X ids g = Ret (Inr (), g') \<and> wf_graph g' \<and> fg_nodes g' = fg_nodes g \<and>
      fg_entry_points g' = fg_entry_points g \<and> fg_exit_points g' = fg_exit_points g \<and>
      fg_allowed_feedback g' = fg_allowed_feedback g \<and>
      map edge_sig (fg_edges g') = map edge_sig (fg_edges g) @ chain_sigs ids"
  using assms
proof (induction X ids g rule: connect_chain.induct)
  case (1 X a b rest g)
  note chans = "1.prems"(1)
  obtain e where e: "edge_new_unread (x_mpsc X) a b Sequential None DEFAULT_QUEUE_CAPACITY = Ret e"
    using packet_channels.edge_new_unread_ok [OF chans default_capacity_ok] by blast
  from edge_new_unread_fields [OF e] have sig: "edge_sig e = (a, b, Sequential, None)" "ed_from e = a" "ed_to e = b"
    by (simp_all add: edge_sig_def)
  let ?g = "set_edges (ed_from e) (fg_edges g @ [e]) g"
  have c: "fg_connect X e g = (Inr (), ?g)"
    using fg_connect_ok [OF "1.prems"(2), of e X] sig "1.prems"(3) by simp
  have "wf_graph ?g"
    using fg_connect_wf [OF "1.prems"(2), of X e] c by simp
  with "1.IH" [OF e c [symmetric] refl chans] "1.prems"(3) obtain g' where
    "connect_chain X (b # rest) ?g = Ret (Inr (), g')" "wf_graph g'" "fg_nodes g' = fg_nodes g"
    "fg_entry_points g' = fg_entry_points g" "fg_exit_points g' = fg_exit_points g"
    "fg_allowed_feedback g' = fg_allowed_feedback g"
    "map edge_sig (fg_edges g') = map edge_sig (fg_edges g @ [e]) @ chain_sigs (b # rest)"
    by auto
  then show ?case
    using e c sig by (auto simp: chain_sigs_def outcome_simps)
qed (simp_all add: chain_sigs_def)

lemma hits: "{j. j < Suc n \<and> Q j} = (if Q 0 then {0} else {}) \<union> Suc ` {j. j < n \<and> Q (Suc j)}"
  by (auto simp: less_Suc_eq_0_disj)

lemma fg_new_dom: "dom (fg_nodes fg_new) = f ` {..<0::nat}"
  by (simp add: fg_new_def)

lemma build_nodes_ok:
  assumes "packet_channels (x_mpsc X) queued bound rx_open tx_open"
    and found: "\<And>name s. name \<in> set stack \<Longrightarrow> fst (find_module name s) = Some (mods name)"
  shows "set names \<subseteq> set stack \<Longrightarrow> wf_graph g \<Longrightarrow> inj_on fresh {..<k + length names} \<Longrightarrow> dom (fg_nodes g) = fresh ` {..<k} \<Longrightarrow>
    \<exists>g' s'. build_nodes X find_module cfg fresh k names g s acc =
        Ret (Inr (acc @ map fresh [k..<k + length names]), g', s') \<and>
      wf_graph g' \<and> dom (fg_nodes g') = fresh ` {..<k + length names} \<and>
      fg_edges g' = fg_edges g \<and> fg_allowed_feedback g' = fg_allowed_feedback g \<and>
      (\<forall>i < k. fg_nodes g' (fresh i) = fg_nodes g (fresh i)) \<and>
      (\<forall>j < length names. \<exists>node. fg_nodes g' (fresh (k + j)) = Some node \<and> gn_module node = mods (names ! j) \<and>
         node_queue_new (x_mpsc X) DEFAULT_QUEUE_CAPACITY = Ret (gn_queue node)) \<and>
      set (fg_entry_points g') = set (fg_entry_points g) \<union>
        (\<lambda>j. fresh (k + j)) ` {j. j < length names \<and> op_node_type (x_node X) (arc_value (mods (names ! j))) = Source} \<and>
      set (fg_exit_points g') = set (fg_exit_points g) \<union>
        (\<lambda>j. fresh (k + j)) ` {j. j < length names \<and> op_node_type (x_node X) (arc_value (mods (names ! j))) = Sink}"
proof (induction names arbitrary: k g s acc)
  case Nil
  then show ?case by auto
next
  case (Cons name names)
  obtain s1 where s1: "find_module name s = (Some (mods name), s1)"
    using found [of name s] Cons.prems(1) by (metis list.set_intros(1) prod.collapse subsetD)
  obtain q where q: "node_queue_new (x_mpsc X) DEFAULT_QUEUE_CAPACITY = Ret q"
    using packet_channels.node_queue_new_ok [OF assms(1) default_capacity_ok] by blast
  define node where "node = \<lparr>gn_id = fresh k, gn_node_type = op_node_type (x_node X) (arc_value (mods name)),
    gn_module = mods name, gn_config = node_config_default cfg, gn_state = Uninitialized, gn_queue = q\<rparr>"
  have new: "graph_node_new X (fresh k) (mods name) (node_config_default cfg) = Ret node"
    using q by (simp add: graph_node_new_def node_def node_config_default_def outcome_simps Let_def)
  let ?g = "fg_add_node node g"
  have id: "gn_id node = fresh k" by (simp add: node_def)
  have wf: "wf_graph ?g"
    using Cons.prems(2-4) id by (intro fg_add_node_wf) (auto simp: inj_on_def)
  have dom: "dom (fg_nodes ?g) = fresh ` {..<Suc k}"
    using Cons.prems(4) by (simp add: fg_add_node_fields id lessThan_Suc)
  have sub: "set names \<subseteq> set stack"
    using Cons.prems(1) by simp
  obtain g' s' where IH: "build_nodes X find_module cfg fresh (Suc k) names ?g s1 (acc @ [fresh k]) =
        Ret (Inr ((acc @ [fresh k]) @ map fresh [Suc k..<Suc k + length names]), g', s')"
      "wf_graph g'" "dom (fg_nodes g') = fresh ` {..<Suc k + length names}"
      "fg_edges g' = fg_edges ?g" "fg_allowed_feedback g' = fg_allowed_feedback ?g"
      "\<forall>i < Suc k. fg_nodes g' (fresh i) = fg_nodes ?g (fresh i)"
      "\<forall>j < length names. \<exists>node. fg_nodes g' (fresh (Suc k + j)) = Some node \<and> gn_module node = mods (names ! j) \<and>
         node_queue_new (x_mpsc X) DEFAULT_QUEUE_CAPACITY = Ret (gn_queue node)"
      "set (fg_entry_points g') = set (fg_entry_points ?g) \<union>
        (\<lambda>j. fresh (Suc k + j)) ` {j. j < length names \<and> op_node_type (x_node X) (arc_value (mods (names ! j))) = Source}"
      "set (fg_exit_points g') = set (fg_exit_points ?g) \<union>
        (\<lambda>j. fresh (Suc k + j)) ` {j. j < length names \<and> op_node_type (x_node X) (arc_value (mods (names ! j))) = Sink}"
    using Cons.prems(3) Cons.IH [OF sub wf _ dom, of s1 "acc @ [fresh k]"]
    by - (drule meta_mp, simp, elim exE conjE, rule that, assumption+)
  have build: "build_nodes X find_module cfg fresh k (name # names) g s acc =
      Ret (Inr (acc @ map fresh [k..<k + length (name # names)]), g', s')"
  proof -
    have "acc @ map fresh [k..<k + length (name # names)] = (acc @ [fresh k]) @ map fresh [Suc k..<Suc k + length names]"
      using upt_conv_Cons [of k "k + length (name # names)"] by simp
    then show ?thesis
      using IH(1) by (simp only: build_nodes.simps s1 prod.case option.case new obind.simps id)
  qed
  have shift: "(\<lambda>j. fresh (k + j)) ` {j. j < length (name # names) \<and> P ((name # names) ! j)} =
      (if P name then {fresh k} else {}) \<union> (\<lambda>j. fresh (Suc k + j)) ` {j. j < length names \<and> P (names ! j)}"
    for P :: "string \<Rightarrow> bool"
    using hits [of "length names" "\<lambda>j. P ((name # names) ! j)"] by (simp add: image_Un image_image)
  have keep: "fg_nodes g' (fresh i) = fg_nodes g (fresh i)" if "i < k" for i
  proof -
    have "fresh i \<noteq> fresh k"
      using inj_onD [OF Cons.prems(3), of i k] that by auto
    with IH(6) that id show ?thesis by (simp add: fg_add_node_fields)
  qed
  have mine: "fg_nodes g' (fresh k) = Some node"
    using IH(6) id by (simp add: fg_add_node_fields)
  have nodes: "\<exists>n. fg_nodes g' (fresh (k + j)) = Some n \<and> gn_module n = mods ((name # names) ! j) \<and>
      node_queue_new (x_mpsc X) DEFAULT_QUEUE_CAPACITY = Ret (gn_queue n)"
    if "j < length (name # names)" for j
    using IH(7) mine that q by (cases j) (auto simp: node_def)
  have types: "gn_node_type node = op_node_type (x_node X) (arc_value (mods name))"
    by (simp add: node_def)
  have entry: "set (fg_entry_points g') = set (fg_entry_points g) \<union>
      (\<lambda>j. fresh (k + j)) ` {j. j < length (name # names) \<and>
         op_node_type (x_node X) (arc_value (mods ((name # names) ! j))) = Source}"
    unfolding IH(8) fg_add_node_fields(5) shift [of "\<lambda>n. op_node_type (x_node X) (arc_value (mods n)) = Source"]
    by (simp add: types id)
  have exit: "set (fg_exit_points g') = set (fg_exit_points g) \<union>
      (\<lambda>j. fresh (k + j)) ` {j. j < length (name # names) \<and>
         op_node_type (x_node X) (arc_value (mods ((name # names) ! j))) = Sink}"
    unfolding IH(9) fg_add_node_fields(6) shift [of "\<lambda>n. op_node_type (x_node X) (arc_value (mods n)) = Sink"]
    by (simp add: types id)
  have dom': "dom (fg_nodes g') = fresh ` {..<k + length (name # names)}"
    using IH(3) by simp
  have rest: "fg_edges g' = fg_edges g" "fg_allowed_feedback g' = fg_allowed_feedback g"
    using IH(4,5) by (simp_all add: fg_add_node_fields)
  show ?case
    by (intro exI [of _ g'] exI [of _ s'] conjI build IH(2) dom' rest entry exit allI impI keep nodes)
qed


lemma chain_neighbour:
  "i \<in> set ids \<Longrightarrow> tl ids \<noteq> [] \<Longrightarrow> \<exists>v. (i, v) \<in> set (zip ids (tl ids)) \<or> (v, i) \<in> set (zip ids (tl ids))"
proof (induction ids)
  case (Cons a ids)
  then obtain b rest where ids: "ids = b # rest"
    by (cases ids) auto
  show ?case
  proof (cases "i = a \<or> i = b")
    case True
    with ids show ?thesis by auto
  next
    case False
    with Cons.prems ids have "i \<in> set ids" "tl ids \<noteq> []" by auto
    with Cons.IH ids show ?thesis by auto
  qed
qed simp

text \<open>The targets of a node in a graph whose edges are a chain.\<close>

lemma edge_targets_sig: "edge_targets i es = map (\<lambda>(a, b, _). b) (filter (\<lambda>(a, _). a = i) (map edge_sig es))"
  by (induction es) (auto simp: edge_targets_def edge_sig_def)

lemma chain_succs:
  assumes "wf_graph g" "map edge_sig (fg_edges g) = chain_sigs ids"
  shows "v \<in> set (fg_succs g u) \<longleftrightarrow> (u, v) \<in> set (zip ids (tl ids))"
proof -
  have "v \<in> set (fg_succs g u) \<longleftrightarrow> (\<exists>t c. (u, v, t, c) \<in> set (chain_sigs ids))"
    by (auto simp: fg_succs_wf [OF assms(1)] edge_targets_sig assms(2) image_iff Bex_def)
  also have "... \<longleftrightarrow> (u, v) \<in> set (zip ids (tl ids))"
    by (force simp: chain_sigs_def)
  finally show ?thesis .
qed

lemma chain_valid:
  assumes wf: "wf_graph g" and dom: "dom (fg_nodes g) = set ids" and "distinct ids"
    and sigs: "map edge_sig (fg_edges g) = chain_sigs ids" and "fg_allowed_feedback g = {}"
    and ends: "ids \<noteq> [] \<Longrightarrow> last ids \<in> set (fg_exit_points g)" "ids \<noteq> [] \<Longrightarrow> hd ids \<in> set (fg_entry_points g)"
    and entries: "set (fg_entry_points g) \<subseteq> set ids"
  shows "valid_graph g"
proof -
  note succs = chain_succs [OF wf sigs]
  have live: "fg_live g = fg_succs g"
    using assms(5) by (simp add: fg_live_def fun_eq_iff)
  have "topo (fg_succs g) (rev ids)"
    by (rule topo_chain [OF assms(3)]) (simp add: succs)
  then have no_cycle: "\<not> is_cycle (fg_succs g) c" for c
  proof (cases "hd c \<in> set ids")
    case True
    with \<open>topo (fg_succs g) (rev ids)\<close> assms(3) show ?thesis
      using topo_acyclic [of "fg_succs g" "rev ids" c] by simp
  next
    case False
    show ?thesis
    proof
      assume "is_cycle (fg_succs g) c"
      then obtain u v w where "c = u # v # w" "v \<in> set (fg_succs g u)"
        by (cases c; cases "tl c") (auto simp: is_cycle_def path_in_Cons)
      with False show False
        by (auto simp: succs dest: set_zip_leftD)
    qed
  qed
  have "entries_reach_exit g"
    unfolding entries_reach_exit_def
  proof
    fix i assume "i \<in> set (fg_entry_points g)"
    then have i: "i \<in> set ids" using entries by blast
    then have "reaches (fg_succs g) i (last ids)"
      by (intro chain_reaches) (simp_all add: succs)
    moreover from i have "ids \<noteq> []" by auto
    ultimately show "\<exists>x \<in> set (fg_exit_points g). i \<in> dom (fg_nodes g) \<and> x \<in> dom (fg_nodes g) \<and>
        reaches (fg_succs g) i x"
      using i ends(1) dom by (intro bexI [of _ "last ids"]) auto
  qed
  moreover have "no_orphans g"
    unfolding no_orphans_def
  proof
    fix i assume "i \<in> dom (fg_nodes g)"
    then have i: "i \<in> set ids" using dom by simp
    show "i \<in> set (fg_entry_points g) \<or> i \<in> set (fg_exit_points g) \<or>
        (\<exists>e \<in> set (fg_edges g). ed_from e = i \<or> ed_to e = i)"
    proof (cases "tl ids = []")
      case True
      with i obtain a where "ids = [a]" by (cases ids) auto
      with i ends(1) show ?thesis by simp
    next
      case False
      then have "\<exists>v. (i, v) \<in> set (zip ids (tl ids)) \<or> (v, i) \<in> set (zip ids (tl ids))"
        by (intro chain_neighbour i)
      then obtain v where v: "(i, v) \<in> set (zip ids (tl ids)) \<or> (v, i) \<in> set (zip ids (tl ids))" ..
      have "\<exists>e \<in> set (fg_edges g). ed_from e = u \<and> ed_to e = w" if "(u, w) \<in> set (zip ids (tl ids))" for u w
      proof -
        from that have "(u, w, Sequential, None) \<in> set (map edge_sig (fg_edges g))"
          unfolding sigs chain_sigs_def by force
        then show ?thesis by (force simp: edge_sig_def)
      qed
      with v show ?thesis by blast
    qed
  qed
  ultimately show ?thesis
    using no_cycle by (simp add: valid_graph_def live)
qed

lemma chain_sigs_upt:
  "chain_sigs (map f [0..<n]) = map (\<lambda>j. (f j, f (Suc j), Sequential, None)) [0..<n - 1]"
  unfolding chain_sigs_def by (rule nth_equalityI) (simp_all add: nth_tl)

lemma build_from_profile_result:
  assumes "packet_channels (x_mpsc X) queued bound rx_open tx_open"
    and "\<forall>name \<in> set (pf_stack profile). \<forall>t. fst (find_module name t) = Some (mods name)"
    and "inj_on fresh {..<length (pf_stack profile)}" "distinct ks" "set ks = fresh ` {..<length (pf_stack profile)}"
  shows "\<exists>g s'. build_from_profile X find_module cfg fresh ks profile s = Ret (Inr g, s') \<and>
    wf_graph g \<and> valid_graph g \<and>
    dom (fg_nodes g) = fresh ` {..<length (pf_stack profile)} \<and>
    (\<forall>j < length (pf_stack profile). \<exists>node. fg_nodes g (fresh j) = Some node \<and>
       gn_module node = mods (pf_stack profile ! j) \<and>
       node_queue_new (x_mpsc X) DEFAULT_QUEUE_CAPACITY = Ret (gn_queue node)) \<and>
    map edge_sig (fg_edges g) = chain_sigs (map fresh [0..<length (pf_stack profile)]) \<and>
    (\<forall>j < length (pf_stack profile).
       (fresh j \<in> set (fg_entry_points g) \<longleftrightarrow>
          j = 0 \<or> op_node_type (x_node X) (arc_value (mods (pf_stack profile ! j))) = Source) \<and>
       (fresh j \<in> set (fg_exit_points g) \<longleftrightarrow>
          Suc j = length (pf_stack profile) \<or>
          op_node_type (x_node X) (arc_value (mods (pf_stack profile ! j))) = Sink))"
proof -
  let ?n = "length (pf_stack profile)"
  define ids where "ids = map fresh [0..<?n]"
  define ty where "ty j = op_node_type (x_node X) (arc_value (mods (pf_stack profile ! j)))" for j
  have len: "length ids = ?n" and set_ids: "set ids = fresh ` {..<?n}" and nth: "\<And>j. j < ?n \<Longrightarrow> ids ! j = fresh j"
    by (auto simp: ids_def)
  have dist: "distinct ids"
    using assms(3) by (simp add: ids_def distinct_map atLeast0LessThan)
  obtain g1 s' where g1: "build_nodes X find_module cfg fresh 0 (pf_stack profile) fg_new s [] = Ret (Inr ids, g1, s')"
      "wf_graph g1" "dom (fg_nodes g1) = set ids" "fg_edges g1 = []" "fg_allowed_feedback g1 = {}"
      "\<forall>j < ?n. \<exists>node. fg_nodes g1 (fresh j) = Some node \<and> gn_module node = mods (pf_stack profile ! j) \<and>
         node_queue_new (x_mpsc X) DEFAULT_QUEUE_CAPACITY = Ret (gn_queue node)"
      "set (fg_entry_points g1) = fresh ` {j. j < ?n \<and> ty j = Source}"
      "set (fg_exit_points g1) = fresh ` {j. j < ?n \<and> ty j = Sink}"
  proof -
    have found: "fst (find_module name t) = Some (mods name)" if "name \<in> set (pf_stack profile)" for name t
      using assms(2) that by blast
    have inj0: "inj_on fresh {..<0 + ?n}"
      using assms(3) by simp
    note built = build_nodes_ok [where k = 0 and s = s and acc = "[]" and cfg = cfg and mods = mods and
        stack = "pf_stack profile" and find_module = find_module, OF assms(1) _ subset_refl fg_new_wf inj0 fg_new_dom]
    show ?thesis
      by (rule built [THEN exE], erule found, elim exE conjE, rule that) (simp_all add: fg_new_def set_ids ids_def ty_def atLeast0LessThan)
  qed
  obtain g2 where g2: "connect_chain X ids g1 = Ret (Inr (), g2)" "wf_graph g2" "fg_nodes g2 = fg_nodes g1"
      "fg_entry_points g2 = fg_entry_points g1" "fg_exit_points g2 = fg_exit_points g1"
      "fg_allowed_feedback g2 = {}" "map edge_sig (fg_edges g2) = chain_sigs ids"
    using connect_chain_ok [OF assms(1) g1(2), of ids] g1(3-5) by auto
  define g3 where "g3 = (case ids of [] \<Rightarrow> g2 | first # _ \<Rightarrow> fg_mark_entry_point first g2)"
  define g where "g = (if ids = [] then g3 else fg_mark_exit_point (last ids) g3)"
  have wf: "wf_graph g"
    using g2(2) by (auto simp: g_def g3_def intro: fg_mark_wf split: list.split)
  have fields: "fg_nodes g = fg_nodes g1" "fg_edges g = fg_edges g2" "fg_allowed_feedback g = {}"
    using g2(3,6) by (simp_all add: g_def g3_def split: list.split)
  have entries: "set (fg_entry_points g) = fresh ` {j. j < ?n \<and> (j = 0 \<or> ty j = Source)}"
  proof (cases ids)
    case Nil
    with len g1(7) g2(4) show ?thesis by (simp add: g_def g3_def)
  next
    case (Cons a rest)
    with len nth [of 0] have "a = fresh 0" "0 < ?n" by (auto simp del: length_greater_0_conv)
    with Cons g1(7) g2(4) show ?thesis by (auto simp: g_def g3_def)
  qed
  have exits: "set (fg_exit_points g) = fresh ` {j. j < ?n \<and> (Suc j = ?n \<or> ty j = Sink)}"
  proof (cases ids)
    case Nil
    with len g1(8) g2(5) show ?thesis by (simp add: g_def g3_def)
  next
    case (Cons a rest)
    with len obtain m where m: "?n = Suc m" by (cases ?n) auto
    have "last ids = fresh m"
      using Cons last_conv_nth [of ids] len nth [of m] m by simp
    moreover have "set (fg_exit_points g) = insert (last ids) (set (fg_exit_points g1))"
      using Cons g2(5) by (simp add: g_def g3_def)
    ultimately show ?thesis using g1(8) by (auto simp: m)
  qed
  have "valid_graph g"
  proof (rule chain_valid [OF wf _ dist])
    show "dom (fg_nodes g) = set ids" "map edge_sig (fg_edges g) = chain_sigs ids" "fg_allowed_feedback g = {}"
      using g1(3) g2(7) fields by simp_all
    show "last ids \<in> set (fg_exit_points g)" if "ids \<noteq> []" using that by (simp add: g_def)
    show "hd ids \<in> set (fg_entry_points g)" if "ids \<noteq> []" using that by (cases ids) (simp_all add: g_def g3_def)
    show "set (fg_entry_points g) \<subseteq> set ids" by (auto simp: entries set_ids)
  qed
  moreover have "is_order ks (fg_nodes g)"
    unfolding is_order_def fields(1) g1(3) set_ids by (intro conjI assms(4,5))
  ultimately have valid: "fg_validate X ks g = Ret (Inr ())"
    using fg_validate_result [OF wf, of ks X] by auto
  have build: "build_from_profile X find_module cfg fresh ks profile s = Ret (Inr g, s')"
    by (simp only: build_from_profile_def Let_def g1(1) g2(1) obind.simps prod.case sum.case g3_def [symmetric]
        g_def [symmetric] valid)
  have sigs: "map edge_sig (fg_edges g) = chain_sigs (map fresh [0..<?n])"
    by (simp add: fields(2) g2(7) ids_def)
  have mem: "fresh j \<in> fresh ` {i. i < ?n \<and> Q i} \<longleftrightarrow> Q j" if "j < ?n" for j Q
    using assms(3) that by (auto simp: inj_on_def)
  show ?thesis
    using assms(3) \<open>valid_graph g\<close> g1(3,6) fields(1) set_ids
    by (intro exI [of _ g] exI [of _ s'] conjI build wf sigs)
      (simp_all add: entries exits mem ty_def)
qed

text \<open>
  C31. When every module of the stack is found, building returns a valid graph: one node per name,
  holding the module found for it, in a chain of sequential edges in the order of the stack. The
  first node is an entry point and the last an exit point; the only others are the nodes of type
  source and of type sink, wherever they stand in the stack.
\<close>

theorem build_from_profile_chain:
  assumes "packet_channels (x_mpsc X) queued bound rx_open tx_open"
    and "\<forall>name \<in> set (pf_stack profile). \<forall>t. fst (find_module name t) = Some (mods name)"
    and "inj_on fresh {..<length (pf_stack profile)}" "distinct ks" "set ks = fresh ` {..<length (pf_stack profile)}"
  shows "\<exists>g s'. build_from_profile X find_module cfg fresh ks profile s = Ret (Inr g, s') \<and>
    wf_graph g \<and> valid_graph g \<and>
    dom (fg_nodes g) = fresh ` {..<length (pf_stack profile)} \<and>
    (\<forall>j < length (pf_stack profile). \<exists>node. fg_nodes g (fresh j) = Some node \<and>
       gn_module node = mods (pf_stack profile ! j)) \<and>
    map edge_sig (fg_edges g) =
      map (\<lambda>j. (fresh j, fresh (Suc j), Sequential, None)) [0..<length (pf_stack profile) - 1] \<and>
    (\<forall>j < length (pf_stack profile).
       (fresh j \<in> set (fg_entry_points g) \<longleftrightarrow>
          j = 0 \<or> op_node_type (x_node X) (arc_value (mods (pf_stack profile ! j))) = Source) \<and>
       (fresh j \<in> set (fg_exit_points g) \<longleftrightarrow>
          Suc j = length (pf_stack profile) \<or>
          op_node_type (x_node X) (arc_value (mods (pf_stack profile ! j))) = Sink))"
proof -
  let ?n = "length (pf_stack profile)"
  obtain g s' where g: "build_from_profile X find_module cfg fresh ks profile s = Ret (Inr g, s')" "wf_graph g"
      "valid_graph g" "dom (fg_nodes g) = fresh ` {..<?n}"
    and nodes: "\<forall>j < ?n. \<exists>node. fg_nodes g (fresh j) = Some node \<and> gn_module node = mods (pf_stack profile ! j) \<and>
       node_queue_new (x_mpsc X) DEFAULT_QUEUE_CAPACITY = Ret (gn_queue node)"
    and sigs: "map edge_sig (fg_edges g) = chain_sigs (map fresh [0..<?n])"
    and ends: "\<forall>j < ?n.
       (fresh j \<in> set (fg_entry_points g) \<longleftrightarrow>
          j = 0 \<or> op_node_type (x_node X) (arc_value (mods (pf_stack profile ! j))) = Source) \<and>
       (fresh j \<in> set (fg_exit_points g) \<longleftrightarrow>
          Suc j = ?n \<or> op_node_type (x_node X) (arc_value (mods (pf_stack profile ! j))) = Sink)"
    using build_from_profile_result [OF assms, of cfg s] by (elim exE conjE) (rule that)
  from nodes have "\<forall>j < ?n. \<exists>node. fg_nodes g (fresh j) = Some node \<and> gn_module node = mods (pf_stack profile ! j)"
    by blast
  with g sigs ends show ?thesis
    unfolding chain_sigs_upt by (intro exI [of _ g] exI [of _ s'] conjI)
qed

end
