(* ===== verification/Observability.thy ===== *)
theory Observability
  imports Graph_Builder Module_Loading
begin

text \<open>
  What the runtime shows of itself: the export of a graph (\<open>crates/nyarix-graph/src/export.rs\<close>), the
  export of the metrics (\<open>metrics.rs\<close> of the module API), the runtime's own gauges
  (\<open>crates/nyarix-runtime/src/runtime_metrics.rs\<close>), the debug dump (\<open>debug_dump.rs\<close>) and the handle
  of the runtime (\<open>init.rs\<close>). Printing JSON is an argument.
\<close>

subsection \<open>The export of a graph\<close>

record node_metrics_export =
  nx_process_calls_total :: u64
  nx_errors_total :: u64
  nx_queue_depth :: i64

record node_export =
  ne_id :: string
  ne_name :: string
  ne_node_type :: node_type
  ne_state :: node_state
  ne_is_entry :: bool
  ne_is_exit :: bool
  ne_metrics :: "node_metrics_export option"

record edge_export =
  ee_from :: string
  ee_to :: string
  ee_edge_type :: edge_type
  ee_queue_depth :: usize
  ee_dropped_count :: u64

record graph_export =
  ge_nodes :: "node_export list"
  ge_edges :: "edge_export list"

definition value_or :: "'a \<Rightarrow> 'a option \<Rightarrow> 'a" where
  "value_or d x = (case x of None \<Rightarrow> d | Some v \<Rightarrow> v)"

definition node_metrics_export_of :: "'f metric_registry \<Rightarrow> string \<Rightarrow> node_metrics_export option" where
  "node_metrics_export_of r name =
     (let calls = registry_get_counter name ''process_calls_total'' r;
          errors = registry_get_counter name ''errors_total'' r;
          depth = registry_get_gauge name ''queue_depth'' r
      in if calls = None \<and> errors = None \<and> depth = None then None
         else Some \<lparr>nx_process_calls_total = value_or 0 calls, nx_errors_total = value_or 0 errors,
                nx_queue_depth = value_or 0 depth\<rparr>)"

definition node_export_of ::
    "('v, 'm, 'ctx, 'c, 'f) ext \<Rightarrow> 'f metric_registry option \<Rightarrow> ('m, 'c, 'cfg) flow_graph \<Rightarrow> node_id \<Rightarrow>
     ('m, 'c, 'cfg) graph_node \<Rightarrow> node_export" where
  "node_export_of X metrics g i node =
     (let name = mm_name (op_metadata (x_node X) (arc_value (gn_module node)))
      in \<lparr>ne_id = node_id_str X i, ne_name = name, ne_node_type = gn_node_type node, ne_state = gn_state node,
          ne_is_entry = (i \<in> set (fg_entry_points g)), ne_is_exit = (i \<in> set (fg_exit_points g)),
          ne_metrics = Option.bind metrics (\<lambda>r. node_metrics_export_of r name)\<rparr>)"

definition edge_export_of :: "('v, 'm, 'ctx, 'c, 'f) ext \<Rightarrow> 'c edge \<Rightarrow> edge_export" where
  "edge_export_of X e = \<lparr>ee_from = node_id_str X (ed_from e), ee_to = node_id_str X (ed_to e),
     ee_edge_type = ed_type e, ee_queue_depth = edge_queue_depth (x_mpsc X) e, ee_dropped_count = ed_dropped e\<rparr>"

text \<open>\<open>ks\<close> is the order of the hash map of nodes.\<close>

fun export_loop ::
    "('v, 'm, 'ctx, 'c, 'f) ext \<Rightarrow> 'f metric_registry option \<Rightarrow> ('m, 'c, 'cfg) flow_graph \<Rightarrow> node_id list \<Rightarrow>
     graph_export \<Rightarrow> graph_export" where
  "export_loop X metrics g [] acc = acc"
| "export_loop X metrics g (i # ks) acc =
     (case fg_nodes g i of
        None \<Rightarrow> export_loop X metrics g ks acc
      | Some node \<Rightarrow>
          export_loop X metrics g ks
            \<lparr>ge_nodes = ge_nodes acc @ [node_export_of X metrics g i node],
             ge_edges = ge_edges acc @ map (edge_export_of X) (fg_edges_from i g)\<rparr>)"

definition export_graph ::
    "('v, 'm, 'ctx, 'c, 'f) ext \<Rightarrow> node_id list \<Rightarrow> ('m, 'c, 'cfg) flow_graph \<Rightarrow> 'f metric_registry option \<Rightarrow>
     graph_export" where
  "export_graph X ks g metrics = export_loop X metrics g ks \<lparr>ge_nodes = [], ge_edges = []\<rparr>"

text \<open>The names that \<open>{:?}\<close> prints.\<close>

primrec node_type_debug :: "node_type \<Rightarrow> string" where
  "node_type_debug Source = ''Source''"
| "node_type_debug Transformer = ''Transformer''"
| "node_type_debug Filter = ''Filter''"
| "node_type_debug Encryptor = ''Encryptor''"
| "node_type_debug Packer = ''Packer''"
| "node_type_debug Obfuscator = ''Obfuscator''"
| "node_type_debug TransportNode = ''Transport''"
| "node_type_debug Router = ''Router''"
| "node_type_debug Aggregator = ''Aggregator''"
| "node_type_debug Observer = ''Observer''"
| "node_type_debug PolicyResolver = ''PolicyResolver''"
| "node_type_debug Sink = ''Sink''"

primrec node_state_debug :: "node_state \<Rightarrow> string" where
  "node_state_debug Uninitialized = ''Uninitialized''"
| "node_state_debug Initializing = ''Initializing''"
| "node_state_debug Running = ''Running''"
| "node_state_debug DegradedState = ''Degraded''"
| "node_state_debug Stopping = ''Stopping''"
| "node_state_debug Stopped = ''Stopped''"

primrec edge_type_debug :: "edge_type \<Rightarrow> string" where
  "edge_type_debug Sequential = ''Sequential''"
| "edge_type_debug Conditional = ''Conditional''"
| "edge_type_debug Parallel = ''Parallel''"
| "edge_type_debug FallbackEdge = ''Fallback''"

definition dquote :: string where "dquote = [CHR 0x22]"
definition newline :: string where "newline = [CHR 0x0A]"
definition dot_break :: string where "dot_break = [CHR 0x5C, CHR ''n'']"

definition dot_node :: "node_export \<Rightarrow> string" where
  "dot_node n =
     ''  '' @ dquote @ ne_id n @ dquote @ '' [label='' @ dquote @ ne_name n @ dot_break @
     node_type_debug (ne_node_type n) @ dot_break @ node_state_debug (ne_state n) @ dquote @ '', shape='' @
     (if ne_is_entry n then ''doublecircle'' else if ne_is_exit n then ''square'' else ''ellipse'') @ ''];'' @ newline"

definition dot_edge :: "edge_export \<Rightarrow> string" where
  "dot_edge e =
     ''  '' @ dquote @ ee_from e @ dquote @ '' -> '' @ dquote @ ee_to e @ dquote @ '' [label='' @ dquote @
     edge_type_debug (ee_edge_type e) @ dquote @ ''];'' @ newline"

definition to_dot :: "graph_export \<Rightarrow> string" where
  "to_dot x = ''digraph FlowGraph {'' @ newline @ concat (map dot_node (ge_nodes x)) @
     concat (map dot_edge (ge_edges x)) @ ''}'' @ newline"

definition export_to_json :: "(graph_export \<Rightarrow> 'je + string) \<Rightarrow> graph_export \<Rightarrow> string" where
  "export_to_json print x = (case print x of Inr text \<Rightarrow> text | Inl _ \<Rightarrow> ''{}'')"

subsection \<open>The export of the metrics\<close>

definition registry_export_json :: "('f metric_registry \<Rightarrow> 'je + string) \<Rightarrow> 'f metric_registry \<Rightarrow> string" where
  "registry_export_json print r =
     (case print (r\<lparr>mr_histograms := map_option histogram_snapshot \<circ> mr_histograms r\<rparr>) of
        Inr text \<Rightarrow> text
      | Inl _ \<Rightarrow> ''{}'')"

subsection \<open>The gauges of the runtime\<close>

definition RUNTIME_METRICS_SCOPE :: string where
  "RUNTIME_METRICS_SCOPE = ''runtime''"

definition set_runtime_gauge :: "string \<Rightarrow> i64 \<Rightarrow> 'f metric_registry \<Rightarrow> 'f metric_registry" where
  "set_runtime_gauge name v r = gauge_set v (registry_gauge RUNTIME_METRICS_SCOPE name r)"

text \<open>\<open>elapsed\<close> is in nanoseconds.\<close>

definition record_uptime :: "nat \<Rightarrow> 'f metric_registry \<Rightarrow> 'f metric_registry" where
  "record_uptime elapsed r = set_runtime_gauge ''uptime_seconds'' (i64_of_usize (elapsed div 1000000000)) r"

definition record_module_load_report :: "'r module_load_report \<Rightarrow> 'f metric_registry \<Rightarrow> 'f metric_registry" where
  "record_module_load_report report r =
     (let loaded = i64_of_usize (length (ml_valid report));
          failed = i64_of_usize (length (ml_invalid report) + length (ml_errors report))
      in set_runtime_gauge ''modules_failed'' failed (set_runtime_gauge ''modules_loaded'' loaded r))"

fun path_lengths ::
    "('m, 'c, 'cfg) flow_graph \<Rightarrow> (node_id \<times> node_id) list \<Rightarrow> usize list outcome" where
  "path_lengths g [] = Ret []"
| "path_lengths g ((entry, exit) # pairs) =
     obind (fg_find_path g entry exit) (\<lambda>r.
       obind (path_lengths g pairs) (\<lambda>ls.
         Ret (case r of None \<Rightarrow> ls | Some path \<Rightarrow> length path # ls)))"

definition record_graph_depth ::
    "('m, 'c, 'cfg) flow_graph \<Rightarrow> 'f metric_registry \<Rightarrow> 'f metric_registry outcome" where
  "record_graph_depth g r =
     obind (path_lengths g (List.product (fg_entry_points g) (fg_exit_points g))) (\<lambda>ls.
       Ret (set_runtime_gauge ''graph_depth'' (i64_of_usize (fold max ls 0)) r))"

subsection \<open>The runtime's handle and the debug dump\<close>

datatype 'e runtime_init_error = ConfigParse 'e

record 'toml runtime_handle =
  rt_config :: "'toml runtime_config"

definition runtime_from_toml ::
    "(string \<Rightarrow> 'e + 'toml raw_config) \<Rightarrow> string \<Rightarrow> 'e runtime_init_error + 'toml runtime_handle" where
  "runtime_from_toml parse toml_str =
     (case config_from_toml parse toml_str of
        Inl e \<Rightarrow> Inl (ConfigParse e)
      | Inr config \<Rightarrow> Inr \<lparr>rt_config = config\<rparr>)"

record ('json, 'toml) debug_dump =
  dd_graph :: graph_export
  dd_metrics :: 'json
  dd_config :: "'toml runtime_config"
  dd_uptime_seconds :: u64

text \<open>\<open>read\<close> is the JSON parser and \<open>null\<close> its null value.\<close>

definition build_debug_dump ::
    "('v, 'm, 'ctx, 'c, 'f) ext \<Rightarrow> ('f metric_registry \<Rightarrow> 'je + string) \<Rightarrow> (string \<Rightarrow> 'je + 'json) \<Rightarrow> 'json \<Rightarrow>
     node_id list \<Rightarrow> nat \<Rightarrow> ('m, 'c, 'cfg) flow_graph \<Rightarrow> 'f metric_registry \<Rightarrow> 'toml runtime_config \<Rightarrow>
     ('json, 'toml) debug_dump" where
  "build_debug_dump X print read null ks elapsed g metrics config =
     (let metrics_json = (case read (registry_export_json print metrics) of Inr v \<Rightarrow> v | Inl _ \<Rightarrow> null)
      in \<lparr>dd_graph = export_graph X ks g (Some metrics), dd_metrics = metrics_json, dd_config = config,
          dd_uptime_seconds = u64_of_usize (elapsed div 1000000000)\<rparr>)"

definition dump_to_json :: "(('json, 'toml) debug_dump \<Rightarrow> 'je + string) \<Rightarrow> ('json, 'toml) debug_dump \<Rightarrow> string" where
  "dump_to_json print d = (case print d of Inr text \<Rightarrow> text | Inl _ \<Rightarrow> ''{}'')"

definition write_to_file ::
    "'fs fs_ops \<Rightarrow> (('json, 'toml) debug_dump \<Rightarrow> 'je + string) \<Rightarrow> ('json, 'toml) debug_dump \<Rightarrow> string \<Rightarrow> 'fs \<Rightarrow>
     (io_error + unit) \<times> 'fs" where
  "write_to_file F print d path s = fs_write F path (string_bytes (dump_to_json print d)) s"

subsection \<open>What an export shows\<close>

lemma mset_concat_filter:
  "distinct ks \<Longrightarrow> mset (concat (map (\<lambda>k. filter (\<lambda>x. f x = k) xs) ks)) = filter_mset (\<lambda>x. f x \<in> set ks) (mset xs)"
  by (induction ks) (auto intro!: multiset_eqI)

lemma export_loop_result:
  "set ks \<subseteq> dom (fg_nodes g) \<Longrightarrow>
   export_loop X metrics g ks acc =
     \<lparr>ge_nodes = ge_nodes acc @ map (\<lambda>i. node_export_of X metrics g i (the (fg_nodes g i))) ks,
      ge_edges = ge_edges acc @ map (edge_export_of X) (concat (map (\<lambda>i. fg_edges_from i g) ks))\<rparr>"
  by (induction ks arbitrary: acc) auto

text \<open>
  The export of a graph is complete: it lists every node once, in the order of the map, and
  every edge exactly once, parallel edges between the same nodes included.
\<close>

theorem export_graph_complete:
  assumes "wf_graph g" "is_order ks (fg_nodes g)"
  shows "ge_nodes (export_graph X ks g metrics) = map (\<lambda>i. node_export_of X metrics g i (the (fg_nodes g i))) ks \<and>
    mset (ge_edges (export_graph X ks g metrics)) = image_mset (edge_export_of X) (mset (fg_edges g))"
proof -
  have "\<forall>e \<in> set (fg_edges g). ed_from e \<in> set ks"
    using wf_graphD(4) [OF assms(1)] by (simp only: is_order_set [OF assms(2)]) blast
  then have "filter (\<lambda>e. ed_from e \<in> set ks) (fg_edges g) = fg_edges g"
    by simp
  from arg_cong [OF this, of mset]
  have "filter_mset (\<lambda>e. ed_from e \<in> set ks) (mset (fg_edges g)) = mset (fg_edges g)"
    by (simp only: mset_filter)
  moreover have "distinct ks"
    using assms(2) unfolding is_order_def by blast
  ultimately have "mset (concat (map (\<lambda>i. fg_edges_from i g) ks)) = mset (fg_edges g)"
    using mset_concat_filter [of ks ed_from "fg_edges g"] by (simp add: fg_edges_from_def)
  then have "image_mset (edge_export_of X) (mset (concat (map (\<lambda>i. fg_edges_from i g) ks))) =
      image_mset (edge_export_of X) (mset (fg_edges g))"
    by (rule arg_cong)
  with assms(2) show ?thesis
    by (simp add: export_graph_def export_loop_result mset_map [symmetric] del: mset_map mset_concat)
qed

subsection \<open>The depth of a graph built from a profile\<close>

lemma chain_path:
  assumes "distinct ids" and edge: "\<And>u v. v \<in> set (s u) \<Longrightarrow> (u, v) \<in> set (zip ids (tl ids))"
  shows "path_in s p \<Longrightarrow> i < length ids \<Longrightarrow> hd p = ids ! i \<Longrightarrow>
    i + length p \<le> length ids \<and> last p = ids ! (i + length p - 1)"
proof (induction p arbitrary: i)
  case Nil
  then show ?case by (simp add: path_in_def)
next
  case (Cons a p)
  show ?case
  proof (cases p)
    case Nil
    with Cons.prems show ?thesis by simp
  next
    case (Cons b q)
    with Cons.prems(1) have path: "path_in s p" and "(a, b) \<in> set (zip ids (tl ids))"
      using edge by (auto simp: path_in_Cons)
    then obtain k where zip: "k < length (tl ids)" "ids ! k = a" "tl ids ! k = b"
      by (auto simp: in_set_zip)
    then have k: "Suc k < length ids" "ids ! k = a" "ids ! Suc k = b"
      by (auto simp: nth_tl)
    have "k = i"
      using k(1,2) Cons.prems(2,3) assms(1) by (auto simp: nth_eq_iff_index_eq)
    then have "Suc i < length ids" "hd p = ids ! Suc i"
      using k(1,3) Cons by simp_all
    from Cons.IH [OF path this] Cons show ?thesis
      by simp
  qed
qed

lemma fold_max_le: "(\<forall>x \<in> set xs. x \<le> n) \<Longrightarrow> (m :: nat) \<le> n \<Longrightarrow> fold max xs m \<le> n"
  by (induction xs arbitrary: m) simp_all

lemma fold_max_start: "(m :: nat) \<le> fold max xs m"
proof (induction xs arbitrary: m)
  case (Cons x xs)
  from Cons [of "max x m"] show ?case by simp
qed simp

lemma fold_max_ge: "x \<in> set xs \<Longrightarrow> (x :: nat) \<le> fold max xs m"
proof (induction xs arbitrary: m)
  case (Cons y xs)
  then show ?case
    using fold_max_start [of "max y m" xs] by (cases "x = y") auto
qed simp

lemma path_lengths_result:
  assumes "wf_graph g"
  shows "\<exists>ls. path_lengths g pairs = Ret ls \<and>
    set ls = {length p |p. \<exists>(a, b) \<in> set pairs. fg_find_path g a b = Ret (Some p)}"
proof (induction pairs)
  case (Cons ab pairs)
  obtain a b where ab: "ab = (a, b)" by fastforce
  obtain ls where ls: "path_lengths g pairs = Ret ls"
      "set ls = {length p |p. \<exists>(a, b) \<in> set pairs. fg_find_path g a b = Ret (Some p)}"
    using Cons.IH by blast
  obtain r where r: "fg_find_path g a b = Ret r"
    using fg_find_path_Some_iff [OF assms, of a b] by blast
  show ?case
  proof (cases r)
    case None
    with ab ls r show ?thesis by simp
  next
    case (Some p)
    then have "{length q |q. \<exists>(a, b) \<in> set (ab # pairs). fg_find_path g a b = Ret (Some q)} = insert (length p) (set ls)"
      unfolding ls(2) using r ab by auto
    with ab ls(1) r Some show ?thesis by simp
  qed
qed simp

lemma chain_depth:
  assumes wf: "wf_graph g" and dom: "dom (fg_nodes g) = set ids" and dist: "distinct ids"
    and sigs: "map edge_sig (fg_edges g) = chain_sigs ids"
    and ends: "ids \<noteq> [] \<Longrightarrow> hd ids \<in> set (fg_entry_points g)" "ids \<noteq> [] \<Longrightarrow> last ids \<in> set (fg_exit_points g)"
  shows "record_graph_depth g r = Ret (set_runtime_gauge ''graph_depth'' (i64_of_usize (length ids)) r)"
proof -
  let ?pairs = "List.product (fg_entry_points g) (fg_exit_points g)"
  note succs = chain_succs [OF wf sigs]
  obtain ls where ls: "path_lengths g ?pairs = Ret ls"
      "set ls = {length p |p. \<exists>(a, b) \<in> set ?pairs. fg_find_path g a b = Ret (Some p)}"
    using path_lengths_result [OF wf] by blast
  have found: "path_in (fg_succs g) p \<and> hd p = a \<and> last p = b \<and> a \<in> set ids"
    if "fg_find_path g a b = Ret (Some p)" for a b p
    using that fg_find_path_Some_iff [OF wf, of a b] fg_find_path_result [OF wf, of a b] dom
    by (auto simp: path_answer_def)
  have segment: "\<exists>i. i < length ids \<and> a = ids ! i \<and> i + length p \<le> length ids \<and> last p = ids ! (i + length p - 1)"
    if "fg_find_path g a b = Ret (Some p)" for a b p
  proof -
    from found [OF that] obtain i where "i < length ids" "hd p = ids ! i" "a = ids ! i" "path_in (fg_succs g) p"
      by (auto simp: in_set_conv_nth)
    with chain_path [OF dist, of "fg_succs g" p i] succs show ?thesis by auto
  qed
  have "\<forall>n \<in> set ls. n \<le> length ids"
    unfolding ls(2) using segment by fastforce
  then have "fold max ls 0 \<le> length ids"
    by (intro fold_max_le) simp_all
  moreover have "length ids \<le> fold max ls 0"
  proof (cases "ids = []")
    case False
    let ?a = "hd ids" and ?b = "last ids"
    have "reaches (fg_succs g) ?a ?b"
      using False by (intro chain_reaches) (simp_all add: succs)
    then obtain p where p: "fg_find_path g ?a ?b = Ret (Some p)"
      using fg_find_path_Some_iff [OF wf, of ?a ?b] False dom by fastforce
    from segment [OF p] obtain i where i: "i < length ids" "hd ids = ids ! i" "i + length p \<le> length ids"
        "last p = ids ! (i + length p - 1)"
      by blast
    have "i = 0"
      using i(1,2) False dist nth_eq_iff_index_eq [OF dist, of i 0] by (simp add: hd_conv_nth)
    moreover have "p \<noteq> []" "last p = ids ! (length ids - 1)"
      using found [OF p] False by (auto simp: path_in_def last_conv_nth)
    ultimately have "length p - 1 = length ids - 1"
      using i(1,3,4) nth_eq_iff_index_eq [OF dist, of "length p - 1" "length ids - 1"] by fastforce
    with \<open>p \<noteq> []\<close> False have "length p = length ids"
      by (cases p; cases ids) simp_all
    moreover have "length p \<in> set ls"
      unfolding ls(2) using p ends False by force
    ultimately show ?thesis
      using fold_max_ge [of "length p" ls 0] by simp
  qed simp
  ultimately show ?thesis
    using ls(1) by (simp add: record_graph_depth_def)
qed

text \<open>
  C32. The depth the runtime reports for a graph built from a profile is the length of the stack:
  the longest of the shortest routes from an entry to an exit point runs through every node, also
  when modules inside the stack are sources or sinks and so entry or exit points themselves.
\<close>

theorem profile_graph_depth:
  assumes "packet_channels (x_mpsc X) queued bound rx_open tx_open"
    and "\<forall>name \<in> set (pf_stack profile). \<forall>t. fst (find_module name t) = Some (mods name)"
    and "inj_on fresh {..<length (pf_stack profile)}" "distinct ks" "set ks = fresh ` {..<length (pf_stack profile)}"
  shows "\<exists>g s' r'. build_from_profile X find_module cfg fresh ks profile s = Ret (Inr g, s') \<and>
    record_graph_depth g r = Ret r' \<and>
    registry_get_gauge ''runtime'' ''graph_depth'' r' = Some (i64_of_usize (length (pf_stack profile)))"
proof -
  let ?n = "length (pf_stack profile)" and ?ids = "map fresh [0..<length (pf_stack profile)]"
  obtain g s' where g: "build_from_profile X find_module cfg fresh ks profile s = Ret (Inr g, s')"
      "wf_graph g" "dom (fg_nodes g) = fresh ` {..<?n}" "map edge_sig (fg_edges g) = chain_sigs ?ids"
      "\<forall>j < ?n. (fresh j \<in> set (fg_entry_points g) \<longleftrightarrow>
          j = 0 \<or> op_node_type (x_node X) (arc_value (mods (pf_stack profile ! j))) = Source) \<and>
       (fresh j \<in> set (fg_exit_points g) \<longleftrightarrow>
          Suc j = ?n \<or> op_node_type (x_node X) (arc_value (mods (pf_stack profile ! j))) = Sink)"
    using build_from_profile_result [OF assms, of cfg s] by (elim exE conjE) (rule that)
  have "record_graph_depth g r = Ret (set_runtime_gauge ''graph_depth'' (i64_of_usize (length ?ids)) r)"
  proof (rule chain_depth [OF g(2) _ _ g(4)])
    show "dom (fg_nodes g) = set ?ids" "distinct ?ids"
      using g(3) assms(3) by (simp_all add: distinct_map atLeast0LessThan)
    show "hd ?ids \<in> set (fg_entry_points g)" "last ?ids \<in> set (fg_exit_points g)" if "?ids \<noteq> []"
      using that g(5) by (simp_all add: hd_map last_map)
  qed
  with g(1) show ?thesis
    by (auto simp: registry_get_gauge_def set_runtime_gauge_def RUNTIME_METRICS_SCOPE_def gauge_set_def
        registry_gauge_def or_insert_apply Let_def split: option.splits)
qed

end
