(* ===== verification/Pipeline.thy ===== *)
theory Pipeline
  imports Observability
begin

text \<open>
  Profiles and execution together: a packet that enters the graph built from a profile goes through
  the modules of the stack, one after the other. \<open>run_stack\<close> is this pipeline without a graph; the
  execution of the built graph refines it.
\<close>

definition over_payload :: "'v module_metadata \<Rightarrow> packet \<Rightarrow> bool" where
  "over_payload md p \<longleftrightarrow>
     (\<exists>limit. rl_max_payload_bytes (mm_resource_limits md) = Some limit \<and> limit < u64_of_usize (packet_len p))"

definition over_time :: "'v module_metadata \<Rightarrow> duration \<Rightarrow> bool" where
  "over_time md d \<longleftrightarrow> (\<exists>limit. rl_max_processing_time (mm_resource_limits md) = Some limit \<and> limit < d)"

text \<open>
  The stack is a list of nodes' identifiers, which the trace of a packet records, and modules.
  A module that fails or absorbs the packet ends the run; so does one of type sink, whose packet
  comes out, and the last one.
\<close>

definition stack_process ::
    "('v, 'm, 'ctx) node_ops \<Rightarrow> packet \<Rightarrow> 'm arc \<Rightarrow> (module_error + packet option) outcome \<times> 'm" where
  "stack_process N p a =
     (if arc_owners a = 1 then op_process N p (arc_value a)
      else (Ret (Inl (NotExclusivelyOwned (mm_name (op_metadata N (arc_value a))))), arc_value a))"

fun run_stack ::
    "('v, 'm, 'ctx) node_ops \<Rightarrow> run_env \<Rightarrow> nat \<Rightarrow> (node_id \<times> 'm arc) list \<Rightarrow> packet \<Rightarrow>
     (module_error + packet option) outcome" where
  "run_stack N env k [] p = Ret (Inr (Some p))"
| "run_stack N env k ((i, a) # rest) p =
     (if over_payload (op_metadata N (arc_value a)) p
      then Ret (Inl (QuotaExceeded (mm_name (op_metadata N (arc_value a))) ''payload_size''))
      else case stack_process N (packet_update_metadata (record_hop (ev_hop_now env k) i) p) a of
             (out, m) \<Rightarrow> obind out (\<lambda>r.
               if over_time (op_metadata N m) (ev_hop_elapsed env k)
               then Ret (Inl (QuotaExceeded (mm_name (op_metadata N m)) ''processing_time''))
               else case r of
                      Inl e \<Rightarrow> Ret (Inl e)
                    | Inr None \<Rightarrow> Ret (Inr None)
                    | Inr (Some q) \<Rightarrow>
                        if op_node_type N (arc_value a) = Sink then Ret (Inr (Some q))
                        else run_stack N env (Suc k) rest q))"

definition exec_result :: "module_error + 'a \<Rightarrow> execution_error + 'a" where
  "exec_result r = (case r of Inl e \<Rightarrow> Inl (ExecModule e) | Inr x \<Rightarrow> Inr x)"

subsection \<open>One node of a chain\<close>

lemma edges_from_sigs:
  "map edge_sig (fg_edges_from i g) = filter (\<lambda>(a, _). a = i) (map edge_sig (fg_edges g))"
  by (simp add: fg_edges_from_def filter_map o_def edge_sig_def)

lemma chain_sigs_from:
  "distinct ids \<Longrightarrow> Suc k < length ids \<Longrightarrow>
   filter (\<lambda>(a, _). a = ids ! k) (chain_sigs ids) = [(ids ! k, ids ! Suc k, Sequential, None)]"
proof (induction ids arbitrary: k)
  case (Cons a ids)
  then obtain b rest where ids: "ids = b # rest"
    by (cases ids) auto
  have sigs: "chain_sigs (a # ids) = (a, b, Sequential, None) # chain_sigs ids"
    by (simp add: chain_sigs_def ids)
  show ?case
  proof (cases k)
    case 0
    have "filter (\<lambda>(x, _). x = a) (chain_sigs ids) = []"
      using Cons.prems(1) by (auto simp: filter_empty_conv chain_sigs_def dest: set_zip_leftD)
    with 0 ids sigs show ?thesis by simp
  next
    case (Suc j)
    with Cons.prems have "a \<noteq> ids ! j"
      by (metis Suc_lessD Suc_less_eq distinct.simps(2) length_Cons nth_mem)
    with Suc Cons sigs show ?thesis by simp
  qed
qed simp

lemma chain_next:
  assumes "distinct ids" "Suc k < length ids" "map edge_sig (fg_edges g) = chain_sigs ids"
  shows "\<exists>e. find (\<lambda>e. edge_accepts e p) (fg_edges_from (ids ! k) g) = Some e \<and> ed_to e = ids ! Suc k"
proof -
  have "map edge_sig (fg_edges_from (ids ! k) g) = [(ids ! k, ids ! Suc k, Sequential, None)]"
    using chain_sigs_from [OF assms(1,2)] by (simp add: edges_from_sigs assms(3))
  then obtain e where "fg_edges_from (ids ! k) g = [e]" "edge_sig e = (ids ! k, ids ! Suc k, Sequential, None)"
    by (auto simp: map_eq_Cons_conv)
  then show ?thesis
    by (auto simp: edge_sig_def edge_accepts_def)
qed

lemma payload_limit:
  "check_payload_limit X node p =
     (if over_payload (gn_metadata X node) p
      then Inl (ExecModule (QuotaExceeded (mm_name (gn_metadata X node)) ''payload_size'')) else Inr ())"
  by (simp add: check_payload_limit_def over_payload_def Let_def split: option.split)

lemma time_limit:
  "record_and_check_processing_time X node d =
     (if over_time (gn_metadata X node) d
      then Inl (ExecModule (QuotaExceeded (mm_name (gn_metadata X node)) ''processing_time'')) else Inr ())"
  by (simp add: record_and_check_processing_time_def over_time_def Let_def split: option.split)

lemma gn_write_same: "gn_write_module (arc_value (gn_module node)) node = node"
  by (cases node) (simp add: gn_write_module_def)

lemma gn_process_stack:
  assumes "stack_process (x_node X) p (gn_module node) = (out, m)"
  shows "gn_process X p node = (out, gn_write_module m node)"
  using assms
  by (auto simp: stack_process_def gn_process_def arc_get_mut_def gn_name_def gn_metadata_def gn_write_same
      Let_def split: if_splits prod.splits)

context packet_channels
begin

lemma stack_hop:
  assumes "x_mpsc X = ops" "fg_nodes g i = Some node" "idle_node queued bound rx_open tx_open node"
    and out: "stack_process (x_node X) (packet_update_metadata (record_hop (ev_hop_now env n) i) p) (gn_module node) =
      (out, m)"
    and fits: "\<not> over_payload (op_metadata (x_node X) (arc_value (gn_module node))) p"
  shows "\<exists>node2. gn_metadata X node2 = op_metadata (x_node X) m \<and>
    sequential_hop X env metrics n i p g s =
      obind out (\<lambda>r. Ret (hop_outcome X (ev_hop_elapsed env n) i node2 r (fg_write_node i node2 g),
        fg_write_node i node2 g, record_node_metrics X metrics node2 (ev_hop_elapsed env n) (\<not> isl r) s))"
proof -
  let ?p = "packet_update_metadata (record_hop (ev_hop_now env n) i) p"
  from enqueue_idle [OF assms(1,3), of ?p] obtain q where
    q: "enqueue_and_dequeue_sync X ?p node = (Ret (Inr ?p), node\<lparr>gn_queue := q\<rparr>)"
    by blast
  have "gn_process X ?p (node\<lparr>gn_queue := q\<rparr>) = (out, gn_write_module m (node\<lparr>gn_queue := q\<rparr>))"
    using out by (intro gn_process_stack) simp
  with assms(2) q fits have "sequential_hop X env metrics n i p g s =
      obind out (\<lambda>r. Ret (hop_outcome X (ev_hop_elapsed env n) i (gn_write_module m (node\<lparr>gn_queue := q\<rparr>)) r
          (fg_write_node i (gn_write_module m (node\<lparr>gn_queue := q\<rparr>)) g),
        fg_write_node i (gn_write_module m (node\<lparr>gn_queue := q\<rparr>)) g,
        record_node_metrics X metrics (gn_write_module m (node\<lparr>gn_queue := q\<rparr>)) (ev_hop_elapsed env n) (\<not> isl r) s))"
    by (simp add: sequential_hop_def payload_limit gn_metadata_def Let_def outcome_simps)
  moreover have "gn_metadata X (gn_write_module m (node\<lparr>gn_queue := q\<rparr>)) = op_metadata (x_node X) m"
    by (simp add: gn_metadata_def gn_write_module_def)
  ultimately show ?thesis by blast
qed

end

subsection \<open>The run is the pipeline\<close>

definition on_chain ::
    "(('m, 'c, 'cfg) graph_node \<Rightarrow> bool) \<Rightarrow> ('v, 'm, 'ctx) node_ops \<Rightarrow> node_id list \<Rightarrow> 'm arc list \<Rightarrow> nat \<Rightarrow>
     ('m, 'c, 'cfg) flow_graph \<Rightarrow> bool" where
  "on_chain idle N ids arcs k g \<longleftrightarrow>
     map edge_sig (fg_edges g) = chain_sigs ids \<and>
     (\<forall>j < length ids. ids ! j \<in> set (fg_exit_points g) \<longleftrightarrow>
        Suc j = length ids \<or> op_node_type N (arc_value (arcs ! j)) = Sink) \<and>
     (\<forall>j < length ids. k \<le> j \<longrightarrow>
        (\<exists>node. fg_nodes g (ids ! j) = Some node \<and> gn_module node = arcs ! j \<and> idle node))"

lemma on_chain_write:
  assumes "on_chain idle N ids arcs k g" "distinct ids" "k < length ids"
  shows "on_chain idle N ids arcs (Suc k) (fg_write_node (ids ! k) node g)"
  using assms by (auto simp: on_chain_def fg_write_node_def nth_eq_iff_index_eq)

abbreviation run_result :: "('r \<times> 'a) outcome \<Rightarrow> 'r outcome" where
  "run_result \<equiv> map_outcome fst"

lemma pipeline_loop:
  assumes chans: "packet_channels (x_mpsc X) queued bound rx_open tx_open"
    and dist: "distinct ids" and len: "length arcs = length ids"
  shows "k < length ids \<Longrightarrow> length ids - k \<le> fuel \<Longrightarrow>
    on_chain (idle_node queued bound rx_open tx_open) (x_node X) ids arcs k g \<Longrightarrow>
    run_result (sequential_loop X env metrics fuel n (ids ! k) p g s) =
    map_outcome exec_result (run_stack (x_node X) env n (drop k (zip ids arcs)) p)"
proof (induction fuel arbitrary: k n p g s)
  case 0
  then show ?case by simp
next
  case (Suc fuel)
  let ?N = "x_node X" and ?i = "ids ! k" and ?a = "arcs ! k"
  have drop: "drop k (zip ids arcs) = (?i, ?a) # drop (Suc k) (zip ids arcs)"
    using Suc.prems(1) len by (simp add: Cons_nth_drop_Suc [symmetric])
  from Suc.prems(1,3) obtain node where node: "fg_nodes g ?i = Some node" "gn_module node = ?a"
      "idle_node queued bound rx_open tx_open node"
    by (auto simp: on_chain_def)
  show ?case
  proof (cases "over_payload (op_metadata ?N (arc_value ?a)) p")
    case True
    with node show ?thesis
      by (simp add: drop sequential_hop_def payload_limit gn_metadata_def exec_result_def outcome_simps)
  next
    case False
    obtain out m where out: "stack_process ?N (packet_update_metadata (record_hop (ev_hop_now env n) ?i) p) ?a = (out, m)"
      by fastforce
    obtain node2 where node2: "gn_metadata X node2 = op_metadata ?N m"
        "sequential_hop X env metrics n ?i p g s =
          obind out (\<lambda>r. Ret (hop_outcome X (ev_hop_elapsed env n) ?i node2 r (fg_write_node ?i node2 g),
            fg_write_node ?i node2 g, record_node_metrics X metrics node2 (ev_hop_elapsed env n) (\<not> isl r) s))"
      using packet_channels.stack_hop [OF chans refl node(1,3), of env n p out m metrics s] out False node(2) by auto
    let ?g = "fg_write_node ?i node2 g"
    have chain: "on_chain (idle_node queued bound rx_open tx_open) ?N ids arcs (Suc k) ?g"
      by (rule on_chain_write [OF Suc.prems(3) dist Suc.prems(1)])
    have exit: "?i \<in> set (fg_exit_points ?g) \<longleftrightarrow> Suc k = length ids \<or> op_node_type ?N (arc_value ?a) = Sink"
      using chain Suc.prems(1) unfolding on_chain_def by blast
    show ?thesis
    proof (cases out)
      case (Ret r)
      let ?s = "record_node_metrics X metrics node2 (ev_hop_elapsed env n) (\<not> isl r) s"
      let ?h = "hop_outcome X (ev_hop_elapsed env n) ?i node2 r ?g"
      have loop: "sequential_loop X env metrics (Suc fuel) n ?i p g s =
          (case ?h of HopDone r \<Rightarrow> Ret (r, ?g, ?s)
           | HopNext next p' \<Rightarrow> sequential_loop X env metrics fuel (Suc n) next p' ?g ?s)"
        using node2(2) Ret by (simp add: outcome_simps)
      show ?thesis
      proof (cases "over_time (op_metadata ?N m) (ev_hop_elapsed env n)")
        case True
        then have "?h = HopDone (Inl (ExecModule (QuotaExceeded (mm_name (op_metadata ?N m)) ''processing_time'')))"
          using node2(1) by (simp add: hop_outcome_def time_limit)
        with True show ?thesis
          unfolding loop drop using out Ret False by (simp add: exec_result_def outcome_simps)
      next
        case in_time: False
        then have ok: "record_and_check_processing_time X node2 (ev_hop_elapsed env n) = Inr ()"
          using node2(1) by (simp add: time_limit)
        show ?thesis
        proof (cases "\<exists>q. r = Inr (Some q)")
          case False
          then have "?h = HopDone (exec_result r)"
            using ok by (cases r) (auto simp: hop_outcome_def exec_result_def split: option.splits)
          with False in_time show ?thesis
            unfolding loop drop using out Ret \<open>\<not> over_payload _ _\<close>
            by (auto simp: exec_result_def outcome_simps split: sum.splits option.splits)
        next
          case True
          then obtain q where r: "r = Inr (Some q)" ..
          have stack: "run_stack ?N env n (drop k (zip ids arcs)) p =
              (if op_node_type ?N (arc_value ?a) = Sink then Ret (Inr (Some q))
               else run_stack ?N env (Suc n) (drop (Suc k) (zip ids arcs)) q)"
            unfolding drop using out Ret r in_time False by (simp add: outcome_simps)
          show ?thesis
          proof (cases "?i \<in> set (fg_exit_points ?g)")
            case True
            then have "?h = HopDone (Inr (Some q))"
              using ok r by (simp add: hop_outcome_def)
            moreover have "run_stack ?N env n (drop k (zip ids arcs)) p = Ret (Inr (Some q))"
              using True exit len unfolding stack by auto
            ultimately show ?thesis
              unfolding loop by (simp add: exec_result_def)
          next
            case inside: False
            then have next_k: "Suc k < length ids" "op_node_type ?N (arc_value ?a) \<noteq> Sink"
              using exit Suc.prems(1) by auto
            obtain e where "find (\<lambda>e. edge_accepts e q) (fg_edges_from ?i ?g) = Some e" "ed_to e = ids ! Suc k"
              using chain_next [OF dist next_k(1), of ?g q] chain unfolding on_chain_def by blast
            then have "?h = HopNext (ids ! Suc k) q"
              using ok r inside by (simp add: hop_outcome_def)
            then show ?thesis
              unfolding loop stack using Suc.IH [OF next_k(1) _ chain, of "Suc n" q ?s] Suc.prems(2) next_k
              by simp
          qed
        qed
      qed
    next
      case (Panic msg)
      then show ?thesis
        unfolding drop using out False node2(2) by (simp add: outcome_simps)
    next
      case NoFuel
      then show ?thesis
        unfolding drop using out False node2(2) by (simp add: outcome_simps)
    qed
  qed
qed

lemma run_result_obind: "run_result (obind m (\<lambda>x. Ret (fst x, h x))) = run_result m"
  by (cases m) simp_all

lemma execute_result:
  assumes "entry \<in> set (fg_entry_points g)"
  shows "\<exists>s'. run_result (execute_sequential X env fuel g entry p metrics throughput s) =
    run_result (sequential_loop X env metrics fuel 0 entry p g s')"
  using assms by (simp add: execute_sequential_def execute_sequential_inner_def Let_def split_def run_result_obind) blast

lemma new_node_idle:
  assumes "packet_channels C queued bound rx_open tx_open" "node_queue_new C DEFAULT_QUEUE_CAPACITY = Ret (gn_queue node)"
  shows "idle_node queued bound rx_open tx_open node"
  using packet_channels.node_queue_new_ok [OF assms(1) default_capacity_ok] assms(2) default_capacity_ok(1)
  by (auto simp: idle_node_def)

text \<open>The graph of a profile is such a chain, and the first node is an entry point.\<close>

lemma profile_on_chain:
  fixes profile fresh mods
  defines "ids \<equiv> map fresh [0..<length (pf_stack profile)]" and "arcs \<equiv> map mods (pf_stack profile)"
  assumes "packet_channels (x_mpsc X) queued bound rx_open tx_open"
    and "\<forall>name \<in> set (pf_stack profile). \<forall>t. fst (find_module name t) = Some (mods name)"
    and "inj_on fresh {..<length (pf_stack profile)}" "distinct ks" "set ks = fresh ` {..<length (pf_stack profile)}"
    and "pf_stack profile \<noteq> []"
  obtains g s' where "build_from_profile X find_module cfg fresh ks profile s = Ret (Inr g, s')"
    "on_chain (idle_node queued bound rx_open tx_open) (x_node X) ids arcs 0 g" "fresh 0 \<in> set (fg_entry_points g)"
proof -
  let ?n = "length (pf_stack profile)"
  obtain g s' where g: "build_from_profile X find_module cfg fresh ks profile s = Ret (Inr g, s')"
    and nodes: "\<forall>j < ?n. \<exists>node. fg_nodes g (fresh j) = Some node \<and> gn_module node = mods (pf_stack profile ! j) \<and>
       node_queue_new (x_mpsc X) DEFAULT_QUEUE_CAPACITY = Ret (gn_queue node)"
    and sigs: "map edge_sig (fg_edges g) = chain_sigs (map fresh [0..<?n])"
    and ends: "\<forall>j < ?n.
       (fresh j \<in> set (fg_entry_points g) \<longleftrightarrow>
          j = 0 \<or> op_node_type (x_node X) (arc_value (mods (pf_stack profile ! j))) = Source) \<and>
       (fresh j \<in> set (fg_exit_points g) \<longleftrightarrow>
          Suc j = ?n \<or> op_node_type (x_node X) (arc_value (mods (pf_stack profile ! j))) = Sink)"
    using build_from_profile_result [OF assms(3-7), of cfg s] by (elim exE conjE) (rule that)
  have idle: "\<forall>j < ?n. \<exists>node. fg_nodes g (fresh j) = Some node \<and> gn_module node = mods (pf_stack profile ! j) \<and>
      idle_node queued bound rx_open tx_open node"
    using nodes new_node_idle [OF assms(3)] by blast
  show thesis
  proof (rule that [OF g])
    show "on_chain (idle_node queued bound rx_open tx_open) (x_node X) ids arcs 0 g"
      unfolding on_chain_def
      using sigs ends idle by (simp add: ids_def arcs_def)
    show "fresh 0 \<in> set (fg_entry_points g)"
      using ends assms(8) by auto
  qed
qed

text \<open>
  C2. Running a packet through the graph built from a profile is running it through the stack: each
  module gets what the one before made of it, with the hop recorded, until one fails, absorbs the
  packet or is a sink, or the stack ends; the errors, the limits on payload and time included, are
  those of the module that raised them, and a panic is its panic. One unit of fuel per module is
  enough.
\<close>

theorem profile_pipeline:
  assumes "packet_channels (x_mpsc X) queued bound rx_open tx_open"
    and "\<forall>name \<in> set (pf_stack profile). \<forall>t. fst (find_module name t) = Some (mods name)"
    and "inj_on fresh {..<length (pf_stack profile)}" "distinct ks" "set ks = fresh ` {..<length (pf_stack profile)}"
    and "pf_stack profile \<noteq> []" "length (pf_stack profile) \<le> fuel"
  shows "\<exists>g s'. build_from_profile X find_module cfg fresh ks profile s = Ret (Inr g, s') \<and>
    map_outcome fst (execute_sequential X env fuel g (fresh 0) p metrics throughput regs) =
    map_outcome exec_result (run_stack (x_node X) env 0
      (map (\<lambda>j. (fresh j, mods (pf_stack profile ! j))) [0..<length (pf_stack profile)]) p)"
proof -
  let ?n = "length (pf_stack profile)" and ?ids = "map fresh [0..<length (pf_stack profile)]"
    and ?arcs = "map mods (pf_stack profile)"
  have n: "0 < ?n" using assms(6) by simp
  obtain g s' where g: "build_from_profile X find_module cfg fresh ks profile s = Ret (Inr g, s')"
    and chain: "on_chain (idle_node queued bound rx_open tx_open) (x_node X) ?ids ?arcs 0 g"
    and entry: "fresh 0 \<in> set (fg_entry_points g)"
    by (rule profile_on_chain [where cfg = cfg and s = s, OF assms(1-6)])
  from execute_result [OF entry, of X env fuel p metrics throughput regs] obtain regs' where
    "run_result (execute_sequential X env fuel g (fresh 0) p metrics throughput regs) =
     run_result (sequential_loop X env metrics fuel 0 (?ids ! 0) p g regs')"
    using n by auto
  moreover have "drop 0 (zip ?ids ?arcs) = map (\<lambda>j. (fresh j, mods (pf_stack profile ! j))) [0..<?n]"
    by (rule nth_equalityI) simp_all
  moreover have "distinct ?ids"
    using assms(3) by (simp add: distinct_map atLeast0LessThan)
  ultimately show ?thesis
    using pipeline_loop [OF assms(1), of ?ids ?arcs 0 fuel g env metrics 0 p regs'] chain n assms(7) g by auto
qed

end
