(* ===== verification/Builder_Samples.thy ===== *)
theory Builder_Samples
  imports Pipeline Graph_Samples
begin

text \<open>
  A profile with a stack of two modules, built on the sample runtime, and the export of the sample
  graph.
\<close>

definition sample_profile :: "unit profile_config" where
  "sample_profile = \<lparr>pf_name = ''two'', pf_description = [], pf_stack = [''first'', ''second''], pf_policy = (\<lambda>_. None)\<rparr>"

definition sample_lookup :: "string \<Rightarrow> unit \<Rightarrow> string arc option \<times> unit" where
  "sample_lookup name s = (Some \<lparr>arc_ptr = length name, arc_value = name, arc_owners = 1\<rparr>, s)"

definition sample_ids :: "nat \<Rightarrow> node_id" where
  "sample_ids k = (if k = 0 then n1 else n2)"

lemma sample_stack:
  "\<forall>name \<in> set (pf_stack sample_profile). \<forall>t. fst (sample_lookup name t) =
      Some \<lparr>arc_ptr = length name, arc_value = name, arc_owners = 1\<rparr>"
  "inj_on sample_ids {..<length (pf_stack sample_profile)}" "distinct [n2, n1]"
  "set [n2, n1] = sample_ids ` {..<length (pf_stack sample_profile)}"
  by (auto simp: sample_lookup_def sample_profile_def sample_ids_def inj_on_def less_Suc_eq image_iff Bex_def)

theorem build_from_profile_witness:
  "\<exists>g s'. build_from_profile sample_ext sample_lookup () sample_ids [n2, n1] sample_profile () = Ret (Inr g, s') \<and>
     valid_graph g \<and> map edge_sig (fg_edges g) = [(n1, n2, Sequential, None)] \<and>
     n1 \<in> set (fg_entry_points g) \<and> n2 \<notin> set (fg_entry_points g)"
proof -
  obtain g s' where g: "build_from_profile sample_ext sample_lookup () sample_ids [n2, n1] sample_profile () = Ret (Inr g, s')"
      "valid_graph g"
      "map edge_sig (fg_edges g) =
         map (\<lambda>j. (sample_ids j, sample_ids (Suc j), Sequential, None)) [0..<length (pf_stack sample_profile) - 1]"
      "\<forall>j < length (pf_stack sample_profile). sample_ids j \<in> set (fg_entry_points g) \<longleftrightarrow> j = 0 \<or>
         op_node_type (x_node sample_ext)
           (arc_value \<lparr>arc_ptr = length (pf_stack sample_profile ! j), arc_value = pf_stack sample_profile ! j,
              arc_owners = 1\<rparr>) = Source"
    using build_from_profile_chain [OF sample_channels sample_stack, of "()" "()"] by blast
  moreover have "sample_ids 1 \<notin> set (fg_entry_points g)" "sample_ids 0 \<in> set (fg_entry_points g)"
    using g(4) [rule_format, of 0] g(4) [rule_format, of 1]
    by (simp_all add: sample_profile_def sample_ext_def sample_module_def)
  ultimately show ?thesis
    by (auto simp: sample_ids_def sample_profile_def)
qed

theorem profile_graph_depth_witness:
  "\<exists>g s' r'. build_from_profile sample_ext sample_lookup () sample_ids [n2, n1] sample_profile () = Ret (Inr g, s') \<and>
     record_graph_depth g (registry_new :: nat metric_registry) = Ret r' \<and>
     registry_get_gauge ''runtime'' ''graph_depth'' r' = Some 2"
  using profile_graph_depth [OF sample_channels sample_stack, of "()" "()" "registry_new :: nat metric_registry"]
  by (simp add: sample_profile_def i64_of_usize_def)

theorem export_graph_witness:
  "map ne_is_entry (ge_nodes (export_graph sample_ext [n2, n1] sample_graph (None :: nat metric_registry option))) =
     [False, True] \<and>
   size (mset (ge_edges (export_graph sample_ext [n2, n1] sample_graph (None :: nat metric_registry option)))) = 1"
proof -
  have "is_order [n2, n1] (fg_nodes sample_graph)"
    using sample_order by (auto simp: is_order_def)
  from export_graph_complete [OF sample_wf this, of sample_ext "None :: nat metric_registry option"] show ?thesis
    by (simp add: sample_fields node_export_of_def Let_def)
qed

lemma sample_stack_run:
  "run_stack (x_node sample_ext) sample_env 0 [(n1, \<lparr>arc_ptr = 5, arc_value = ''first'', arc_owners = 1\<rparr>),
     (n2, \<lparr>arc_ptr = 6, arc_value = ''second'', arc_owners = 1\<rparr>)] sample_packet =
   Ret (Inr (Some (packet_update_metadata (record_hop 0 n2) (packet_update_metadata (record_hop 0 n1) sample_packet))))"
  by (simp add: stack_process_def over_payload_def over_time_def sample_ext_def sample_module_def sample_metadata_def
      module_metadata_new_def limits_unbounded_def sample_env_def outcome_simps)

theorem profile_pipeline_witness:
  "\<exists>g s'. build_from_profile sample_ext sample_lookup () sample_ids [n2, n1] sample_profile () = Ret (Inr g, s') \<and>
     map_outcome fst (execute_sequential sample_ext sample_env 2 g n1 sample_packet None None (\<lambda>_. registry_new)) =
     Ret (Inr (Some (packet_update_metadata (record_hop 0 n2)
       (packet_update_metadata (record_hop 0 n1) sample_packet))))"
proof -
  have "sample_ids 0 = n1" "pf_stack sample_profile \<noteq> []" "length (pf_stack sample_profile) \<le> 2"
      "map (\<lambda>j. (sample_ids j, \<lparr>arc_ptr = length (pf_stack sample_profile ! j),
         arc_value = pf_stack sample_profile ! j, arc_owners = 1\<rparr>)) [0..<length (pf_stack sample_profile)] =
       [(n1, \<lparr>arc_ptr = 5, arc_value = ''first'', arc_owners = 1\<rparr>),
        (n2, \<lparr>arc_ptr = 6, arc_value = ''second'', arc_owners = 1\<rparr>)]"
    by (simp_all add: sample_ids_def sample_profile_def upt_rec numeral_2_eq_2)
  with profile_pipeline [OF sample_channels sample_stack this(2,3), of "()" "()" sample_env sample_packet None None
      "\<lambda>_. registry_new"] show ?thesis
    by (simp only: sample_stack_run) (simp add: exec_result_def)
qed

end
