(* ===== verification/Packet_Store.thy ===== *)
theory Packet_Store
  imports Packets
begin

text \<open>
  Packets as the code has them (\<open>crates/nyarix-packet/src/packet.rs\<close>): a \<open>Packet\<close> is an \<open>Arc\<close>
  to a \<open>PacketInner\<close>, cloning shares it, and \<open>Arc::make_mut\<close> copies it before a write when it is
  shared. Here memory is explicit. That every other theory may treat a packet as a value is the
  refinement at the end.
\<close>

subsection \<open>Cells\<close>

text \<open>
  A cell of the heap holds the strong count and the \<open>PacketInner\<close>; there are no weak references.
  \<open>ps_owners\<close> are the variables that hold a \<open>Packet\<close>, \<open>ps_log\<close> the tracing events.
\<close>

datatype packet_log = LogCreated packet_id | LogCloned packet_id | LogDropped packet_id

record packet_store =
  ps_owners :: "nat \<rightharpoonup> nat"
  ps_cells :: "nat \<rightharpoonup> nat \<times> packet"
  ps_next :: nat
  ps_log :: "packet_log list"

definition store_empty :: packet_store where
  "store_empty = \<lparr>ps_owners = Map.empty, ps_cells = Map.empty, ps_next = 0, ps_log = []\<rparr>"

definition cell_value :: "packet_store \<Rightarrow> nat \<Rightarrow> packet option" where
  "cell_value s a = map_option snd (ps_cells s a)"

definition cell_count :: "packet_store \<Rightarrow> nat \<Rightarrow> nat" where
  "cell_count s a = (case ps_cells s a of None \<Rightarrow> 0 | Some (n, p) \<Rightarrow> n)"

definition arc_new :: "packet \<Rightarrow> packet_store \<Rightarrow> nat \<times> packet_store" where
  "arc_new p s =
     (ps_next s, s\<lparr>ps_cells := (ps_cells s)(ps_next s \<mapsto> (1, p)), ps_next := Suc (ps_next s)\<rparr>)"

definition arc_clone :: "nat \<Rightarrow> packet_store \<Rightarrow> nat \<times> packet_store" where
  "arc_clone a s =
     (a, case ps_cells s a of
           None \<Rightarrow> s
         | Some (n, p) \<Rightarrow> s\<lparr>ps_cells := (ps_cells s)(a \<mapsto> (Suc n, p))\<rparr>)"

text \<open>Dropping a handle; the last one drops the \<open>PacketInner\<close>, which is logged.\<close>

definition packet_drop :: "nat \<Rightarrow> packet_store \<Rightarrow> packet_store" where
  "packet_drop a s =
     (case ps_cells s a of
        None \<Rightarrow> s
      | Some (n, p) \<Rightarrow>
          if n \<le> 1
          then s\<lparr>ps_cells := (ps_cells s)(a := None), ps_log := ps_log s @ [LogDropped (pk_id p)]\<rparr>
          else s\<lparr>ps_cells := (ps_cells s)(a \<mapsto> (n - 1, p))\<rparr>)"

definition inner_clone :: "packet \<Rightarrow> packet" where
  "inner_clone p =
     \<lparr>pk_id = pk_id p, pk_payload = pk_payload p, pk_metadata = pk_metadata p, pk_tags = pk_tags p\<rparr>"

definition arc_make_mut :: "nat \<Rightarrow> packet_store \<Rightarrow> nat \<times> packet_store" where
  "arc_make_mut a s =
     (case ps_cells s a of
        None \<Rightarrow> (a, s)
      | Some (n, p) \<Rightarrow>
          if n = 1 then (a, s)
          else (let (b, s1) = arc_new (inner_clone p) s in (b, packet_drop a s1)))"

text \<open>A write through \<open>make_mut\<close>: the result, the handle afterwards and the store.\<close>

definition packet_write ::
    "(packet \<Rightarrow> 'r \<times> packet) \<Rightarrow> nat \<Rightarrow> packet_store \<Rightarrow> 'r option \<times> nat \<times> packet_store" where
  "packet_write f a s =
     (let (b, s1) = arc_make_mut a s
      in case ps_cells s1 b of
           None \<Rightarrow> (None, b, s1)
         | Some (n, p) \<Rightarrow>
             (let (r, p') = f p in (Some r, b, s1\<lparr>ps_cells := (ps_cells s1)(b \<mapsto> (n, p'))\<rparr>)))"

subsection \<open>Methods\<close>

definition from_inner :: "packet \<Rightarrow> packet_store \<Rightarrow> nat \<times> packet_store" where
  "from_inner p s = arc_new p (s\<lparr>ps_log := ps_log s @ [LogCreated (pk_id p)]\<rparr>)"

definition store_new :: "fresh \<Rightarrow> payload \<Rightarrow> packet_store \<Rightarrow> nat \<times> packet_store" where
  "store_new f pl s = from_inner (packet_new f pl) s"

definition store_with_metadata :: "fresh \<Rightarrow> payload \<Rightarrow> metadata \<Rightarrow> packet_store \<Rightarrow> nat \<times> packet_store" where
  "store_with_metadata f pl m s = from_inner (packet_with_metadata f pl m) s"

definition store_clone :: "nat \<Rightarrow> packet_store \<Rightarrow> nat \<times> packet_store" where
  "store_clone a s =
     (case cell_value s a of
        None \<Rightarrow> arc_clone a s
      | Some p \<Rightarrow> arc_clone a (s\<lparr>ps_log := ps_log s @ [LogCloned (pk_id p)]\<rparr>))"

definition store_reset_id :: "packet_id \<Rightarrow> nat \<Rightarrow> packet_store \<Rightarrow> unit option \<times> nat \<times> packet_store" where
  "store_reset_id i = packet_write (\<lambda>p. ((), p\<lparr>pk_id := i\<rparr>))"

definition store_set_payload :: "payload \<Rightarrow> nat \<Rightarrow> packet_store \<Rightarrow> unit option \<times> nat \<times> packet_store" where
  "store_set_payload pl = packet_write (\<lambda>p. ((), p\<lparr>pk_payload := pl\<rparr>))"

definition store_take_payload :: "nat \<Rightarrow> packet_store \<Rightarrow> payload option \<times> nat \<times> packet_store" where
  "store_take_payload = packet_write (\<lambda>p. (pk_payload p, p\<lparr>pk_payload := payload_empty\<rparr>))"

definition store_take_bytes :: "nat \<Rightarrow> packet_store \<Rightarrow> bytes option \<times> nat \<times> packet_store" where
  "store_take_bytes =
     packet_write (\<lambda>p. (payload_into_bytes (pk_payload p), p\<lparr>pk_payload := payload_empty\<rparr>))"

definition store_tags_mut ::
    "(tags \<Rightarrow> tags) \<Rightarrow> nat \<Rightarrow> packet_store \<Rightarrow> unit option \<times> nat \<times> packet_store" where
  "store_tags_mut g = packet_write (\<lambda>p. ((), p\<lparr>pk_tags := g (pk_tags p)\<rparr>))"

definition store_tag :: "tag \<Rightarrow> nat \<Rightarrow> packet_store \<Rightarrow> unit option \<times> nat \<times> packet_store" where
  "store_tag t = store_tags_mut (insert_tag t)"

text \<open>\<open>metadata_mut\<close> writes the metadata back to itself before it lends them to \<open>g\<close>.\<close>

definition store_metadata_mut ::
    "(metadata \<Rightarrow> 'r \<times> metadata) \<Rightarrow> nat \<Rightarrow> packet_store \<Rightarrow> 'r option \<times> nat \<times> packet_store" where
  "store_metadata_mut g a s =
     (let old = map_option pk_metadata (cell_value s a);
          (_, b, s1) = packet_write (\<lambda>p. ((), case old of None \<Rightarrow> p | Some m \<Rightarrow> p\<lparr>pk_metadata := m\<rparr>)) a s
      in packet_write (\<lambda>p. let (r, m) = g (pk_metadata p) in (r, p\<lparr>pk_metadata := m\<rparr>)) b s1)"

definition store_decrement_ttl :: "nat \<Rightarrow> packet_store \<Rightarrow> bool option \<times> nat \<times> packet_store" where
  "store_decrement_ttl =
     store_metadata_mut (\<lambda>m.
       if md_ttl m = 0 then (False, m)
       else (let m' = m\<lparr>md_ttl := md_ttl m - 1\<rparr> in (0 < md_ttl m', m')))"

definition packet_eq :: "packet \<Rightarrow> packet \<Rightarrow> bool" where
  "packet_eq p q \<longleftrightarrow>
     pk_id p = pk_id q \<and> pk_payload p = pk_payload q \<and> pk_metadata p = pk_metadata q \<and> pk_tags p = pk_tags q"

subsection \<open>Programs\<close>

text \<open>
  What code can do with the packets its variables hold. A variable that is assigned drops the
  packet it held; a moved one holds none. The answer of a command on a variable without a packet,
  which the compiler rejects, is \<open>None\<close>.
\<close>

datatype packet_cmd =
    CmdNew nat fresh payload
  | CmdWithMetadata nat fresh payload metadata
  | CmdClone nat nat
  | CmdMove nat nat
  | CmdDrop nat
  | CmdResetId nat packet_id
  | CmdSetPayload nat payload
  | CmdTakePayload nat
  | CmdTakeBytes nat
  | CmdTag nat tag
  | CmdUpdateMetadata nat "metadata \<Rightarrow> metadata"
  | CmdDecrementTtl nat
  | CmdRead nat
  | CmdEq nat nat

datatype packet_answer =
    Done | AnswerPayload payload | AnswerBytes bytes | AnswerBool bool | AnswerPacket packet

definition store_assign :: "nat \<Rightarrow> nat \<Rightarrow> packet_store \<Rightarrow> packet_store" where
  "store_assign x a s =
     (let s1 = s\<lparr>ps_owners := (ps_owners s)(x \<mapsto> a)\<rparr>
      in case ps_owners s x of None \<Rightarrow> s1 | Some old \<Rightarrow> packet_drop old s1)"

text \<open>A method on \<open>&mut self\<close>: the variable lends its handle and gets it back.\<close>

definition store_method ::
    "('r \<Rightarrow> packet_answer) \<Rightarrow> (nat \<Rightarrow> packet_store \<Rightarrow> 'r option \<times> nat \<times> packet_store) \<Rightarrow> nat \<Rightarrow>
     packet_store \<Rightarrow> packet_answer option \<times> packet_store" where
  "store_method answer meth x s =
     (case ps_owners s x of
        None \<Rightarrow> (None, s)
      | Some a \<Rightarrow>
          (let (r, b, s1) = meth a (s\<lparr>ps_owners := (ps_owners s)(x := None)\<rparr>)
           in (map_option answer r, s1\<lparr>ps_owners := (ps_owners s1)(x \<mapsto> b)\<rparr>)))"

definition store_read :: "packet_store \<Rightarrow> nat \<Rightarrow> packet option" where
  "store_read s x = (case ps_owners s x of None \<Rightarrow> None | Some a \<Rightarrow> cell_value s a)"

fun store_exec :: "packet_cmd \<Rightarrow> packet_store \<Rightarrow> packet_answer option \<times> packet_store" where
  "store_exec (CmdNew x f pl) s =
     (let (a, s1) = store_new f pl s in (Some Done, store_assign x a s1))"
| "store_exec (CmdWithMetadata x f pl m) s =
     (let (a, s1) = store_with_metadata f pl m s in (Some Done, store_assign x a s1))"
| "store_exec (CmdClone x y) s =
     (case ps_owners s y of
        None \<Rightarrow> (None, s)
      | Some a \<Rightarrow> (let (b, s1) = store_clone a s in (Some Done, store_assign x b s1)))"
| "store_exec (CmdMove x y) s =
     (case ps_owners s y of
        None \<Rightarrow> (None, s)
      | Some a \<Rightarrow> (Some Done, store_assign x a (s\<lparr>ps_owners := (ps_owners s)(y := None)\<rparr>)))"
| "store_exec (CmdDrop x) s =
     (case ps_owners s x of
        None \<Rightarrow> (None, s)
      | Some a \<Rightarrow> (Some Done, packet_drop a (s\<lparr>ps_owners := (ps_owners s)(x := None)\<rparr>)))"
| "store_exec (CmdResetId x i) s = store_method (\<lambda>_. Done) (store_reset_id i) x s"
| "store_exec (CmdSetPayload x pl) s = store_method (\<lambda>_. Done) (store_set_payload pl) x s"
| "store_exec (CmdTakePayload x) s = store_method AnswerPayload store_take_payload x s"
| "store_exec (CmdTakeBytes x) s = store_method AnswerBytes store_take_bytes x s"
| "store_exec (CmdTag x t) s = store_method (\<lambda>_. Done) (store_tag t) x s"
| "store_exec (CmdUpdateMetadata x g) s =
     store_method (\<lambda>_. Done) (store_metadata_mut (\<lambda>m. ((), g m))) x s"
| "store_exec (CmdDecrementTtl x) s = store_method AnswerBool store_decrement_ttl x s"
| "store_exec (CmdRead x) s = (map_option AnswerPacket (store_read s x), s)"
| "store_exec (CmdEq x y) s =
     (case (store_read s x, store_read s y) of
        (Some p, Some q) \<Rightarrow> (Some (AnswerBool (packet_eq p q)), s)
      | _ \<Rightarrow> (None, s))"

subsection \<open>Packets as values\<close>

text \<open>The same commands when every variable holds a packet of its own.\<close>

definition value_method ::
    "('r \<Rightarrow> packet_answer) \<Rightarrow> (packet \<Rightarrow> 'r \<times> packet) \<Rightarrow> nat \<Rightarrow> (nat \<rightharpoonup> packet) \<Rightarrow>
     packet_answer option \<times> (nat \<rightharpoonup> packet)" where
  "value_method answer f x m =
     (case m x of
        None \<Rightarrow> (None, m)
      | Some p \<Rightarrow> (let (r, p') = f p in (Some (answer r), m(x \<mapsto> p'))))"

fun value_exec :: "packet_cmd \<Rightarrow> (nat \<rightharpoonup> packet) \<Rightarrow> packet_answer option \<times> (nat \<rightharpoonup> packet)" where
  "value_exec (CmdNew x f pl) m = (Some Done, m(x \<mapsto> packet_new f pl))"
| "value_exec (CmdWithMetadata x f pl md) m = (Some Done, m(x \<mapsto> packet_with_metadata f pl md))"
| "value_exec (CmdClone x y) m =
     (case m y of None \<Rightarrow> (None, m) | Some p \<Rightarrow> (Some Done, m(x \<mapsto> p)))"
| "value_exec (CmdMove x y) m =
     (case m y of None \<Rightarrow> (None, m) | Some p \<Rightarrow> (Some Done, m(y := None, x \<mapsto> p)))"
| "value_exec (CmdDrop x) m =
     (case m x of None \<Rightarrow> (None, m) | Some p \<Rightarrow> (Some Done, m(x := None)))"
| "value_exec (CmdResetId x i) m = value_method (\<lambda>_. Done) (\<lambda>p. ((), packet_reset_id i p)) x m"
| "value_exec (CmdSetPayload x pl) m = value_method (\<lambda>_. Done) (\<lambda>p. ((), packet_set_payload pl p)) x m"
| "value_exec (CmdTakePayload x) m = value_method AnswerPayload packet_take_payload x m"
| "value_exec (CmdTakeBytes x) m = value_method AnswerBytes packet_take_bytes x m"
| "value_exec (CmdTag x t) m = value_method (\<lambda>_. Done) (\<lambda>p. ((), packet_tag t p)) x m"
| "value_exec (CmdUpdateMetadata x g) m =
     value_method (\<lambda>_. Done) (\<lambda>p. ((), packet_update_metadata g p)) x m"
| "value_exec (CmdDecrementTtl x) m = value_method AnswerBool packet_decrement_ttl x m"
| "value_exec (CmdRead x) m = (map_option AnswerPacket (m x), m)"
| "value_exec (CmdEq x y) m =
     (case (m x, m y) of (Some p, Some q) \<Rightarrow> (Some (AnswerBool (p = q)), m) | _ \<Rightarrow> (None, m))"

subsection \<open>The invariant\<close>

text \<open>
  \<open>hs\<close> are handles in the hands of a running method: every count is the number of variables and
  hands that hold the cell, a cell has at least one holder, and a new address is unused.
\<close>

definition holders :: "(nat \<rightharpoonup> nat) \<Rightarrow> nat \<Rightarrow> nat" where
  "holders owners a = card {x. owners x = Some a}"

definition store_inv :: "nat list \<Rightarrow> packet_store \<Rightarrow> bool" where
  "store_inv hs s \<longleftrightarrow>
     finite (dom (ps_owners s)) \<and>
     (\<forall>a. cell_count s a = holders (ps_owners s) a + count_list hs a) \<and>
     (\<forall>a p. ps_cells s a \<noteq> Some (0, p)) \<and>
     (\<forall>a. ps_next s \<le> a \<longrightarrow> ps_cells s a = None)"

definition held :: "nat list \<Rightarrow> packet_store \<Rightarrow> nat \<Rightarrow> bool" where
  "held hs s a \<longleftrightarrow> a \<in> set hs \<or> a \<in> ran (ps_owners s)"

text \<open>What a step does not change, for those who hold a cell.\<close>

definition same_values :: "nat list \<Rightarrow> packet_store \<Rightarrow> packet_store \<Rightarrow> bool" where
  "same_values hs s s' \<longleftrightarrow>
     ps_owners s' = ps_owners s \<and> (\<forall>a. held hs s a \<longrightarrow> cell_value s' a = cell_value s a)"

lemma owners_fibre_finite: "finite (dom f) \<Longrightarrow> finite {x. f x = Some (a :: nat)}"
  by (rule finite_subset [of _ "dom f"]) auto

lemma holders_take:
  assumes "finite (dom f)" "f x = Some a"
  shows "holders f b = holders (f(x := None)) b + (if b = a then 1 else 0)"
proof (cases "b = a")
  case True
  have "{y. f y = Some a} = insert x {y. (f(x := None)) y = Some a}"
    using assms(2) by auto
  moreover have "finite {y. (f(x := None)) y = Some a}"
    by (rule owners_fibre_finite [of "f(x := None)"]) (use assms(1) in \<open>simp add: dom_fun_upd del: fun_upd_apply\<close>)
  ultimately show ?thesis
    using True by (simp add: holders_def)
next
  case False
  then have "{y. f y = Some b} = {y. (f(x := None)) y = Some b}"
    using assms(2) by auto
  with False show ?thesis by (simp add: holders_def)
qed

lemma holders_put:
  assumes "finite (dom f)" "f x = None"
  shows "holders (f(x \<mapsto> a)) b = holders f b + (if b = a then 1 else 0)"
  using holders_take [of "f(x \<mapsto> a)" x a b] assms by (simp add: fun_upd_idem)

lemma holders_zero: "finite (dom f) \<Longrightarrow> holders f a = 0 \<longleftrightarrow> a \<notin> ran f"
  by (auto simp: holders_def ran_def owners_fibre_finite)

lemma count_list_pos: "0 < count_list xs a \<longleftrightarrow> a \<in> set xs"
  using count_list_0_iff [of xs a] by auto

lemma held_count:
  assumes "store_inv hs s"
  shows "held hs s a \<longleftrightarrow> 0 < cell_count s a"
proof -
  have "cell_count s a = holders (ps_owners s) a + count_list hs a" "finite (dom (ps_owners s))"
    using assms by (auto simp: store_inv_def)
  then show ?thesis
    using holders_zero [of "ps_owners s" a] by (auto simp: held_def count_list_pos)
qed

lemma held_cell: "store_inv hs s \<Longrightarrow> held hs s a \<Longrightarrow> \<exists>n p. ps_cells s a = Some (Suc n, p)"
  by (auto simp: held_count cell_count_def gr0_conv_Suc split: option.splits)

lemma held_value: "store_inv hs s \<Longrightarrow> held hs s a \<Longrightarrow> \<exists>p. cell_value s a = Some p"
  using held_cell by (fastforce simp: cell_value_def)

lemma store_inv_new: "store_inv hs s \<Longrightarrow> ps_cells s (ps_next s) = None"
  by (simp add: store_inv_def)

subsection \<open>Each step keeps it\<close>

lemma arc_new_ok:
  assumes "store_inv hs s" "arc_new p s = (a, s')"
  shows "store_inv (a # hs) s'" "same_values hs s s'" "cell_value s' a = Some p" "cell_count s' a = 1"
proof -
  have s': "s' = s\<lparr>ps_cells := (ps_cells s)(a \<mapsto> (1, p)), ps_next := Suc (ps_next s)\<rparr>" and a: "a = ps_next s"
    using assms(2) by (auto simp: arc_new_def)
  have free: "cell_count s a = 0"
    using store_inv_new [OF assms(1)] a by (simp add: cell_count_def)
  show "cell_value s' a = Some p" "cell_count s' a = 1"
    by (simp_all add: s' cell_value_def cell_count_def)
  show "same_values hs s s'"
    using held_count [OF assms(1)] free by (auto simp: same_values_def s' cell_value_def)
  have "cell_count s' b = cell_count s b + (if b = a then 1 else 0)" for b
    using free by (simp add: s' cell_count_def)
  then show "store_inv (a # hs) s'"
    using assms(1) a by (auto simp: store_inv_def s')
qed

lemma arc_clone_ok:
  assumes "store_inv hs s" "held hs s a" "arc_clone a s = (b, s')"
  shows "b = a" "store_inv (a # hs) s'" "same_values hs s s'"
proof -
  obtain n p where cell: "ps_cells s a = Some (Suc n, p)"
    using held_cell [OF assms(1,2)] by blast
  then have s': "s' = s\<lparr>ps_cells := (ps_cells s)(a \<mapsto> (Suc (Suc n), p))\<rparr>"
    using assms(3) by (auto simp: arc_clone_def)
  show "b = a"
    using assms(3) by (simp add: arc_clone_def)
  show "same_values hs s s'"
    using cell by (auto simp: same_values_def s' cell_value_def)
  have "cell_count s' c = cell_count s c + (if c = a then 1 else 0)" for c
    using cell by (simp add: s' cell_count_def)
  then show "store_inv (a # hs) s'"
    using assms(1) cell by (auto simp: store_inv_def s')
qed

lemma packet_drop_ok:
  assumes "store_inv (a # hs) s"
  shows "store_inv hs (packet_drop a s)" "same_values hs s (packet_drop a s)"
proof -
  obtain n p where cell: "ps_cells s a = Some (Suc n, p)"
    using held_cell [OF assms, of a] by (auto simp: held_def)
  have counts: "cell_count s b = holders (ps_owners s) b + count_list hs b + (if b = a then 1 else 0)" for b
    using assms by (simp add: store_inv_def)
  have own: "ps_owners (packet_drop a s) = ps_owners s" and nxt: "ps_next (packet_drop a s) = ps_next s"
    using cell by (simp_all add: packet_drop_def)
  have count': "cell_count (packet_drop a s) b = cell_count s b - (if b = a then 1 else 0)" for b
    using cell by (simp add: packet_drop_def cell_count_def)
  have some: "ps_cells (packet_drop a s) b \<noteq> Some (0, q)" for b q
    using cell assms by (auto simp: packet_drop_def store_inv_def split: if_splits)
  have none: "ps_cells s b = None \<Longrightarrow> ps_cells (packet_drop a s) b = None" for b
    using cell by (auto simp: packet_drop_def)
  show "store_inv hs (packet_drop a s)"
    using assms counts count' some none by (simp add: store_inv_def own nxt)
  have "cell_value (packet_drop a s) b = cell_value s b" if "held hs s b" for b
  proof -
    have "0 < holders (ps_owners s) b + count_list hs b"
      using that assms holders_zero [of "ps_owners s" b]
      by (auto simp: held_def store_inv_def count_list_pos)
    with counts [of b] cell have "b = a \<Longrightarrow> 0 < n"
      by (simp add: cell_count_def)
    with cell show ?thesis
      by (auto simp: packet_drop_def cell_value_def)
  qed
  then show "same_values hs s (packet_drop a s)"
    by (simp add: same_values_def own)
qed

lemma same_values_trans:
  "same_values hs s s' \<Longrightarrow> same_values hs s' s'' \<Longrightarrow> same_values hs s s''"
  by (simp add: same_values_def held_def)

lemma same_values_mono: "same_values (a # hs) s s' \<Longrightarrow> same_values hs s s'"
  by (simp add: same_values_def held_def)

lemma store_inv_swap: "store_inv (a # b # hs) s \<Longrightarrow> store_inv (b # a # hs) s"
  by (auto simp: store_inv_def)

lemma inner_clone_id: "inner_clone p = p"
  by (simp add: inner_clone_def)

lemma make_mut_ok:
  assumes "store_inv (a # hs) s" "arc_make_mut a s = (b, s')"
  shows "store_inv (b # hs) s'" "same_values hs s s'" "cell_value s' b = cell_value s a" "cell_count s' b = 1"
proof -
  obtain n p where cell: "ps_cells s a = Some (Suc n, p)"
    using held_cell [OF assms(1), of a] by (auto simp: held_def)
  have "store_inv (b # hs) s' \<and> same_values hs s s' \<and> cell_value s' b = cell_value s a \<and> cell_count s' b = 1"
  proof (cases n)
    case 0
    with cell assms show ?thesis
      by (simp add: arc_make_mut_def same_values_def cell_count_def)
  next
    case (Suc k)
    obtain s1 where new: "arc_new (inner_clone p) s = (b, s1)" and s': "s' = packet_drop a s1"
      using cell Suc assms(2) by (auto simp: arc_make_mut_def split: prod.splits)
    note fresh = arc_new_ok [OF assms(1) new]
    have inv: "store_inv (a # b # hs) s1"
      by (rule store_inv_swap [OF fresh(1)])
    note rel = packet_drop_ok [OF inv, folded s']
    have ne: "b \<noteq> a"
      using new store_inv_new [OF assms(1)] cell by (auto simp: arc_new_def)
    have b: "held (b # hs) s1 b"
      by (simp add: held_def)
    have "ps_cells s' b = ps_cells s1 b"
      using ne by (auto simp: s' packet_drop_def split: option.split)
    then have "cell_value s' b = Some p" "cell_count s' b = 1"
      using fresh(3,4) by (simp_all only: cell_value_def cell_count_def inner_clone_id)
    moreover have "same_values hs s s'"
      using same_values_trans [OF same_values_mono [OF fresh(2)] same_values_mono [OF rel(2)]] .
    ultimately show ?thesis
      using rel(1) cell by (simp add: cell_value_def [of s])
  qed
  then show "store_inv (b # hs) s'" "same_values hs s s'" "cell_value s' b = cell_value s a" "cell_count s' b = 1"
    by auto
qed

text \<open>A write is seen through the handle it returns and through no other.\<close>

lemma packet_write_ok:
  assumes "store_inv (a # hs) s" "cell_value s a = Some p" "packet_write f a s = (r, b, s')"
  shows "r = Some (fst (f p))" "cell_value s' b = Some (snd (f p))" "store_inv (b # hs) s'" "same_values hs s s'"
proof -
  obtain s1 where mut: "arc_make_mut a s = (b, s1)"
    using assms(3) by (auto simp: packet_write_def Let_def split: prod.splits option.splits)
  note own = make_mut_ok [OF assms(1) mut]
  then have cell: "ps_cells s1 b = Some (1, p)"
    using assms(2) by (auto simp: cell_value_def cell_count_def split: option.splits)
  have r: "r = Some (fst (f p))" and s': "s' = s1\<lparr>ps_cells := (ps_cells s1)(b \<mapsto> (1, snd (f p)))\<rparr>"
    using assms(3) mut cell by (auto simp: packet_write_def split: prod.splits)
  have counts: "cell_count s' c = cell_count s1 c" for c
    using cell by (simp add: s' cell_count_def)
  have "\<not> held hs s1 b"
    using own(1,4) holders_zero [of "ps_owners s1" b]
    by (auto simp: held_def store_inv_def count_list_pos [symmetric])
  then have "same_values hs s1 s'"
    by (auto simp: same_values_def s' cell_value_def)
  with own(2) show "same_values hs s s'"
    by (rule same_values_trans)
  show "store_inv (b # hs) s'"
    using own(1) counts cell by (auto simp: store_inv_def s')
  show "r = Some (fst (f p))" "cell_value s' b = Some (snd (f p))"
    using r by (simp_all add: s' cell_value_def)
qed

subsection \<open>Variables\<close>

lemma cell_value_owners [simp]: "cell_value (s\<lparr>ps_owners := f\<rparr>) a = cell_value s a"
  by (simp add: cell_value_def)

lemma same_values_read: "same_values hs s s' \<Longrightarrow> store_read s' = store_read s"
  by (auto simp: same_values_def store_read_def held_def ran_def fun_eq_iff split: option.split)

text \<open>The handles in other hands, those of a pool for instance, keep their packets.\<close>

definition kept :: "nat list \<Rightarrow> packet_store \<Rightarrow> packet_store \<Rightarrow> bool" where
  "kept hs s s' \<longleftrightarrow> (\<forall>a \<in> set hs. cell_value s' a = cell_value s a)"

lemma kept_refl [simp]: "kept hs s s"
  by (simp add: kept_def)

lemma kept_owners [simp]:
  "kept hs (s\<lparr>ps_owners := f\<rparr>) s' = kept hs s s'" "kept hs s (s'\<lparr>ps_owners := f\<rparr>) = kept hs s s'"
  by (simp_all add: kept_def)

lemma kept_trans: "kept hs s s' \<Longrightarrow> kept hs s' s'' \<Longrightarrow> kept hs s s''"
  by (simp add: kept_def)

lemma same_values_kept: "same_values hs s s' \<Longrightarrow> kept hs s s'"
  by (simp add: same_values_def held_def kept_def)

lemma store_take_ok:
  assumes "store_inv hs s" "ps_owners s x = Some a"
  shows "store_inv (a # hs) (s\<lparr>ps_owners := (ps_owners s)(x := None)\<rparr>)"
  using assms holders_take [of "ps_owners s" x a]
  by (auto simp: store_inv_def cell_count_def simp del: fun_upd_apply)

lemma store_put_ok:
  assumes "store_inv (a # hs) s" "ps_owners s x = None"
  shows "store_inv hs (s\<lparr>ps_owners := (ps_owners s)(x \<mapsto> a)\<rparr>)"
  using assms holders_put [of "ps_owners s" x a]
  by (auto simp: store_inv_def cell_count_def simp del: fun_upd_apply)

lemma store_assign_ok:
  assumes "store_inv (a # hs) s" "cell_value s a = Some p"
  shows "store_inv hs (store_assign x a s)" "store_read (store_assign x a s) = (store_read s)(x \<mapsto> p)"
    "kept hs s (store_assign x a s)"
proof -
  let ?s1 = "s\<lparr>ps_owners := (ps_owners s)(x \<mapsto> a)\<rparr>"
  have read1: "store_read ?s1 = (store_read s)(x \<mapsto> p)"
    using assms(2) by (auto simp: store_read_def fun_eq_iff split: option.split)
  have "store_inv hs (store_assign x a s) \<and> store_read (store_assign x a s) = store_read ?s1 \<and>
      kept hs s (store_assign x a s)"
  proof (cases "ps_owners s x")
    case None
    with store_put_ok [OF assms(1)] show ?thesis
      by (simp add: store_assign_def)
  next
    case (Some old)
    let ?s0 = "s\<lparr>ps_owners := (ps_owners s)(x := None)\<rparr>"
    have "store_inv (a # old # hs) ?s0"
      by (rule store_inv_swap [OF store_take_ok [OF assms(1) Some]])
    then have "store_inv (old # hs) ?s1"
      using store_put_ok [of a "old # hs" ?s0 x] by simp
    note drop = packet_drop_ok [OF this]
    then show ?thesis
      using Some same_values_read [OF drop(2)] same_values_kept [OF drop(2)] by (simp add: store_assign_def)
  qed
  with read1 show "store_inv hs (store_assign x a s)" "store_read (store_assign x a s) = (store_read s)(x \<mapsto> p)"
    "kept hs s (store_assign x a s)"
    by auto
qed

lemma owner_value:
  assumes "store_inv hs s" "ps_owners s x = Some a"
  shows "held hs s a" "\<exists>p. cell_value s a = Some p \<and> store_read s x = Some p"
proof -
  show held: "held hs s a"
    using assms(2) by (auto simp: held_def ran_def)
  from held_value [OF assms(1) held] assms(2)
  show "\<exists>p. cell_value s a = Some p \<and> store_read s x = Some p"
    by (simp add: store_read_def)
qed

lemma read_None: "store_inv hs s \<Longrightarrow> store_read s x = None \<longleftrightarrow> ps_owners s x = None"
  using owner_value(2) by (fastforce simp: store_read_def split: option.splits)

lemma take_values: "store_read (s\<lparr>ps_owners := (ps_owners s)(x := None)\<rparr>) = (store_read s)(x := None)"
  by (auto simp: store_read_def fun_eq_iff split: option.split)

subsection \<open>Methods\<close>

text \<open>The contract of a method on \<open>&mut self\<close>: it acts as \<open>f\<close> on the packet of its handle.\<close>

locale packet_method =
  fixes meth :: "nat \<Rightarrow> packet_store \<Rightarrow> 'r option \<times> nat \<times> packet_store"
    and f :: "packet \<Rightarrow> 'r \<times> packet"
  assumes acts:
    "store_inv (a # hs) s \<Longrightarrow> cell_value s a = Some p \<Longrightarrow> meth a s = (r, b, s') \<Longrightarrow>
     r = Some (fst (f p)) \<and> cell_value s' b = Some (snd (f p)) \<and> store_inv (b # hs) s' \<and> same_values hs s s'"
begin

lemma method_refines:
  assumes "store_inv hs s" "store_method answer meth x s = (r, s')"
  shows "store_inv hs s' \<and> kept hs s s' \<and> value_method answer f x (store_read s) = (r, store_read s')"
proof (cases "ps_owners s x")
  case None
  with assms show ?thesis
    by (auto simp: store_method_def value_method_def store_read_def)
next
  case (Some a)
  let ?s0 = "s\<lparr>ps_owners := (ps_owners s)(x := None)\<rparr>"
  obtain p where p: "cell_value s a = Some p" "store_read s x = Some p"
    using owner_value(2) [OF assms(1) Some] by blast
  obtain r1 b s1 where run: "meth a ?s0 = (r1, b, s1)"
    by (metis prod_cases3)
  have act: "r1 = Some (fst (f p))" "cell_value s1 b = Some (snd (f p))" "store_inv (b # hs) s1" "same_values hs ?s0 s1"
    using acts [OF store_take_ok [OF assms(1) Some] _ run] p(1) by (simp_all add: take_values)
  have r: "r = map_option answer r1" and s': "s' = s1\<lparr>ps_owners := (ps_owners s1)(x \<mapsto> b)\<rparr>"
    using assms(2) Some run by (auto simp: store_method_def)
  have free: "ps_owners s1 x = None"
    using act(4) by (simp add: same_values_def)
  have "s' = store_assign x b s1"
    using free s' by (simp add: store_assign_def)
  with store_assign_ok [OF act(3,2)] have "store_inv hs s'" "kept hs s1 s'" "store_read s' = (store_read s1)(x \<mapsto> snd (f p))"
    by auto
  moreover have "store_read s1 = (store_read s)(x := None)"
    using same_values_read [OF act(4)] by (simp add: take_values)
  moreover have "kept hs s s1"
    using same_values_kept [OF act(4)] by simp
  ultimately show ?thesis
    using kept_trans p(2) r act(1) by (auto simp: value_method_def split: prod.splits)
qed

end

lemma packet_write_method: "packet_method (packet_write f) f"
  by unfold_locales (intro conjI; erule (2) packet_write_ok)

interpretation reset_id: packet_method "store_reset_id i" "\<lambda>p. ((), packet_reset_id i p)" for i
  unfolding store_reset_id_def packet_reset_id_def by (rule packet_write_method)

interpretation set_payload: packet_method "store_set_payload pl" "\<lambda>p. ((), packet_set_payload pl p)" for pl
  unfolding store_set_payload_def packet_set_payload_def by (rule packet_write_method)

interpretation take_payload: packet_method store_take_payload packet_take_payload
  unfolding store_take_payload_def packet_take_payload_def [abs_def] by (rule packet_write_method)

interpretation take_bytes: packet_method store_take_bytes packet_take_bytes
  unfolding store_take_bytes_def packet_take_bytes_def [abs_def] by (rule packet_write_method)

interpretation tag: packet_method "store_tag t" "\<lambda>p. ((), packet_tag t p)" for t
  unfolding store_tag_def store_tags_mut_def packet_tag_def by (rule packet_write_method)

interpretation metadata_mut: packet_method "store_metadata_mut g"
    "\<lambda>p. let (r, m) = g (pk_metadata p) in (r, p\<lparr>pk_metadata := m\<rparr>)" for g
proof (rule packet_method.intro)
  fix a hs s p r b s'
  assume start: "store_inv (a # hs) s" "cell_value s a = Some p" "store_metadata_mut g a s = (r, b, s')"
  let ?id = "\<lambda>q. ((), case Some (pk_metadata p) of None \<Rightarrow> q | Some m \<Rightarrow> q\<lparr>pk_metadata := m\<rparr>)"
  let ?f = "\<lambda>p. let (r, m) = g (pk_metadata p) in (r, p\<lparr>pk_metadata := m\<rparr>)"
  obtain r1 b1 s1 where first: "packet_write ?id a s = (r1, b1, s1)"
    by (rule prod_cases3 [of "packet_write ?id a s"])
  with start(2,3) have second: "packet_write ?f b1 s1 = (r, b, s')"
    by (simp add: store_metadata_mut_def Let_def)
  note one = packet_write_ok [OF start(1,2) first]
  have "cell_value s1 b1 = Some p"
    using one(2) by simp
  note two = packet_write_ok [OF one(3) this second]
  show "r = Some (fst (?f p)) \<and> cell_value s' b = Some (snd (?f p)) \<and> store_inv (b # hs) s' \<and> same_values hs s s'"
    using two(1-3) same_values_trans [OF one(4) two(4)] by blast
qed

lemma metadata_mut_update:
  "(\<lambda>p. let (r, m) = ((), g (pk_metadata p)) in (r, p\<lparr>pk_metadata := m\<rparr>)) = (\<lambda>p. ((), packet_update_metadata g p))"
  by (simp add: packet_update_metadata_def)

interpretation decrement_ttl: packet_method store_decrement_ttl packet_decrement_ttl
proof -
  have "(\<lambda>p. let (r, m) = (if md_ttl (pk_metadata p) = 0 then (False, pk_metadata p)
            else let m' = (pk_metadata p)\<lparr>md_ttl := md_ttl (pk_metadata p) - 1\<rparr> in (0 < md_ttl m', m'))
          in (r, p\<lparr>pk_metadata := m\<rparr>)) = packet_decrement_ttl"
    by (auto simp: packet_decrement_ttl_def packet_update_metadata_def Let_def fun_eq_iff)
  then show "packet_method store_decrement_ttl packet_decrement_ttl"
    unfolding store_decrement_ttl_def
    using metadata_mut.packet_method_axioms
      [of "\<lambda>m. if md_ttl m = 0 then (False, m)
           else let m' = m\<lparr>md_ttl := md_ttl m - 1\<rparr> in (0 < md_ttl m', m')"]
    by (simp only:)
qed

subsection \<open>Commands\<close>

lemma log_irrelevant [simp]:
  "store_inv hs (s\<lparr>ps_log := l\<rparr>) = store_inv hs s" "same_values hs (s\<lparr>ps_log := l\<rparr>) s' = same_values hs s s'"
  "held hs (s\<lparr>ps_log := l\<rparr>) a = held hs s a" "cell_value (s\<lparr>ps_log := l\<rparr>) a = cell_value s a"
  by (simp_all add: store_inv_def same_values_def held_def cell_value_def cell_count_def)

lemma from_inner_assign:
  assumes "store_inv hs s" "from_inner p s = (a, s1)"
  shows "store_inv hs (store_assign x a s1) \<and> kept hs s (store_assign x a s1) \<and> store_read (store_assign x a s1) = (store_read s)(x \<mapsto> p)"
proof -
  let ?s = "s\<lparr>ps_log := ps_log s @ [LogCreated (pk_id p)]\<rparr>"
  have "arc_new p ?s = (a, s1)" "store_inv hs ?s"
    using assms by (simp_all add: from_inner_def)
  note new = arc_new_ok [OF this(2,1)]
  have "store_read s1 = store_read s"
    using same_values_read [of hs s s1] new(2) by simp
  moreover have "kept hs s s1"
    using same_values_kept [of hs s s1] new(2) by simp
  ultimately show ?thesis
    using store_assign_ok [OF new(1,3), of x] kept_trans by auto
qed

lemma store_clone_assign:
  assumes "store_inv hs s" "ps_owners s y = Some a" "store_clone a s = (b, s1)"
  shows "store_inv hs (store_assign x b s1) \<and> kept hs s (store_assign x b s1) \<and>
    (\<exists>p. store_read s y = Some p \<and> store_read (store_assign x b s1) = (store_read s)(x \<mapsto> p))"
proof -
  obtain p where p: "cell_value s a = Some p" "store_read s y = Some p" and held: "held hs s a"
    using owner_value [OF assms(1,2)] by blast
  let ?s = "s\<lparr>ps_log := ps_log s @ [LogCloned (pk_id p)]\<rparr>"
  have "arc_clone a ?s = (b, s1)" "store_inv hs ?s" "held hs ?s a"
    using assms held p by (simp_all add: store_clone_def)
  note cl = arc_clone_ok [OF this(2,3,1)]
  have same: "same_values hs s s1"
    using cl(3) by simp
  then have "cell_value s1 a = Some p"
    using held p(1) by (simp add: same_values_def)
  with cl(1,2) p(2) same_values_read [OF same] kept_trans [OF same_values_kept [OF same]] store_assign_ok [of a hs s1 p x] show ?thesis
    by auto
qed

lemma store_drop_var:
  assumes "store_inv hs s" "ps_owners s x = Some a"
  defines "s' \<equiv> packet_drop a (s\<lparr>ps_owners := (ps_owners s)(x := None)\<rparr>)"
  shows "store_inv hs s' \<and> kept hs s s' \<and> store_read s' = (store_read s)(x := None)"
  using packet_drop_ok [OF store_take_ok [OF assms(1,2)]] same_values_read same_values_kept
  by (fastforce simp: s'_def take_values)

lemma store_move_var:
  assumes "store_inv hs s" "ps_owners s y = Some a"
    and s'_def: "s' = store_assign x a (s\<lparr>ps_owners := (ps_owners s)(y := None)\<rparr>)"
  shows "store_inv hs s' \<and> kept hs s s' \<and> (\<exists>p. store_read s y = Some p \<and> store_read s' = (store_read s)(y := None, x \<mapsto> p))"
proof -
  obtain p where p: "cell_value s a = Some p" "store_read s y = Some p"
    using owner_value(2) [OF assms(1,2)] by blast
  have "cell_value (s\<lparr>ps_owners := (ps_owners s)(y := None)\<rparr>) a = Some p"
    using p(1) by simp
  note assigned = store_assign_ok [OF store_take_ok [OF assms(1,2)] this, of x, folded assms(3)]
  with p(2) show ?thesis
    by (simp add: take_values)
qed

lemma packet_eq_iff: "packet_eq p q \<longleftrightarrow> p = q"
  by (auto simp: packet_eq_def intro: packet.equality)

lemma store_exec_refines:
  assumes "store_inv hs s" "store_exec c s = (r, s')"
  shows "store_inv hs s' \<and> kept hs s s' \<and> value_exec c (store_read s) = (r, store_read s')"
proof (cases c)
  case (CmdNew x f pl)
  obtain a s1 where "from_inner (packet_new f pl) s = (a, s1)"
    by (rule prod.exhaust)
  with from_inner_assign [OF assms(1) this, of x] assms(2) CmdNew show ?thesis
    by (auto simp: store_new_def)
next
  case (CmdWithMetadata x f pl m)
  obtain a s1 where "from_inner (packet_with_metadata f pl m) s = (a, s1)"
    by (rule prod.exhaust)
  with from_inner_assign [OF assms(1) this, of x] assms(2) CmdWithMetadata show ?thesis
    by (auto simp: store_with_metadata_def)
next
  case (CmdClone x y)
  show ?thesis
  proof (cases "ps_owners s y")
    case (Some a)
    obtain b s1 where cl: "store_clone a s = (b, s1)"
      by (rule prod.exhaust)
    from store_clone_assign [OF assms(1) Some cl, of x] show ?thesis
      using assms(2) CmdClone Some cl by auto
  qed (use assms CmdClone read_None [OF assms(1), of y] in auto)
next
  case (CmdMove x y)
  show ?thesis
  proof (cases "ps_owners s y")
    case (Some a)
    from store_move_var [OF assms(1) Some refl, of x] show ?thesis
      using assms(2) CmdMove Some by auto
  qed (use assms CmdMove read_None [OF assms(1), of y] in auto)
next
  case (CmdDrop x)
  show ?thesis
  proof (cases "ps_owners s x")
    case (Some a)
    from store_drop_var [OF assms(1) Some] owner_value(2) [OF assms(1) Some] show ?thesis
      using assms(2) CmdDrop Some by auto
  qed (use assms CmdDrop read_None [OF assms(1), of x] in auto)
next
  case (CmdUpdateMetadata x g)
  with metadata_mut.method_refines [of hs s "\<lambda>_. Done" "\<lambda>m. ((), g m)" x r s'] assms show ?thesis
    by (simp add: packet_update_metadata_def)
next
  case (CmdEq x y)
  with assms show ?thesis
    by (auto simp: packet_eq_iff split: option.splits)
qed (use assms in \<open>auto dest: reset_id.method_refines set_payload.method_refines take_payload.method_refines
      take_bytes.method_refines tag.method_refines decrement_ttl.method_refines\<close>)

lemma store_run_refines:
  assumes "store_inv [] s" "run_cmds store_exec cs s = (rs, s')"
  shows "store_inv [] s' \<and> run_cmds value_exec cs (store_read s) = (rs, store_read s')"
  using assms
proof (induction cs arbitrary: s rs)
  case (Cons c cs)
  obtain r s1 where c: "store_exec c s = (r, s1)"
    by (rule prod.exhaust)
  with Cons.prems(2) obtain qs where cs: "run_cmds store_exec cs s1 = (qs, s')" "rs = r # qs"
    by (auto split: prod.splits)
  have "store_inv [] s1" "value_exec c (store_read s) = (r, store_read s1)"
    using store_exec_refines [OF Cons.prems(1) c] by auto
  with Cons.IH [OF _ cs(1)] cs(2) show ?case
    by simp
qed simp

lemma store_empty_inv: "store_inv [] store_empty"
  by (simp add: store_inv_def store_empty_def cell_count_def holders_def)

lemma store_read_empty: "store_read store_empty = Map.empty"
  by (simp add: store_read_def store_empty_def fun_eq_iff)

subsection \<open>Properties\<close>

text \<open>
  Packets are values: whatever a program does with packets that share their contents through
  an \<open>Arc\<close> and are copied by \<open>make_mut\<close>, every answer and the packet of every variable are those
  of the same program on packets that share nothing.
\<close>

theorem packets_are_values:
  "fst (run_cmds store_exec cs store_empty) = fst (run_cmds value_exec cs Map.empty) \<and>
   store_read (snd (run_cmds store_exec cs store_empty)) = snd (run_cmds value_exec cs Map.empty)"
proof -
  obtain rs s' where run: "run_cmds store_exec cs store_empty = (rs, s')"
    by (rule prod.exhaust)
  from store_run_refines [OF store_empty_inv run] run show ?thesis
    by (simp add: store_read_empty)
qed

text \<open>
  C39. The store is well typed in every state a program reaches: a variable that holds a packet
  points to a live cell, whose strong count is the number of variables that point to it, and a
  cell nothing points to is gone.
\<close>

theorem packet_store_typed:
  assumes "s = snd (run_cmds store_exec cs store_empty)"
  shows "(\<forall>x a. ps_owners s x = Some a \<longrightarrow> (\<exists>p. ps_cells s a = Some (card {y. ps_owners s y = Some a}, p))) \<and>
    (\<forall>a n p. ps_cells s a = Some (n, p) \<longrightarrow> (\<exists>x. ps_owners s x = Some a))"
proof -
  obtain rs s' where run: "run_cmds store_exec cs store_empty = (rs, s')"
    by (rule prod.exhaust)
  with assms have inv: "store_inv [] s"
    using store_run_refines [OF store_empty_inv run] by simp
  then have count: "cell_count s a = card {y. ps_owners s y = Some a}" for a
    by (simp add: store_inv_def holders_def)
  have "\<exists>p. ps_cells s a = Some (card {y. ps_owners s y = Some a}, p)" if "ps_owners s x = Some a" for x a
    using owner_value(2) [OF inv that] count [of a] by (auto simp: cell_value_def cell_count_def)
  moreover have "\<exists>x. ps_owners s x = Some a" if "ps_cells s a = Some (n, p)" for a n p
  proof -
    have "0 < cell_count s a"
      using inv that by (cases n) (auto simp: store_inv_def cell_count_def)
    then show ?thesis
      using held_count [OF inv, of a] by (auto simp: held_def ran_def)
  qed
  ultimately show ?thesis by blast
qed

definition sample_fresh :: fresh where
  "sample_fresh = \<lparr>fr_packet = PacketId 1, fr_session = SessionId 1, fr_flow = FlowId 1,
     fr_stream = StreamId 1, fr_now = 0\<rparr>"

definition sample_cmds :: "packet_cmd list" where
  "sample_cmds = [CmdNew 0 sample_fresh (Payload [7]), CmdClone 1 0, CmdMove 2 1]"

theorem packet_store_typed_witness:
  "\<exists>p. ps_cells (snd (run_cmds store_exec sample_cmds store_empty)) 0 = Some (2, p)"
proof -
  let ?s = "snd (run_cmds store_exec sample_cmds store_empty)"
  have owners: "ps_owners ?s = [0 \<mapsto> 0, 2 \<mapsto> 0]"
    by (auto simp: sample_cmds_def store_new_def from_inner_def arc_new_def store_empty_def store_assign_def
        store_clone_def arc_clone_def cell_value_def fun_eq_iff)
  then have "{y. ps_owners ?s y = Some 0} = {0, 2}"
    by auto
  then have "card {y. ps_owners ?s y = Some 0} = 2"
    by simp
  with packet_store_typed [OF refl, of sample_cmds, THEN conjunct1, rule_format, of 0 0] owners
  show ?thesis by simp
qed

text \<open>
  A copy made by \<open>make_mut\<close> logs no creation, but the drop of each copy is logged: the events do
  not balance.
\<close>

lemma copy_not_logged:
  "ps_log (snd (run_cmds store_exec
     [CmdNew 0 sample_fresh (Payload [7]), CmdClone 1 0, CmdTag 1 TagControl, CmdDrop 0, CmdDrop 1] store_empty)) =
   [LogCreated (PacketId 1), LogCloned (PacketId 1), LogDropped (PacketId 1), LogDropped (PacketId 1)]"
  by (simp add: store_new_def from_inner_def arc_new_def store_empty_def store_assign_def store_clone_def
      arc_clone_def cell_value_def store_method_def store_tag_def store_tags_mut_def packet_write_def
      arc_make_mut_def inner_clone_def packet_drop_def packet_new_def sample_fresh_def)

end
