(* ===== verification/Pool_Store.thy ===== *)
theory Pool_Store
  imports Packet_Store
begin

text \<open>
  The packet pool (\<open>crates/nyarix-packet/src/pool.rs\<close>) over the store of \<open>Packet_Store\<close>: it holds
  handles, and a packet that is released may still be shared with its clones.
\<close>

record handle_pool =
  hp_inner :: "nat list"
  hp_max_size :: usize

definition store_pool_new :: "usize \<Rightarrow> handle_pool" where
  "store_pool_new max_size = \<lparr>hp_inner = [], hp_max_size = max_size\<rparr>"

definition store_pool_default :: handle_pool where
  "store_pool_default = store_pool_new 4096"

definition store_pool_acquire :: "fresh \<Rightarrow> handle_pool \<Rightarrow> packet_store \<Rightarrow> nat \<times> handle_pool \<times> packet_store" where
  "store_pool_acquire f pool s =
     (if hp_inner pool = []
      then (let (a, s1) = store_new f payload_empty s in (a, pool, s1))
      else (last (hp_inner pool), pool\<lparr>hp_inner := butlast (hp_inner pool)\<rparr>, s))"

definition store_pool_release :: "packet_id \<Rightarrow> nat \<Rightarrow> handle_pool \<Rightarrow> packet_store \<Rightarrow> handle_pool \<times> packet_store" where
  "store_pool_release new_id a pool s =
     (let (_, a1, s1) = store_set_payload payload_empty a s;
          (_, a2, s2) = store_reset_id new_id a1 s1
      in if length (hp_inner pool) < hp_max_size pool
         then (pool\<lparr>hp_inner := hp_inner pool @ [a2]\<rparr>, s2)
         else (pool, packet_drop a2 s2))"

definition store_pool_clear :: "handle_pool \<Rightarrow> packet_store \<Rightarrow> handle_pool \<times> packet_store" where
  "store_pool_clear pool s = (pool\<lparr>hp_inner := []\<rparr>, fold packet_drop (hp_inner pool) s)"

subsection \<open>Programs with a pool\<close>

datatype pool_cmd = OnPackets packet_cmd | CmdAcquire nat fresh | CmdRelease nat packet_id | CmdPoolClear

fun pooled_exec :: "pool_cmd \<Rightarrow> handle_pool \<times> packet_store \<Rightarrow> packet_answer option \<times> handle_pool \<times> packet_store" where
  "pooled_exec (OnPackets c) (pool, s) = (let (r, s1) = store_exec c s in (r, pool, s1))"
| "pooled_exec (CmdAcquire x f) (pool, s) =
     (let (a, pool1, s1) = store_pool_acquire f pool s in (Some Done, pool1, store_assign x a s1))"
| "pooled_exec (CmdRelease x i) (pool, s) =
     (case ps_owners s x of
        None \<Rightarrow> (None, pool, s)
      | Some a \<Rightarrow> (Some Done, store_pool_release i a pool (s\<lparr>ps_owners := (ps_owners s)(x := None)\<rparr>)))"
| "pooled_exec CmdPoolClear (pool, s) = (Some Done, store_pool_clear pool s)"

fun value_pooled_exec ::
    "pool_cmd \<Rightarrow> packet_pool \<times> (nat \<rightharpoonup> packet) \<Rightarrow> packet_answer option \<times> packet_pool \<times> (nat \<rightharpoonup> packet)" where
  "value_pooled_exec (OnPackets c) (P, m) = (let (r, m1) = value_exec c m in (r, P, m1))"
| "value_pooled_exec (CmdAcquire x f) (P, m) =
     (let (p, P1) = pool_acquire f P in (Some Done, P1, m(x \<mapsto> p)))"
| "value_pooled_exec (CmdRelease x i) (P, m) =
     (case m x of None \<Rightarrow> (None, P, m) | Some p \<Rightarrow> (Some Done, pool_release i p P, m(x := None)))"
| "value_pooled_exec CmdPoolClear (P, m) = (Some Done, pool_clear P, m)"

subsection \<open>Refinement\<close>

text \<open>The pool of handles stands for the pool of the packets they point to.\<close>

definition pool_shows :: "handle_pool \<Rightarrow> packet_store \<Rightarrow> packet_pool \<Rightarrow> bool" where
  "pool_shows pool s P \<longleftrightarrow>
     map (cell_value s) (hp_inner pool) = map Some (pp_inner P) \<and> hp_max_size pool = pp_max_size P"

definition pooled_inv :: "handle_pool \<times> packet_store \<Rightarrow> packet_pool \<times> (nat \<rightharpoonup> packet) \<Rightarrow> bool" where
  "pooled_inv = (\<lambda>(pool, s) (P, m). store_inv (hp_inner pool) s \<and> pool_shows pool s P \<and> store_read s = m)"

lemma pool_shows_kept: "kept (hp_inner pool) s s' \<Longrightarrow> pool_shows pool s P \<Longrightarrow> pool_shows pool s' P"
  unfolding pool_shows_def kept_def by (metis map_eq_conv)

lemma pool_shows_length: "pool_shows pool s P \<Longrightarrow> length (hp_inner pool) = length (pp_inner P)"
  unfolding pool_shows_def by (metis length_map)

lemma store_inv_last: "store_inv (hs @ [a]) s = store_inv (a # hs) s"
  by (simp add: store_inv_def)

lemma acquire_refines:
  assumes "store_inv (hp_inner pool) s" "pool_shows pool s P" "store_pool_acquire f pool s = (a, pool1, s1)"
  shows "store_inv (a # hp_inner pool1) s1" "cell_value s1 a = Some (fst (pool_acquire f P))"
    "pool_shows pool1 s1 (snd (pool_acquire f P))" "store_read s1 = store_read s"
proof -
  have "store_inv (a # hp_inner pool1) s1 \<and> cell_value s1 a = Some (fst (pool_acquire f P)) \<and>
    pool_shows pool1 s1 (snd (pool_acquire f P)) \<and> store_read s1 = store_read s"
  proof (cases "hp_inner pool" rule: rev_cases)
    case Nil
    then have P: "pp_inner P = []"
      using pool_shows_length [OF assms(2)] by simp
    let ?p = "packet_new f payload_empty" and ?s = "s\<lparr>ps_log := ps_log s @ [LogCreated (pk_id (packet_new f payload_empty))]\<rparr>"
    have new: "arc_new ?p ?s = (a, s1)" "pool1 = pool" "store_inv [] ?s"
      using assms(1,3) Nil by (auto simp: store_pool_acquire_def store_new_def from_inner_def split: prod.splits)
    note ok = arc_new_ok [OF new(3,1)]
    have "store_read s1 = store_read s"
      using same_values_read [of "[]" s s1] ok(2) by simp
    then show ?thesis
      using ok(1,3) assms(2) Nil P new(2) by (simp add: pool_acquire_def pool_shows_def)
  next
    case (snoc hs b)
    then have run: "a = b" "pool1 = pool\<lparr>hp_inner := hs\<rparr>" "s1 = s"
      using assms(3) by (auto simp: store_pool_acquire_def)
    obtain qs q where P: "pp_inner P = qs @ [q]"
      using pool_shows_length [OF assms(2)] snoc by (cases "pp_inner P" rule: rev_cases) auto
    show ?thesis
      using assms(1,2) snoc run P by (simp add: pool_acquire_def pool_shows_def store_inv_last)
  qed
  then show "store_inv (a # hp_inner pool1) s1" "cell_value s1 a = Some (fst (pool_acquire f P))"
    "pool_shows pool1 s1 (snd (pool_acquire f P))" "store_read s1 = store_read s"
    by auto
qed

lemma release_refines:
  assumes "store_inv (a # hp_inner pool) s" "cell_value s a = Some p" "pool_shows pool s P"
    and "store_pool_release i a pool s = (pool1, s1)"
  shows "store_inv (hp_inner pool1) s1" "pool_shows pool1 s1 (pool_release i p P)" "store_read s1 = store_read s"
proof -
  let ?q = "packet_set_payload payload_empty p"
  obtain u1 a1 t1 where set: "store_set_payload payload_empty a s = (u1, a1, t1)"
    by (metis prod_cases3)
  note one = set_payload.acts [OF assms(1,2) set, simplified]
  obtain u2 a2 t2 where reset: "store_reset_id i a1 t1 = (u2, a2, t2)"
    by (metis prod_cases3)
  note two = reset_id.acts [of a1 "hp_inner pool" t1 ?q, OF _ _ reset, simplified]
  have inv: "store_inv (a2 # hp_inner pool) t2" and val: "cell_value t2 a2 = Some (packet_reset_id i ?q)"
    and same: "same_values (hp_inner pool) s t2"
    using one two same_values_trans by blast+
  have repr: "pool_shows pool t2 P" and read: "store_read t2 = store_read s"
    using pool_shows_kept [OF same_values_kept [OF same] assms(3)] same_values_read [OF same] by auto
  have len: "length (hp_inner pool) < hp_max_size pool \<longleftrightarrow> length (pp_inner P) < pp_max_size P"
    using pool_shows_length [OF assms(3)] assms(3) by (simp add: pool_shows_def)
  have "store_inv (hp_inner pool1) s1 \<and> pool_shows pool1 s1 (pool_release i p P) \<and> store_read s1 = store_read s"
  proof (cases "length (hp_inner pool) < hp_max_size pool")
    case True
    then have "pool1 = pool\<lparr>hp_inner := hp_inner pool @ [a2]\<rparr>" "s1 = t2"
      using assms(4) set reset by (auto simp: store_pool_release_def)
    then show ?thesis
      using inv val repr read True len by (simp add: store_inv_last pool_shows_def pool_release_def Let_def)
  next
    case False
    then have run: "pool1 = pool" "s1 = packet_drop a2 t2"
      using assms(4) set reset by (auto simp: store_pool_release_def)
    note drop = packet_drop_ok [OF inv]
    show ?thesis
      using run drop(1) pool_shows_kept [OF same_values_kept [OF drop(2)] repr] same_values_read [OF drop(2)] read False len
      by (simp add: pool_release_def Let_def)
  qed
  then show "store_inv (hp_inner pool1) s1" "pool_shows pool1 s1 (pool_release i p P)" "store_read s1 = store_read s"
    by auto
qed

lemma drop_all: "store_inv hs s \<Longrightarrow> store_inv [] (fold packet_drop hs s) \<and> store_read (fold packet_drop hs s) = store_read s"
proof (induction hs arbitrary: s)
  case (Cons a hs)
  note drop = packet_drop_ok [OF Cons.prems]
  show ?case
    using Cons.IH [OF drop(1)] same_values_read [OF drop(2)] by simp
qed simp

lemma pooled_exec_refines:
  assumes "pooled_inv st v" "pooled_exec c st = (r, st')"
  shows "\<exists>v'. value_pooled_exec c v = (r, v') \<and> pooled_inv st' v'"
proof -
  obtain pool s P where st: "st = (pool, s)" and v: "v = (P, store_read s)"
    and inv: "store_inv (hp_inner pool) s" and repr: "pool_shows pool s P"
    using assms(1) by (auto simp: pooled_inv_def split: prod.splits)
  show ?thesis
  proof (cases c)
    case (OnPackets d)
    obtain r1 s1 where run: "store_exec d s = (r1, s1)"
      by (rule prod.exhaust)
    from store_exec_refines [OF inv run] show ?thesis
      using assms(2) OnPackets run st v pool_shows_kept [OF _ repr] by (auto simp: pooled_inv_def)
  next
    case (CmdAcquire x f)
    obtain a pool1 s1 where run: "store_pool_acquire f pool s = (a, pool1, s1)"
      by (metis prod_cases3)
    note acq = acquire_refines [OF inv repr run]
    note assigned = store_assign_ok [OF acq(1,2), of x]
    have "st' = (pool1, store_assign x a s1)" "r = Some Done"
      using assms(2) CmdAcquire run st by auto
    then show ?thesis
      using CmdAcquire v assigned(1,2) pool_shows_kept [OF assigned(3) acq(3)] acq(4)
      by (auto simp: pooled_inv_def split: prod.splits)
  next
    case (CmdRelease x i)
    show ?thesis
    proof (cases "ps_owners s x")
      case None
      then show ?thesis
        using assms CmdRelease st v read_None [OF inv, of x] by (auto simp: pooled_inv_def)
    next
      case (Some a)
      let ?s0 = "s\<lparr>ps_owners := (ps_owners s)(x := None)\<rparr>"
      obtain p where p: "cell_value s a = Some p" "store_read s x = Some p"
        using owner_value(2) [OF inv Some] by blast
      obtain pool1 s1 where run: "store_pool_release i a pool ?s0 = (pool1, s1)"
        by (rule prod.exhaust)
      have "pool_shows pool ?s0 P"
        using repr by (simp add: pool_shows_def cong: map_cong)
      note rel = release_refines [OF store_take_ok [OF inv Some] _ this run]
      have "st' = (pool1, s1)" "r = Some Done"
        using assms(2) CmdRelease Some st run by auto
      then show ?thesis
        using CmdRelease Some v p rel by (auto simp: pooled_inv_def take_values)
    qed
  next
    case CmdPoolClear
    then show ?thesis
      using assms(2) st v drop_all [OF inv] repr
      by (auto simp: pooled_inv_def store_pool_clear_def pool_clear_def pool_shows_def)
  qed
qed

lemma pooled_run_refines:
  "pooled_inv st v \<Longrightarrow> run_cmds pooled_exec cs st = (rs, st') \<Longrightarrow>
   \<exists>v'. run_cmds value_pooled_exec cs v = (rs, v') \<and> pooled_inv st' v'"
proof (induction cs arbitrary: st v rs)
  case (Cons c cs)
  obtain r st1 where c: "pooled_exec c st = (r, st1)"
    by (rule prod.exhaust)
  with Cons.prems(2) obtain qs where cs: "run_cmds pooled_exec cs st1 = (qs, st')" "rs = r # qs"
    by (auto split: prod.splits)
  obtain v1 where v1: "value_pooled_exec c v = (r, v1)" "pooled_inv st1 v1"
    using pooled_exec_refines [OF Cons.prems(1) c] by blast
  from Cons.IH [OF v1(2) cs(1)] v1(1) cs(2) show ?case
    by auto
qed simp

text \<open>
  C38. Packets are values, also through the pool: whatever a program does with packets that share
  their contents through an \<open>Arc\<close>, are copied by \<open>make_mut\<close>, are released to the pool while clones
  of them live and are handed out again, every answer, the packet of every variable and the packets
  in the pool are those of the same program on packets that share nothing.
\<close>

theorem pooled_packets_are_values:
  "\<exists>rs pool s P m.
     run_cmds pooled_exec cs (store_pool_new n, store_empty) = (rs, pool, s) \<and>
     run_cmds value_pooled_exec cs (pool_new n, Map.empty) = (rs, P, m) \<and>
     store_read s = m \<and> map (cell_value s) (hp_inner pool) = map Some (pp_inner P)"
proof -
  obtain rs pool s where run: "run_cmds pooled_exec cs (store_pool_new n, store_empty) = (rs, pool, s)"
    by (metis prod_cases3)
  have "pooled_inv (store_pool_new n, store_empty) (pool_new n, Map.empty)"
    by (simp add: pooled_inv_def pool_shows_def store_pool_new_def pool_new_def store_empty_inv store_read_empty)
  from pooled_run_refines [OF this run] run show ?thesis
    by (fastforce simp: pooled_inv_def pool_shows_def)
qed

end
