(* ===== verification/Lifecycle.thy ===== *)
theory Lifecycle
  imports Module_Loading
begin

text \<open>
  The life of a package across components: it is built, signed and packed (\<open>archive.rs\<close>,
  \<open>signing.rs\<close>), installed (\<open>installer.rs\<close>), found and validated by the runtime
  (\<open>module_loader.rs\<close>), and rolled back to after an update (\<open>rollback.rs\<close>). No definitions of
  the code are added here; the theorems compose those of the components.
\<close>

subsection \<open>Paths\<close>

text \<open>A word that names one directory entry.\<close>

definition entry_name :: "string \<Rightarrow> bool" where
  "entry_name w \<longleftrightarrow> w \<noteq> [] \<and> CHR ''/'' \<notin> set w \<and> w \<noteq> ''.'' \<and> w \<noteq> ''..''"

lemma path_components_word: "CHR ''/'' \<notin> set w \<Longrightarrow> path_components w = [w]"
  by (induction w) auto

lemma entry_name_key: "entry_name w \<Longrightarrow> path_key w = [w]"
  by (simp add: entry_name_def path_key_def path_components_word)

lemma entry_name_tame:
  assumes "entry_name w"
  shows "tame w"
proof -
  have "hd w \<in> set w"
    using assms by (intro hd_in_set) (simp add: entry_name_def)
  then have "hd w \<noteq> CHR ''/''"
    using assms unfolding entry_name_def by metis
  with assms show ?thesis
    by (simp add: entry_name_key tame_def path_has_parent_dir_def path_is_absolute_def) (auto simp: entry_name_def)
qed

lemma after_last_append:
  "after_last d (xs @ ys) =
     (case after_last d ys of Some r \<Rightarrow> Some r | None \<Rightarrow> map_option (\<lambda>r. r @ ys) (after_last d xs))"
  by (induction xs) (auto split: option.split)

lemma extension_archive:
  assumes "path_is_absolute dir"
  shows "extension (path_join dir ''package.nyp'') = Some ''nyp''"
proof -
  have "\<exists>e. path_join dir ''package.nyp'' = e @ ''/package.nyp''"
  proof (cases "last dir = CHR ''/''")
    case True
    with assms have "dir = butlast dir @ ''/''"
      by (metis append_butlast_last_id path_is_absolute_def)
    with True assms show ?thesis
      by (intro exI [of _ "butlast dir"]) (simp add: path_join_def path_is_absolute_def)
  next
    case False
    with assms show ?thesis
      by (simp add: path_join_def path_is_absolute_def)
  qed
  then obtain e where "path_join dir ''package.nyp'' = e @ ''/package.nyp''"
    by blast
  then have "file_name (path_join dir ''package.nyp'') = ''package.nyp''"
    by (simp add: file_name_def after_last_append)
  then show ?thesis
    by (simp add: extension_def)
qed

text \<open>The paths of members that the format allows are harmless to unpack.\<close>

lemma plain_path_harmless:
  assumes "plain_path path"
  shows "harmless path"
  unfolding harmless_def
proof (intro allI impI notI)
  fix relative assume path: "path = ''payload/'' @ relative" and "path_is_absolute relative"
  then obtain rest where "relative = CHR ''/'' # rest"
    by (cases relative) (auto simp: path_is_absolute_def)
  then have "path_components path = path_components ''payload'' @ path_components [] @ path_components rest"
    using path path_components_append [of "''payload''" "CHR ''/'' # rest"] path_components_append [of "[]" rest]
    by simp
  then have "[] \<in> set (path_components path)"
    by simp
  with assms show False
    by (auto simp: plain_path_def)
qed

subsection \<open>From the publisher to the runtime\<close>

lemma validate_package_report:
  assumes "reader_open (lo_archive L) (lo_parse L) data = Ret (Inr reader)"
    and "Package_Archive.signature_status (lo_archive L) (lo_keys L) reader = Inr status"
    and "classify (lo_archive L) (lo_keys L) reader ts = Inr level"
  shows "validate_package L ks data [] ix ts api = Ret (Inr
    \<lparr>vr_signature_status = status, vr_trust_level = level,
     vr_conflicts = detect_conflicts (lo_semver L) ks [pr_manifest reader] ix api,
     vr_platform_supported = (pt_supported (pm_platforms (pr_manifest reader)) = [] \<or>
       platform_current (lo_target_os L) \<in> set (pt_supported (pm_platforms (pr_manifest reader))))\<rparr>)"
  using assms by (simp add: validate_package_def Let_def)

lemma discover_total_opened:
  assumes "reader_open (lo_archive L) (lo_parse L) data = Ret (Inr reader)" "fs_read F path s = Inr data"
  shows "discover_total F L s path = Inr \<lparr>dp_path = path, dp_name = pi_name (pm_package (pr_manifest reader)),
    dp_version = pi_version (pm_package (pr_manifest reader))\<rparr>"
  using assms by (simp add: discover_total_def discover_one_def Let_def)

text \<open>Loading from a directory with one archive.\<close>

lemma load_one_archive:
  assumes opened: "reader_open (lo_archive L) (lo_parse L) data = Ret (Inr reader)"
    and read: "fs_read F path s = Inr data" and ext: "extension path = Some ''nyp''"
    and info: "info = pm_package (pr_manifest reader)"
    and valid: "validate_package L (ks 0) data []
      [pi_name info \<mapsto> [\<lparr>dp_path = path, dp_name = pi_name info, dp_version = pi_version info\<rparr>]] ts api = Ret (Inr v)"
    and v': "v' = retain_conflicts (Some (pi_name info)) v"
  shows "load_modules F L ks [pi_name info] [Some [path]] ts api s s = Ret
    (if report_is_valid v'
     then \<lparr>ml_valid = [\<lparr>lp_path = path, lp_data = data, lp_validation = v'\<rparr>], ml_invalid = [], ml_errors = []\<rparr>
     else \<lparr>ml_valid = [], ml_invalid = [\<lparr>rj_path = path, rj_validation = v'\<rparr>], ml_errors = []\<rparr>)"
proof -
  let ?d = "\<lparr>dp_path = path, dp_name = pi_name info, dp_version = pi_version info\<rparr>"
  have "discover_total F L s path = Inr ?d"
    using discover_total_opened [OF opened read] info by simp
  then have "scan_directories (discover_total F L s) [Some [path]] =
      \<lparr>sr_index = [pi_name info \<mapsto> [?d]], sr_errors = [], sr_duplicates = []\<rparr>"
    using ext by (simp add: scan_directories_def scan_file_def scan_report_default_def index_insert_def
        index_get_def Let_def)
  moreover have "manifest_of L data = Some (pr_manifest reader)"
    using opened by (simp add: manifest_of_def)
  ultimately show ?thesis
    using valid read v' info by (simp add: load_modules_def index_names_def index_get_def others_of_def Let_def)
qed

text \<open>
  C25. From the publisher to the runtime: a package that is built from a manifest and other members,
  signed, packed and installed is the one package a runtime finds in the directory it was installed
  to. The members have plain paths outside \<open>signatures/\<close>, the manifest parses, and the name and the
  version are names of one directory entry each. Its signature is verified, its trust level is
  whatever is registered for the signing key, of any level, or unknown, and it is reported valid
  with the archive's bytes exactly when none of its own conflicts remains and its platforms fit,
  else invalid; it is never an error.
\<close>

theorem published_package_loads:
  fixes L :: "('v, 'r, 'sk, 'pk) loader_ops" and ks :: "nat \<Rightarrow> string list" and api :: api_version and ts :: trust_store
  assumes store: "file_store F files"
    and codec: "archive_codec (lo_archive L)" "ed25519 (lo_keys L)"
    and built: "publishable b mb" "builder_build_archive (lo_archive L) (builder_sign (lo_archive L) (lo_keys L) sk b) = Inr data"
    and manifest: "ar_utf8 (lo_archive L) mb = Inr raw" "manifest_from_toml (lo_parse L) raw = Inr m"
    and names: "plain_absolute base" "entry_name (pi_name (pm_package m))" "entry_name (so_show (lo_semver L) (pi_version (pm_package m)))"
    and run: "install_package F L data base ix s = Ret (Inr outcome, ix', s')"
  defines "name \<equiv> pi_name (pm_package m)"
    and "path \<equiv> path_join (path_join (path_join base (pi_name (pm_package m)))
      (so_show (lo_semver L) (pi_version (pm_package m)))) ''package.nyp''"
  defines "conflicts \<equiv> filter (\<lambda>c. conflict_involves c name) (detect_conflicts (lo_semver L) (ks 0) [m]
      [name \<mapsto> [\<lparr>dp_path = path, dp_name = name, dp_version = pi_version (pm_package m)\<rparr>]] api)"
    and "fits \<equiv> pt_supported (pm_platforms m) = [] \<or> platform_current (lo_target_os L) \<in> set (pt_supported (pm_platforms m))"
  defines "v \<equiv> \<lparr>vr_signature_status = Verified,
      vr_trust_level = (case level_for (lo_keys L) (ed_public (lo_keys L) sk) ts of None \<Rightarrow> UnknownTrust | Some l \<Rightarrow> l),
      vr_conflicts = conflicts, vr_platform_supported = fits\<rparr>"
  shows "load_modules F L ks [name] [Some [path]] ts api s' s' = Ret
    (if conflicts = [] \<and> fits
     then \<lparr>ml_valid = [\<lparr>lp_path = path, lp_data = data, lp_validation = v\<rparr>], ml_invalid = [], ml_errors = []\<rparr>
     else \<lparr>ml_valid = [], ml_invalid = [\<lparr>rj_path = path, rj_validation = v\<rparr>], ml_errors = []\<rparr>)"
proof -
  obtain r where r: "reader_open (lo_archive L) (lo_parse L) data = Ret (Inr r)" "pr_manifest r = m"
      "reader_entries (lo_archive L) r = Inr (pb_entries (builder_sign (lo_archive L) (lo_keys L) sk b))"
      "Package_Archive.signature_status (lo_archive L) (lo_keys L) r = Inr Verified"
      "classify (lo_archive L) (lo_keys L) r ts = Inr (vr_trust_level v)"
    using signed_package_opens [OF codec built manifest] by (auto simp: v_def)
  have members: "\<forall>es. reader_entries (lo_archive L) r = Inr es \<longrightarrow> (\<forall>e \<in> set es. harmless (fst e))"
    using r(3) built(1) plain_path_harmless
    by (auto simp: builder_sign_def Let_def add_file_def publishable_def signature_paths)
  note tame = names(2,3) [THEN entry_name_tame]
  have path: "path = path_join (package_dir_of L base r) ''package.nyp''"
    by (simp add: path_def package_dir_of_def r(2))
  have plain: "plain_absolute (package_dir_of L base r)"
    using package_dir_of_key(1) [OF names(1), of r L] tame by (simp add: r(2))
  have "files s' (path_key path) = Some data"
    using install_effects [OF store run r(1) members names(1) refl, unfolded r(2), OF tame refl] tame
      package_dir_of_key(2) [OF names(1), of r L]
    by (simp add: path tame_key tame_literals r(2))
  then have read: "fs_read F path s' = Inr data"
    using file_store.read_file [OF store] tame_join [OF plain tame_literals(1)] by (simp add: path)
  have ext: "extension path = Some ''nyp''"
    using plain by (simp add: path plain_absolute_def extension_archive)
  have v: "v = retain_conflicts (Some name) (v\<lparr>vr_conflicts := detect_conflicts (lo_semver L) (ks 0) [m]
      [name \<mapsto> [\<lparr>dp_path = path, dp_name = name, dp_version = pi_version (pm_package m)\<rparr>]] api\<rparr>)"
    by (simp add: retain_conflicts_def v_def conflicts_def)
  have valid: "validate_package L (ks 0) data []
      [name \<mapsto> [\<lparr>dp_path = path, dp_name = name, dp_version = pi_version (pm_package m)\<rparr>]] ts api =
      Ret (Inr (v\<lparr>vr_conflicts := detect_conflicts (lo_semver L) (ks 0) [m]
        [name \<mapsto> [\<lparr>dp_path = path, dp_name = name, dp_version = pi_version (pm_package m)\<rparr>]] api\<rparr>))"
    using validate_package_report [OF r(1,4,5)] by (simp add: r(2) v_def fits_def)
  have "report_is_valid v \<longleftrightarrow> conflicts = [] \<and> fits"
    by (simp add: report_is_valid_def v_def)
  with load_one_archive [OF r(1) read ext refl, of ks, unfolded r(2), folded name_def, OF valid v] show ?thesis
    by simp
qed

subsection \<open>Back to the version before\<close>

text \<open>
  C33. After an installation and an update that were recorded, a rollback re-validates the very
  archive that was installed first: the update has left it in place, byte for byte. It succeeds
  exactly when that archive is valid for the runtime, makes its version the active one, and
  otherwise leaves the log alone; the archive is never reported missing.
\<close>

theorem install_then_rollback:
  fixes L :: "('v, 'r, 'sk, 'pk) loader_ops" and h :: "('v, 't) rollback_history"
  assumes store: "file_store F files" and base: "plain_absolute base"
    and first: "install_package F L data1 base ix s = Ret (Inr out1, ix1, s1)"
      "reader_open (lo_archive L) (lo_parse L) data1 = Ret (Inr r1)"
      "\<forall>es. reader_entries (lo_archive L) r1 = Inr es \<longrightarrow> (\<forall>e \<in> set es. harmless (fst e))"
    and second: "install_package F L data2 base ix1 s1 = Ret (Inr out2, ix2, s2)"
      "reader_open (lo_archive L) (lo_parse L) data2 = Ret (Inr r2)"
      "\<forall>es. reader_entries (lo_archive L) r2 = Inr es \<longrightarrow> (\<forall>e \<in> set es. harmless (fst e))"
    and name: "pi_name (pm_package (pr_manifest r1)) = name" "pi_name (pm_package (pr_manifest r2)) = name"
    and versions: "pi_version (pm_package (pr_manifest r1)) = v1" "pi_version (pm_package (pr_manifest r2)) = v2"
      "so_show (lo_semver L) v1 \<noteq> so_show (lo_semver L) v2"
    and words: "entry_name name" "entry_name (so_show (lo_semver L) v1)" "entry_name (so_show (lo_semver L) v2)"
    and logged: "h' = record_install name v2 t2 (record_install name v1 t1 h)"
    and valid: "validate_package L ks data1 [] ix' ts api = Ret validated"
  shows "rollback_package F L ks now name base h' ts ix' api s2 = Ret
    (case validated of
       Inl e \<Rightarrow> (Inl (RollbackPackage e), h')
     | Inr report \<Rightarrow>
         if report_is_valid report then (Inr v1, record_rollback name v1 now h')
         else (Inl (Incompatible name v1 (vr_conflicts report)), h'))"
proof -
  note tame = words [THEN entry_name_tame]
  let ?dir = "\<lambda>v. path_key base @ path_key name @ path_key (so_show (lo_semver L) v)"
  have "files s1 (?dir v1 @ [''package.nyp'']) = Some data1"
    using install_effects [OF store first(1-3) base refl, unfolded name versions, OF tame(1,2) refl] by simp
  moreover have "\<not> under (?dir v2) (?dir v1 @ [''package.nyp''])"
    using versions(3) words by (simp add: under_def entry_name_key)
  ultimately have kept: "files s2 (?dir v1 @ [''package.nyp'']) = Some data1"
    using install_effects [OF store second(1-3) base refl, unfolded name versions, OF tame(1,3) refl] by simp
  let ?path = "path_join (path_join (path_join base name) (so_show (lo_semver L) v1)) ''package.nyp''"
  have "plain_absolute ?path" "path_key ?path = ?dir v1 @ [''package.nyp'']"
    using base tame by (simp_all add: tame_join tame_key tame_literals)
  then have read: "fs_read F ?path s2 = Inr data1"
    using file_store.read_file [OF store] kept by simp
  have "entries_of h' name = entries_of h name @ [v1, v2]"
    by (simp add: logged record_install_def)
  then have "active_version h' name = Some v2" "previous_version h' name = Some v1"
    by (simp_all add: active_version_last previous_version_last butlast_append)
  with read valid show ?thesis
    by (cases validated) (simp_all add: rollback_package_def Let_def)
qed

end
