(* ===== verification/Lifecycle_Samples.thy ===== *)
theory Lifecycle_Samples
  imports Lifecycle Install_Samples
begin

text \<open>A signed package from its build to the runtime, and an update that is rolled back.\<close>

lemma sample_no_conflicts: "detect_conflicts core_semver [] [sample_manifest ''app'' []] ix (ApiVersion 1 0) = []"
  by (simp add: detect_conflicts_def sample_manifest_def is_compatible_def resolve_versions_def)

definition signed_data :: bytes where
  "signed_data = packed (pb_entries (builder_sign ref_archive ref_ed25519 7 sample_builder))"

lemma signed_data_built:
  "builder_build_archive ref_archive (builder_sign ref_archive ref_ed25519 7 sample_builder) = Inr signed_data"
  by (simp add: builder_build_archive_def signed_data_def packed_def) (simp add: ref_archive_def)

lemma sample_publishable: "publishable sample_builder [1, 2]"
  by (simp add: publishable_def sample_builder_def plain_path_def starts_with_def string_bytes_def)

theorem published_package_loads_witness:
  "\<exists>out ix s report. install_package ref_fs sample_loader signed_data ''/p'' Map.empty Map.empty = Ret (Inr out, ix, s) \<and>
     load_modules ref_fs sample_loader (\<lambda>_. []) [''app''] [Some [''/p/app/1.0.0/package.nyp'']]
       (trust ref_ed25519 7 Official trust_store_new) (ApiVersion 1 0) s s = Ret report \<and>
     map (vr_trust_level \<circ> lp_validation) (ml_valid report) = [Official] \<and> ml_errors report = []"
proof -
  let ?es = "pb_entries (builder_sign ref_archive ref_ed25519 7 sample_builder)"
  have es: "?es = [(''manifest.toml'', [1, 2]), (SIGNATURE_MEMBER_PATH, ed_sign ref_ed25519 7 (signable_bytes ref_archive [(''manifest.toml'', [1, 2])])),
      (PUBLIC_KEY_MEMBER_PATH, ed_key_bytes ref_ed25519 (ed_public ref_ed25519 7))]"
    by (simp add: builder_sign_def Let_def add_file_def sign_def sample_builder_def)
  have utf8: "ar_utf8 (lo_archive sample_loader) [1, 2] = Inr (bytes_string [1, 2])"
    by simp
  obtain r where r: "reader_open ref_archive sample_parse signed_data = Ret (Inr r)"
      "reader_entries ref_archive r = Inr ?es"
    using signed_package_opens [OF ref_archive_codec ref_ed25519_laws sample_publishable signed_data_built _ sample_manifest_valid]
    by auto
  have "fst (unpack_payload ref_fs d ?es t) = Inr ()" for d t
    unfolding es by (simp add: SIGNATURE_MEMBER_PATH_def PUBLIC_KEY_MEMBER_PATH_def strip_prefix_def)
  then have "\<exists>out ix s. install_package ref_fs sample_loader signed_data ''/p'' Map.empty Map.empty = Ret (Inr out, ix, s)"
    by (intro install_completes [of _ _ r ?es]) (use r in simp_all)
  then obtain out ix s where run:
    "install_package ref_fs sample_loader signed_data ''/p'' Map.empty Map.empty = Ret (Inr out, ix, s)"
    by blast
  have words: "plain_absolute ''/p''" "entry_name ''app''" "entry_name ''1.0.0''"
    by (simp_all add: path_defs entry_name_def)
  have path: "path_join (path_join (path_join ''/p'' ''app'') ''1.0.0'') ''package.nyp'' = ''/p/app/1.0.0/package.nyp''"
    by (simp add: path_join_def path_is_absolute_def)
  note loads = published_package_loads [where L = sample_loader and mb = "[1, 2]" and ks = "\<lambda>_. []" and api = "ApiVersion 1 0"
      and ts = "trust ref_ed25519 7 Official trust_store_new" and m = "sample_manifest ''app'' []",
      OF ref_fs_store _ _ sample_publishable _ utf8 _ words(1) _ _ run, of 7]
  have "level_for ref_ed25519 (ed_public ref_ed25519 7) (trust ref_ed25519 7 Official trust_store_new) = Some Official"
    by (simp add: level_for_def trust_def ref_ed25519_def)
  moreover have "pi_name (pm_package (sample_manifest ''app'' [])) = ''app''"
      "pi_version (pm_package (sample_manifest ''app'' [])) = SemVer 1 0 0"
      "pt_supported (pm_platforms (sample_manifest ''app'' [])) = []"
    by (simp_all add: sample_manifest_def)
  ultimately show ?thesis
    using run loads ref_archive_codec ref_ed25519_laws signed_data_built words sample_manifest_valid
    by (simp add: sample_no_conflicts sample_version path)
qed

subsection \<open>An update that is rolled back\<close>

definition app_manifest :: "sem_ver \<Rightarrow> (sem_ver, sem_ver) package_manifest" where
  "app_manifest v = (sample_manifest ''app'' [])\<lparr>pm_package :=
     (pm_package (sample_manifest ''app'' []))\<lparr>pi_version := v\<rparr>\<rparr>"

definition two_versions :: "(sem_ver, sem_ver, u8, u8) loader_ops" where
  "two_versions = sample_loader\<lparr>lo_parse := (\<lambda>text.
     Inr (app_manifest (if text = bytes_string [1] then SemVer 1 0 0 else SemVer 1 2 0)))\<rparr>"

definition update_entries :: "(string \<times> bytes) list" where
  "update_entries = [(''manifest.toml'', [2])]"

definition version_reader :: "(string \<times> bytes) list \<Rightarrow> sem_ver \<Rightarrow> (sem_ver, sem_ver) package_reader" where
  "version_reader es v = \<lparr>pr_tar_bytes = packed es, pr_manifest = app_manifest v\<rparr>"

lemma two_versions_fields [simp]:
  "lo_archive two_versions = ref_archive" "lo_keys two_versions = ref_ed25519" "lo_semver two_versions = core_semver"
  by (simp_all add: two_versions_def)

lemma app_manifest_valid:
  "manifest_from_toml (lo_parse two_versions) text =
     Inr (app_manifest (if text = bytes_string [1] then SemVer 1 0 0 else SemVer 1 2 0))"
  by (simp add: manifest_from_toml_def manifest_validate_def two_versions_def app_manifest_def sample_manifest_def
      trim_is_empty_def ascii_blank_def wide_blank_def)

lemma versions_open:
  "reader_open ref_archive (lo_parse two_versions) (packed plain_entries) = Ret (Inr (version_reader plain_entries (SemVer 1 0 0)))"
  "reader_open ref_archive (lo_parse two_versions) (packed update_entries) = Ret (Inr (version_reader update_entries (SemVer 1 2 0)))"
  by (simp_all add: reader_open_def packed_ar_entries version_reader_def app_manifest_valid)
    (simp_all add: plain_entries_def update_entries_def validate_layout_ok [THEN iffD2] app_manifest_valid bytes_string_def)

lemma version_entries: "reader_entries ref_archive (version_reader es v) = Inr es"
  using packed_entries [of es] by (simp add: reader_entries_def version_reader_def packed_reader_def)

lemma version_info:
  "pi_name (pm_package (pr_manifest (version_reader es v))) = ''app''"
  "pi_version (pm_package (pr_manifest (version_reader es v))) = v"
  by (simp_all add: version_reader_def app_manifest_def sample_manifest_def)

lemma versions_install:
  "\<exists>out ix' s'. install_package ref_fs two_versions (packed plain_entries) base ix s = Ret (Inr out, ix', s')"
  "\<exists>out ix' s'. install_package ref_fs two_versions (packed update_entries) base ix s = Ret (Inr out, ix', s')"
proof -
  have ok: "fst (write_payload ref_fs d p c t) = Inr ()" for d p c t
    by (simp add: write_payload_def ref_fs_ok Let_def split: option.split)
  have "fst (unpack_payload ref_fs d plain_entries t) = Inr ()" "fst (unpack_payload ref_fs d update_entries t) = Inr ()" for d t
    using ok [of d "''m.wasm''" "[5, 6]" t]
    by (auto simp: plain_entries_def update_entries_def strip_prefix_def path_defs split: prod.split)
  then show "\<exists>out ix' s'. install_package ref_fs two_versions (packed plain_entries) base ix s = Ret (Inr out, ix', s')"
    "\<exists>out ix' s'. install_package ref_fs two_versions (packed update_entries) base ix s = Ret (Inr out, ix', s')"
    using install_completes [of two_versions "packed plain_entries" "version_reader plain_entries (SemVer 1 0 0)" plain_entries base ix s]
      install_completes [of two_versions "packed update_entries" "version_reader update_entries (SemVer 1 2 0)" update_entries base ix s]
    by (simp_all add: versions_open version_entries)
qed

lemma version_validates:
  "\<exists>report. validate_package two_versions [] (packed plain_entries) [] ix trust_store_new (ApiVersion 1 0) =
     Ret (Inr report) \<and> report_is_valid report"
proof -
  let ?reader = "version_reader plain_entries (SemVer 1 0 0)"
  have status: "Package_Archive.signature_status ref_archive ref_ed25519 ?reader = Inr Unsigned"
    by (simp add: Package_Archive.signature_status_def version_entries)
      (simp add: plain_entries_def entry_at_def SIGNATURE_MEMBER_PATH_def PUBLIC_KEY_MEMBER_PATH_def)
  have "detect_conflicts core_semver [] [pr_manifest ?reader] ix (ApiVersion 1 0) = []"
      "pt_supported (pm_platforms (pr_manifest ?reader)) = []"
    by (simp_all add: detect_conflicts_def version_reader_def app_manifest_def sample_manifest_def is_compatible_def
        resolve_versions_def)
  then show ?thesis
    using validate_package_report [of two_versions "packed plain_entries" ?reader Unsigned trust_store_new UnknownTrust
        "[]" ix "ApiVersion 1 0"] status
    by (simp add: versions_open classify_def report_is_valid_def)
qed

theorem install_then_rollback_witness:
  "\<exists>out1 ix1 s1 out2 ix2 s2 h.
     install_package ref_fs two_versions (packed plain_entries) ''/p'' Map.empty Map.empty = Ret (Inr out1, ix1, s1) \<and>
     install_package ref_fs two_versions (packed update_entries) ''/p'' ix1 s1 = Ret (Inr out2, ix2, s2) \<and>
     rollback_package ref_fs two_versions [] (3 :: nat) ''app'' ''/p''
       (record_install ''app'' (SemVer 1 2 0) 2 (record_install ''app'' (SemVer 1 0 0) 1 empty_history))
       trust_store_new ix2 (ApiVersion 1 0) s2 = Ret (Inr (SemVer 1 0 0) :: sample_error + _, h)"
proof -
  obtain out1 ix1 s1 where first: "install_package ref_fs two_versions (packed plain_entries) ''/p'' Map.empty Map.empty = Ret (Inr out1, ix1, s1)"
    using versions_install(1) by blast
  obtain out2 ix2 s2 where second: "install_package ref_fs two_versions (packed update_entries) ''/p'' ix1 s1 = Ret (Inr out2, ix2, s2)"
    using versions_install(2) by blast
  obtain report where report: "validate_package two_versions [] (packed plain_entries) [] ix2 trust_store_new (ApiVersion 1 0) =
      Ret (Inr report)" "report_is_valid report"
    using version_validates by blast
  have shown: "sem_ver_display (SemVer 1 2 0) = ''1.2.0''"
    by code_simp
  have members: "\<forall>es. reader_entries (lo_archive two_versions) (version_reader fs v) = Inr es \<longrightarrow> (\<forall>e \<in> set es. harmless (fst e))"
    if "fs = plain_entries \<or> fs = update_entries" for fs v
    using that by (auto simp: version_entries plain_entries_def update_entries_def harmless_def path_is_absolute_def)
  have words: "plain_absolute ''/p''" "entry_name ''app''" "entry_name ''1.0.0''" "entry_name ''1.2.0''"
    by (simp_all add: path_defs entry_name_def)
  let ?h = "record_install ''app'' (SemVer 1 2 0) 2 (record_install ''app'' (SemVer 1 0 0) 1 empty_history)"
  have "rollback_package ref_fs two_versions [] (3 :: nat) ''app'' ''/p'' ?h trust_store_new ix2 (ApiVersion 1 0) s2 =
     Ret (case Inr report of Inl e \<Rightarrow> (Inl (RollbackPackage e), ?h)
       | Inr report \<Rightarrow>
           if report_is_valid report
           then (Inr (SemVer 1 0 0) :: sample_error + _, record_rollback ''app'' (SemVer 1 0 0) 3 ?h)
           else (Inl (Incompatible ''app'' (SemVer 1 0 0) (vr_conflicts report)), ?h))"
    by (rule install_then_rollback [OF ref_fs_store words(1) first _ members [OF disjI1 [OF refl]] second _ members [OF disjI2 [OF refl]] version_info(1) version_info(1)
          version_info(2) version_info(2) _ words(2) _ _ refl report(1)])
      (simp_all add: versions_open shown sample_version words)
  with first second report(2) show ?thesis
    by auto
qed

end
