(* ===== verification/Io_Budget.thy ===== *)
theory Io_Budget
  imports Runtime_Context
begin

text \<open>
  What a module can reach over a run: sequences of the access checks of
  \<open>crates/nyarix-module-api/src/context.rs\<close> against one context, whose rate limiter
  (\<open>rate_limiter.rs\<close>) they share.
\<close>

subsection \<open>Floating-point tokens\<close>

text \<open>
  What the limiter relies on of \<open>f64\<close>. \<open>val\<close> is the value of a float that is a number. Integers of
  32 bits and comparisons are exact, and so is taking one from a number of tokens between one and
  two to the power 32. Refilling rounds: the new number of tokens exceeds the exact one by at most
  \<open>err\<close>, as long as that is below two to the power 32, where the capacity cuts it off. For IEEE
  doubles \<open>err\<close> is below two to the power -19: the roundings of the elapsed seconds, of the product
  and of the sum are each within two to the power -53 of a value below two to the power 32.
\<close>

definition duration_max :: nat where
  "duration_max = 2 ^ 64 * 1000000000"

locale f64_tokens =
  fixes F :: "'f f64_ops" and number :: "'f \<Rightarrow> bool" and val :: "'f \<Rightarrow> rat" and err :: rat
  assumes err_nonneg: "0 \<le> err"
    and whole: "n < 2 ^ 32 \<Longrightarrow> number (f_of_nat F n) \<and> val (f_of_nat F n) = of_nat n"
    and compare: "number a \<Longrightarrow> number b \<Longrightarrow> f_le F a b \<longleftrightarrow> val a \<le> val b"
    and take_one:
      "number t \<Longrightarrow> 1 \<le> val t \<Longrightarrow> val t \<le> 2 ^ 32 \<Longrightarrow>
       number (f_sub F t (f_of_nat F 1)) \<and> val (f_sub F t (f_of_nat F 1)) = val t - 1"
    and refill:
      "number t \<Longrightarrow> 0 \<le> val t \<Longrightarrow> val t \<le> 2 ^ 32 \<Longrightarrow> r < 2 ^ 32 \<Longrightarrow> d < duration_max \<Longrightarrow>
       x = f_add F t (f_mul F (secs_f64 F d) (f_of_nat F r)) \<Longrightarrow>
       number x \<and> 0 \<le> val x \<and>
       (val x \<le> val t + of_nat r * of_nat d / 1000000000 + err \<or> 2 ^ 32 \<le> val t + of_nat r * of_nat d / 1000000000)"
begin

text \<open>A limiter made for \<open>c\<close> tokens and \<open>r\<close> per second.\<close>

definition limiter_ok :: "nat \<Rightarrow> nat \<Rightarrow> 'f rate_limiter \<Rightarrow> bool" where
  "limiter_ok c r l \<longleftrightarrow> c < 2 ^ 32 \<and> r < 2 ^ 32 \<and> rl_capacity l = f_of_nat F c \<and>
     rl_refill_per_second l = f_of_nat F r \<and> number (rl_tokens l) \<and> 0 \<le> val (rl_tokens l) \<and>
     val (rl_tokens l) \<le> of_nat c"

lemma limiter_new_ok:
  "limiter_ok (unat capacity) (unat rate) (rate_limiter_new F now capacity rate) \<and>
   val (rl_tokens (rate_limiter_new F now capacity rate)) = of_nat (unat capacity)"
proof -
  have "unat capacity < 2 ^ 32" "unat rate < 2 ^ 32"
    using unsigned_less [of capacity] unsigned_less [of rate] by simp_all
  with whole of_nat_0_le_iff [of "unat capacity", where 'a = rat] show ?thesis
    by (simp add: limiter_ok_def rate_limiter_new_def)
qed

lemma try_acquire_account:
  assumes ok: "limiter_ok c r l" and time: "rl_last_refill l \<le> now" "now - rl_last_refill l < duration_max"
    and run: "try_acquire F now l = (granted, l')"
  shows "limiter_ok c r l' \<and> rl_last_refill l' = now \<and>
    (if granted then 1 else 0) + val (rl_tokens l') \<le>
      val (rl_tokens l) + of_nat r * of_nat (now - rl_last_refill l) / 1000000000 + err"
proof -
  define exact where "exact = val (rl_tokens l) + of_nat r * of_nat (now - rl_last_refill l) / 1000000000"
  define x where "x = f_add F (rl_tokens l) (f_mul F (secs_f64 F (now - rl_last_refill l)) (f_of_nat F r))"
  define t where "t = f_min F x (f_of_nat F c)"
  have c: "c < 2 ^ 32" "number (f_of_nat F c)" "val (f_of_nat F c) = of_nat c" and cap: "(of_nat c :: rat) \<le> 2 ^ 32"
    and l: "number (rl_tokens l)" "0 \<le> val (rl_tokens l)" "val (rl_tokens l) \<le> 2 ^ 32" "r < 2 ^ 32"
  proof -
    show "c < 2 ^ 32" "number (f_of_nat F c)" "val (f_of_nat F c) = of_nat c"
      using ok whole by (simp_all add: limiter_ok_def)
    then show cap: "(of_nat c :: rat) \<le> 2 ^ 32"
      using of_nat_le_iff [of c "2 ^ 32", where 'a = rat] by simp
    show "number (rl_tokens l)" "0 \<le> val (rl_tokens l)" "val (rl_tokens l) \<le> 2 ^ 32" "r < 2 ^ 32"
      using ok cap by (auto simp: limiter_ok_def)
  qed
  have x: "number x" "0 \<le> val x" "val x \<le> exact + err \<or> 2 ^ 32 \<le> exact"
    using refill [OF l(1-4) time(2) x_def] by (simp_all add: exact_def)
  then have t: "number t" "0 \<le> val t" "val t \<le> of_nat c" "val t \<le> exact + err"
    using c compare [of x "f_of_nat F c"] cap err_nonneg by (auto simp: t_def f_min_def)
  have one: "number (f_of_nat F 1)" "val (f_of_nat F 1) = 1"
    using whole [of 1] by simp_all
  have run: "granted \<longleftrightarrow> 1 \<le> val t"
      "l' = l\<lparr>rl_tokens := (if 1 \<le> val t then f_sub F t (f_of_nat F 1) else t), rl_last_refill := now\<rparr>"
    using run ok compare [OF one(1) t(1)] one(2)
    by (auto simp: try_acquire_def Let_def limiter_ok_def x_def [symmetric] t_def [symmetric] split: if_splits)
  show ?thesis
  proof (cases "1 \<le> val t")
    case True
    with take_one [OF t(1) True] t cap run ok show ?thesis
      by (auto simp: limiter_ok_def exact_def)
  next
    case False
    with t run ok show ?thesis
      by (auto simp: limiter_ok_def exact_def)
  qed
qed

end

text \<open>Arithmetic without rounding, and arithmetic that rounds every product up.\<close>

definition exact_f64 :: "rat f64_ops" where
  "exact_f64 = \<lparr>f_of_nat = of_nat, f_le = (\<le>), f_lt = (<), f_add = (+), f_sub = (-), f_mul = (*),
     f_div = (/), f_ceil_u64 = (\<lambda>x. of_int \<lceil>x\<rceil>), f_to_i64 = (\<lambda>x. of_int \<lfloor>x\<rfloor>)\<rparr>"

lemma exact_ops [simp]:
  "f_of_nat exact_f64 = of_nat" "f_le exact_f64 = (\<le>)" "f_add exact_f64 = (+)" "f_sub exact_f64 = (-)"
  "f_mul exact_f64 = (*)" "f_div exact_f64 = (/)"
  by (simp_all add: exact_f64_def)

lemma secs_exact: "secs_f64 exact_f64 d = of_nat d / 1000000000"
proof -
  have "(of_nat d :: rat) = of_nat (d div 1000000000) * 1000000000 + of_nat (d mod 1000000000)"
    by (metis of_nat_add of_nat_mult of_nat_numeral div_mult_mod_eq)
  then show ?thesis
    by (simp add: secs_f64_def add_divide_distrib)
qed

definition rounding_f64 :: "rat f64_ops" where
  "rounding_f64 = exact_f64\<lparr>f_mul := (\<lambda>a b. of_int \<lceil>a * b * 2 ^ 20\<rceil> / 2 ^ 20)\<rparr>"

lemma rounding_ops [simp]:
  "f_of_nat rounding_f64 = of_nat" "f_le rounding_f64 = (\<le>)" "f_add rounding_f64 = (+)" "f_sub rounding_f64 = (-)"
  "f_mul rounding_f64 = (\<lambda>a b. of_int \<lceil>a * b * 2 ^ 20\<rceil> / 2 ^ 20)"
  by (simp_all add: rounding_f64_def)

lemma secs_rounding: "secs_f64 rounding_f64 d = of_nat d / 1000000000"
  using secs_exact by (simp add: secs_f64_def rounding_f64_def)

interpretation exact: f64_tokens exact_f64 "\<lambda>_. True" id 0
  by unfold_locales (simp_all add: secs_exact mult.commute)

interpretation rounding: f64_tokens rounding_f64 "\<lambda>_. True" id "1 / 2 ^ 20"
proof unfold_locales
  fix t x :: rat and r d :: nat
  assume t: "0 \<le> id t" and x: "x = f_add rounding_f64 t (f_mul rounding_f64 (secs_f64 rounding_f64 d) (f_of_nat rounding_f64 r))"
  define y :: rat where "y = of_nat r * of_nat d / 1000000000"
  have y: "0 \<le> y" "x = t + of_int \<lceil>y * 2 ^ 20\<rceil> / 2 ^ 20"
    by (simp_all add: y_def x secs_rounding mult.commute)
  have "of_int \<lceil>y * 2 ^ 20\<rceil> \<le> y * 2 ^ 20 + 1"
    by linarith
  then have "of_int \<lceil>y * 2 ^ 20\<rceil> / 2 ^ 20 \<le> y + 1 / 2 ^ 20"
    by (simp add: field_simps)
  moreover have "0 \<le> \<lceil>y * 2 ^ 20\<rceil>"
    using y(1) by simp
  ultimately show "True \<and> 0 \<le> id x \<and>
      (id x \<le> id t + of_nat r * of_nat d / 1000000000 + 1 / 2 ^ 20 \<or> 2 ^ 32 \<le> id t + of_nat r * of_nat d / 1000000000)"
    using t y(2) by (simp add: y_def)
qed simp_all

lemma rounding_tokens: "f64_tokens rounding_f64 (\<lambda>_. True) id (1 / 2 ^ 20)"
  by (rule rounding.f64_tokens_axioms)

subsection \<open>Sequences of checks\<close>

datatype io_check = CheckFile string | CheckNetwork string u16 | CheckDns string | CheckBind u16

primrec perform_check ::
    "('b, event) broadcast_ops \<Rightarrow> 'f f64_ops \<Rightarrow> 'v module_metadata \<Rightarrow> nat \<Rightarrow> io_check \<Rightarrow>
     ('toml, 'm, 'f, 'b) ctx_state \<Rightarrow> (security_error + unit) \<times> ('toml, 'm, 'f, 'b) ctx_state" where
  "perform_check B F md now (CheckFile path) = check_file_access B F now md path"
| "perform_check B F md now (CheckNetwork host port) = check_network_access B F now md host port"
| "perform_check B F md now (CheckDns host) = check_dns_resolve B F now md host"
| "perform_check B F md now (CheckBind port) = check_bind_access B F now md port"

text \<open>Each check comes with the time at which it is made.\<close>

fun perform_checks ::
    "('b, event) broadcast_ops \<Rightarrow> 'f f64_ops \<Rightarrow> 'v module_metadata \<Rightarrow> (nat \<times> io_check) list \<Rightarrow>
     ('toml, 'm, 'f, 'b) ctx_state \<Rightarrow> (security_error + unit) list \<times> ('toml, 'm, 'f, 'b) ctx_state" where
  "perform_checks B F md [] st = ([], st)"
| "perform_checks B F md ((now, c) # cs) st =
     (let (r, st1) = perform_check B F md now c st; (rs, st2) = perform_checks B F md cs st1 in (r # rs, st2))"

text \<open>What the capabilities and the whitelists of a context permit, the limiter aside.\<close>

primrec permitted :: "('toml, 'm, 'f) runtime_context \<Rightarrow> io_check \<Rightarrow> bool" where
  "permitted ctx (CheckFile path) \<longleftrightarrow>
     mask_has (cx_granted_capabilities ctx) Filesystem \<and> fs_allows (cx_filesystem_policy ctx) path"
| "permitted ctx (CheckNetwork host port) \<longleftrightarrow>
     mask_has (cx_granted_capabilities ctx) Network \<and> net_allows (cx_network_policy ctx) host port"
| "permitted ctx (CheckDns host) \<longleftrightarrow>
     mask_has (cx_granted_capabilities ctx) Dns \<and> net_allows_host (cx_network_policy ctx) host"
| "permitted ctx (CheckBind port) \<longleftrightarrow>
     mask_has (cx_granted_capabilities ctx) Network \<and>
     (port < 1024 \<longrightarrow> mask_has (cx_granted_capabilities ctx) PrivilegedSockets)"

definition passes :: "(security_error + unit) list \<Rightarrow> nat" where
  "passes rs = length (filter (\<lambda>r. r = Inr ()) rs)"

lemma limiter_charged_capabilities [simp]:
  "cx_granted_capabilities (limiter_charged F now ctx) = cx_granted_capabilities ctx"
  by (simp add: limiter_charged_def)

text \<open>A check passes only with a token, and touches nothing of the context but the limiter.\<close>

lemma perform_check_result:
  assumes "perform_check B F md now c (ctx, w) = (r, (ctx', w'))"
  shows "r = Inr () \<longleftrightarrow> permitted ctx c \<and> limiter_allows F now ctx"
    "ctx' = limiter_charged F now ctx \<or> ctx' = ctx \<and> r \<noteq> Inr ()"
proof -
  have "fst (perform_check B F md now c (ctx, w)) = Inr () \<longleftrightarrow> permitted ctx c \<and> limiter_allows F now ctx"
    by (cases c)
      (auto simp: check_file_access_def check_network_access_def check_dns_resolve_def check_bind_access_def checks
        split: if_splits)
  with assms show passed: "r = Inr () \<longleftrightarrow> permitted ctx c \<and> limiter_allows F now ctx"
    by simp
  have "fst (snd (perform_check B F md now c (ctx, w))) = limiter_charged F now ctx \<or>
      fst (snd (perform_check B F md now c (ctx, w))) = ctx \<and> \<not> permitted ctx c"
    by (cases c)
      (auto simp: check_file_access_def check_network_access_def check_dns_resolve_def check_bind_access_def checks)
  with assms passed show "ctx' = limiter_charged F now ctx \<or> ctx' = ctx \<and> r \<noteq> Inr ()"
    by auto
qed

definition same_but_limiter :: "('toml, 'm, 'f) runtime_context \<Rightarrow> ('toml, 'm, 'f) runtime_context \<Rightarrow> bool" where
  "same_but_limiter ctx ctx' \<longleftrightarrow> (\<exists>l. ctx' = ctx\<lparr>cx_io_rate_limiter := l\<rparr>)"

lemma same_but_limiter_permitted: "same_but_limiter ctx ctx' \<Longrightarrow> permitted ctx' c = permitted ctx c"
  by (cases c) (auto simp: same_but_limiter_def)

text \<open>
  The account of a run: the checks passed are covered by the tokens at the start, what was refilled
  since, and the rounding of each refill.
\<close>

context f64_tokens
begin

lemma perform_checks_account:
  "cx_io_rate_limiter ctx = Some l \<Longrightarrow> limiter_ok c r l \<Longrightarrow> sorted (rl_last_refill l # map fst cs) \<Longrightarrow>
   last (rl_last_refill l # map fst cs) - rl_last_refill l < duration_max \<Longrightarrow>
   perform_checks B F md cs (ctx, w) = (rs, (ctx', w')) \<Longrightarrow>
   of_nat (passes rs) \<le> val (rl_tokens l) +
     of_nat r * of_nat (last (rl_last_refill l # map fst cs) - rl_last_refill l) / 1000000000 +
     err * of_nat (length cs) \<and>
   length rs = length cs \<and> same_but_limiter ctx ctx' \<and>
   (\<forall>i < length cs. rs ! i = Inr () \<longrightarrow> permitted ctx (snd (cs ! i)))"
proof (induction cs arbitrary: ctx w l rs)
  case Nil
  then show ?case
    by (auto simp: passes_def same_but_limiter_def limiter_ok_def intro: exI [of _ "cx_io_rate_limiter ctx"])
next
  case (Cons nc cs)
  obtain now k where nc: "nc = (now, k)" by fastforce
  obtain res ctx1 w1 where step: "perform_check B F md now k (ctx, w) = (res, (ctx1, w1))"
    by (metis prod_cases3)
  obtain qs where rest: "perform_checks B F md cs (ctx1, w1) = (qs, (ctx', w'))" and rs: "rs = res # qs"
    using Cons.prems(5) step nc by (auto split: prod.splits)
  obtain granted l1 where acq: "try_acquire F now l = (granted, l1)"
    by fastforce
  have sorted: "rl_last_refill l \<le> now" "sorted (now # map fst cs)"
    using Cons.prems(3) nc by auto
  let ?T = "last (now # map fst cs)"
  have T: "now \<le> ?T" "?T - rl_last_refill l < duration_max"
    using sorted(2) Cons.prems(4) nc by (cases cs rule: rev_cases; auto)+
  have account: "limiter_ok c r l1" "rl_last_refill l1 = now"
      "(if granted then 1 else 0) + val (rl_tokens l1) \<le>
        val (rl_tokens l) + of_nat r * of_nat (now - rl_last_refill l) / 1000000000 + err"
    using try_acquire_account [OF Cons.prems(2) sorted(1) _ acq] T by auto
  note result = perform_check_result [OF step]
  have charged: "limiter_charged F now ctx = ctx\<lparr>cx_io_rate_limiter := Some l1\<rparr>"
    using Cons.prems(1) acq by (simp add: limiter_charged_def)
  have allowed: "res = Inr () \<Longrightarrow> granted"
    using result(1) Cons.prems(1) acq by (simp add: limiter_allows_def)
  have same: "same_but_limiter ctx ctx1"
    using result(2) charged by (auto simp: same_but_limiter_def intro: exI [of _ "cx_io_rate_limiter ctx"])
  obtain l2 where l2: "cx_io_rate_limiter ctx1 = Some l2" "limiter_ok c r l2" "rl_last_refill l2 \<le> now"
      "rl_last_refill l \<le> rl_last_refill l2"
      "(if res = Inr () then 1 else 0) + val (rl_tokens l2) \<le>
         val (rl_tokens l) + of_nat r * of_nat (rl_last_refill l2 - rl_last_refill l) / 1000000000 + err"
  proof (cases "ctx1 = ctx \<and> res \<noteq> Inr ()")
    case True
    then show thesis
      using that [of l] Cons.prems sorted err_nonneg by simp
  next
    case False
    with result(2) charged have "cx_io_rate_limiter ctx1 = Some l1"
      by auto
    moreover have "(if res = Inr () then 1 else 0) + val (rl_tokens l1) \<le> (if granted then 1 else 0) + val (rl_tokens l1)"
      using allowed by simp
    ultimately show thesis
      using that [of l1] account sorted(1) by (auto simp: order_trans)
  qed
  have last: "last (rl_last_refill l2 # map fst cs) \<le> ?T" "rl_last_refill l2 \<le> last (rl_last_refill l2 # map fst cs)"
    using l2(3) sorted(2) by (cases cs rule: rev_cases; auto)+
  have "sorted (rl_last_refill l2 # map fst cs)" "last (rl_last_refill l2 # map fst cs) - rl_last_refill l2 < duration_max"
    using l2(3,4) sorted(2) last T(2) by auto
  from Cons.IH [OF l2(1,2) this rest]
  have IH: "of_nat (passes qs) \<le> val (rl_tokens l2) +
      of_nat r * of_nat (last (rl_last_refill l2 # map fst cs) - rl_last_refill l2) / 1000000000 + err * of_nat (length cs)"
      "length qs = length cs" "same_but_limiter ctx1 ctx'"
      "\<forall>i < length cs. qs ! i = Inr () \<longrightarrow> permitted ctx1 (snd (cs ! i))"
    by auto
  have "of_nat (last (rl_last_refill l2 # map fst cs) - rl_last_refill l2) + of_nat (rl_last_refill l2 - rl_last_refill l) \<le>
      (of_nat (?T - rl_last_refill l) :: rat)"
    using last l2(4) unfolding of_nat_add [symmetric] of_nat_le_iff by linarith
  from mult_left_mono [OF this of_nat_0_le_iff [of r]]
  have "of_nat r * of_nat (last (rl_last_refill l2 # map fst cs) - rl_last_refill l2) / 1000000000 +
      of_nat r * of_nat (rl_last_refill l2 - rl_last_refill l) / 1000000000 \<le>
      (of_nat r * of_nat (?T - rl_last_refill l) / 1000000000 :: rat)"
    by (simp add: add_divide_distrib [symmetric] distrib_left divide_right_mono del: last.simps)
  moreover have "(of_nat (passes rs) :: rat) = (if res = Inr () then 1 else 0) + of_nat (passes qs)"
    by (simp add: rs passes_def)
  ultimately have "of_nat (passes rs) \<le> val (rl_tokens l) + of_nat r * of_nat (?T - rl_last_refill l) / 1000000000 +
      err * of_nat (length (nc # cs))"
    using IH(1) l2(5) by (simp add: distrib_left del: last.simps)
  moreover have "same_but_limiter ctx ctx'"
    using same IH(3) by (auto simp: same_but_limiter_def)
  moreover have "\<forall>i < length (nc # cs). rs ! i = Inr () \<longrightarrow> permitted ctx (snd ((nc # cs) ! i))"
    using IH(4) result(1) same_but_limiter_permitted [OF same] by (simp add: rs nc nth_Cons' )
  ultimately show ?case
    using IH(2) by (simp add: nc rs del: last.simps) (simp add: last.simps)
qed

end

text \<open>
  C29. Over any sequence of checks, at most as many pass as the limiter's capacity and what its rate
  refills from its creation to the last check, plus the rounding of one refill per check (which for
  \<open>f64\<close> is below two to the power -19, and nothing without rounding), whatever mixture of files,
  connections, names and ports is asked for. Each check that passes is permitted by the capabilities
  and whitelists the context was made with, which no sequence of checks changes.
\<close>

theorem io_checks_bounded:
  assumes "f64_tokens F number val err"
    and "cx_io_rate_limiter ctx = Some (rate_limiter_new F start capacity rate)"
    and "sorted (start # map fst cs)" "last (start # map fst cs) - start < duration_max"
    and "perform_checks B F md cs (ctx, w) = (rs, (ctx', w'))"
  shows "(of_nat (passes rs) :: rat) \<le>
      of_nat (unat capacity) + of_nat (unat rate) * of_nat (last (start # map fst cs) - start) / 1000000000 +
      err * of_nat (length cs) \<and>
    length rs = length cs \<and> ctx' = ctx\<lparr>cx_io_rate_limiter := cx_io_rate_limiter ctx'\<rparr> \<and>
    (\<forall>i < length cs. rs ! i = Inr () \<longrightarrow> permitted ctx (snd (cs ! i)))"
proof -
  have new: "rl_last_refill (rate_limiter_new F start capacity rate) = start"
    by (simp add: rate_limiter_new_def)
  note ok = f64_tokens.limiter_new_ok [OF assms(1), of capacity rate start]
  show ?thesis
    using f64_tokens.perform_checks_account [OF assms(1,2) conjunct1 [OF ok] _ _ assms(5)] assms(3,4) conjunct2 [OF ok] new
    by (auto simp del: last.simps simp: same_but_limiter_def)
qed

definition sample_context :: "(unit, unit, rat) runtime_context" where
  "sample_context = with_io_rate_limiter (rate_limiter_new rounding_f64 0 2 1)
     (with_filesystem_policy (fs_allowing [''/data''])
       (with_granted_capabilities (mask_from_capabilities [Filesystem]) (context_new ''linux'' 0 () Map.empty)))"

definition sample_metadata :: "unit module_metadata" where
  "sample_metadata = module_metadata_new ''app'' () FlowModule"

theorem io_checks_bounded_witness:
  "\<forall>w. passes (fst (perform_checks ref_broadcast rounding_f64 sample_metadata
      [(0, CheckFile ''/data/a''), (0, CheckFile ''/etc/b''), (0, CheckFile ''/data/c''), (1000000000, CheckFile ''/data/d'')]
      (sample_context, w))) \<le> 3"
proof
  fix w
  let ?cs = "[(0 :: nat, CheckFile ''/data/a''), (0, CheckFile ''/etc/b''), (0, CheckFile ''/data/c''), (1000000000, CheckFile ''/data/d'')]"
  obtain rs ctx' w' where run: "perform_checks ref_broadcast rounding_f64 sample_metadata ?cs (sample_context, w) = (rs, (ctx', w'))"
    by (metis prod_cases3)
  have limiter: "cx_io_rate_limiter sample_context = Some (rate_limiter_new rounding_f64 0 2 1)"
    by (simp add: sample_context_def with_io_rate_limiter_def)
  have "sorted (0 # map fst ?cs)" "last (0 # map fst ?cs) - 0 < duration_max"
    by (simp_all add: duration_max_def)
  from io_checks_bounded [OF rounding_tokens limiter this run] have "(of_nat (passes rs) :: rat) < of_nat 4"
    by simp
  then show "passes (fst (perform_checks ref_broadcast rounding_f64 sample_metadata ?cs (sample_context, w))) \<le> 3"
    unfolding run of_nat_less_iff by simp
qed

end
