(* ===== verification/Cancel_Tokens.thy ===== *)
theory Cancel_Tokens
  imports Runtime_Context
begin

text \<open>
  The cancellation tokens of \<open>tokio_util\<close> as an interface, what it gives the sandboxes of modules
  (\<open>crates/nyarix-module-api/src/sandbox.rs\<close>), and the shutdown on Ctrl+C
  (\<open>crates/nyarix-runtime/src/shutdown.rs\<close>).
\<close>

subsection \<open>The interface\<close>

text \<open>
  \<open>below s i j\<close>: both tokens exist and \<open>j\<close> is \<open>i\<close> or a descendant of it. Cancelling a token
  cancels it and what is below it, for good; a child of a cancelled token is cancelled.
\<close>

locale cancellation =
  fixes K :: "'t token_ops" and below :: "'t \<Rightarrow> nat \<Rightarrow> nat \<Rightarrow> bool"
  assumes new_token:
      "tk_new K s = (i, s') \<Longrightarrow>
       \<not> below s i i \<and> (below s' j k \<longleftrightarrow> below s j k \<or> j = i \<and> k = i) \<and> \<not> tk_is_cancelled K i s' \<and>
       (below s k k \<longrightarrow> tk_is_cancelled K k s' = tk_is_cancelled K k s)"
    and child_token:
      "below s p p \<Longrightarrow> tk_child K p s = (i, s') \<Longrightarrow>
       \<not> below s i i \<and> (below s' j k \<longleftrightarrow> below s j k \<or> k = i \<and> (j = i \<or> below s j p)) \<and>
       tk_is_cancelled K i s' = tk_is_cancelled K p s \<and>
       (below s k k \<longrightarrow> tk_is_cancelled K k s' = tk_is_cancelled K k s)"
    and cancel_token:
      "below s i i \<Longrightarrow> below s j j \<Longrightarrow>
       tk_is_cancelled K j (tk_cancel K i s) \<longleftrightarrow> tk_is_cancelled K j s \<or> below s i j"
    and below_cancel: "below (tk_cancel K i s) j k = below s j k"
    and existing: "below s j k \<Longrightarrow> below s j j \<and> below s k k"
begin

lemma child_own:
  assumes "below s p p" "tk_child K p s = (i, s')"
  shows "below s' i i" "below s' p i" "below s q q \<Longrightarrow> below s' q q" "below s q q \<Longrightarrow> \<not> below s' i q"
    "below s q q \<Longrightarrow> tk_is_cancelled K q s' = tk_is_cancelled K q s"
proof -
  have law: "below s' j k \<longleftrightarrow> below s j k \<or> k = i \<and> (j = i \<or> below s j p)" for j k
    using child_token [OF assms] by blast
  have fresh: "\<not> below s i i"
    using child_token [OF assms] by blast
  show "below s' i i" "below s' p i" "below s q q \<Longrightarrow> below s' q q"
    using assms(1) by (simp_all add: law)
  show "\<not> below s' i q" if "below s q q"
    using that fresh existing [of s i q] by (auto simp: law)
  show "below s q q \<Longrightarrow> tk_is_cancelled K q s' = tk_is_cancelled K q s"
    using child_token [OF assms] by blast
qed

text \<open>Cancelling a child leaves every other token alone; cancelling a token reaches its child.\<close>

lemma child_cancelled_alone:
  assumes "below s p p" "tk_child K p s = (i, s')" "below s q q"
  shows "tk_is_cancelled K q (tk_cancel K i s') = tk_is_cancelled K q s"
  using cancel_token [OF child_own(1,3) [OF assms(1,2)], OF assms(3)] child_own(4,5) [OF assms] by blast

lemma cancel_reaches_child:
  assumes "below s p p" "tk_child K p s = (i, s')"
  shows "tk_is_cancelled K i (tk_cancel K p s')"
  using cancel_token [OF child_own(3,1) [OF assms], OF assms(1)] child_own(2) [OF assms] by blast

lemma cancelled_itself: "below s i i \<Longrightarrow> tk_is_cancelled K i (tk_cancel K i s)"
  by (simp add: cancel_token)

end

subsection \<open>A reference\<close>

text \<open>A token is its index; it keeps the list of its ancestors and whether it was cancelled itself.\<close>

type_synonym token_store = "(nat list \<times> bool) list"

definition ancestors :: "token_store \<Rightarrow> nat \<Rightarrow> nat list" where
  "ancestors s i = i # filter (\<lambda>a. a < i) (fst (s ! i))"

definition ref_tokens :: "token_store token_ops" where
  "ref_tokens = \<lparr>
     tk_new = (\<lambda>s. (length s, s @ [([], False)])),
     tk_child = (\<lambda>p s. (length s, s @ [(ancestors s p, False)])),
     tk_cancel = (\<lambda>i s. if i < length s then s[i := (fst (s ! i), True)] else s),
     tk_is_cancelled = (\<lambda>i s. i < length s \<and> (\<exists>a \<in> set (ancestors s i). snd (s ! a)))\<rparr>"

definition ref_below :: "token_store \<Rightarrow> nat \<Rightarrow> nat \<Rightarrow> bool" where
  "ref_below s i j \<longleftrightarrow> j < length s \<and> i \<in> set (ancestors s j)"

lemma ancestors_le: "a \<in> set (ancestors s i) \<Longrightarrow> a \<le> i"
  by (auto simp: ancestors_def)

lemma ancestors_self [simp]: "i \<in> set (ancestors s i)"
  by (simp add: ancestors_def)

lemma ancestors_append: "i < length s \<Longrightarrow> ancestors (s @ xs) i = ancestors s i"
  by (simp add: ancestors_def nth_append)

lemma ancestors_last: "ancestors (s @ [(as, b)]) (length s) = length s # filter (\<lambda>a. a < length s) as"
  by (simp add: ancestors_def)

lemma ancestors_parent: "p < length s \<Longrightarrow> filter (\<lambda>a. a < length s) (ancestors s p) = ancestors s p"
  by (rule filter_True) (use ancestors_le [of _ s p] in fastforce)

lemma ancestors_update: "ancestors (s[i := (fst (s ! i), b)]) j = ancestors s j"
  by (cases "i < length s"; cases "i = j") (simp_all add: ancestors_def list_update_beyond)

lemma flag_append: "i < length s \<Longrightarrow> a \<in> set (ancestors s i) \<Longrightarrow> snd ((s @ xs) ! a) = snd (s ! a)"
  using ancestors_le [of a s i] by (simp add: nth_append)

lemma flags_append: "i < length s \<Longrightarrow> (\<exists>a \<in> set (ancestors s i). snd ((s @ xs) ! a)) \<longleftrightarrow> (\<exists>a \<in> set (ancestors s i). snd (s ! a))"
  using flag_append by blast

lemma flag_update: "i < length s \<Longrightarrow> snd (s[i := (as, True)] ! a) \<longleftrightarrow> snd (s ! a) \<or> i = a"
  by (cases "i = a") simp_all

interpretation tokens: cancellation ref_tokens ref_below
proof (unfold_locales, goal_cases)
  case (1 s i s' j k)
  then have s': "i = length s" "s' = s @ [([], False)]"
    by (simp_all add: ref_tokens_def)
  show ?case
    by (cases "k = length s") (auto simp: s' ref_tokens_def ref_below_def ancestors_append ancestors_last flags_append)
next
  case (2 s p i s' j k)
  then have s': "p < length s" "i = length s" "s' = s @ [(ancestors s p, False)]"
    by (simp_all add: ref_tokens_def ref_below_def)
  then show ?case
    by (cases "k = length s")
      (auto simp: ref_tokens_def ref_below_def ancestors_append ancestors_last ancestors_parent flags_append)
next
  case (3 s i j)
  then show ?case
    by (auto simp: ref_tokens_def ref_below_def flag_update ancestors_update)
next
  case (4 i s j k)
  then show ?case
    by (simp add: ref_tokens_def ref_below_def ancestors_update)
next
  case (5 s j k)
  then show ?case
    using ancestors_le [of j s k] by (simp add: ref_below_def)
qed

subsection \<open>Sandboxes\<close>

text \<open>
  A module that cancels its isolated sandbox cancels no other token, in particular not the one the
  sandbox was made from; that one still cancels the sandbox.
\<close>

lemma sandbox_isolation:
  assumes "cancellation K below" "below s parent parent" "sandbox_isolated K parent s = (sandbox, s')"
  shows "below s q q \<Longrightarrow> tk_is_cancelled K q (sandbox_cancel K sandbox s') = tk_is_cancelled K q s"
    and "tk_is_cancelled K sandbox (sandbox_cancel K parent s')"
  using cancellation.child_cancelled_alone [OF assms(1,2)] cancellation.cancel_reaches_child [OF assms(1,2)] assms(3)
  by (simp_all add: sandbox_isolated_def sandbox_cancel_def)

subsection \<open>Shutdown on Ctrl+C\<close>

text \<open>
  The spawned task: it waits for the signal, and then has cancelled the token or has panicked. Its
  join handle is dropped, so nobody learns of the panic. The text of an I/O error in a panic message
  is its \<open>Debug\<close> form, an argument.
\<close>

datatype ctrl_c_task = AwaitingSignal nat | SignalHandled | HandlerPanicked string

definition cancel_on_ctrl_c :: "'t token_ops \<Rightarrow> 't \<Rightarrow> nat \<times> ctrl_c_task \<times> 't" where
  "cancel_on_ctrl_c K s = (let (token, s1) = tk_new K s in (token, AwaitingSignal token, s1))"

definition ctrl_c_ready ::
    "'t token_ops \<Rightarrow> (io_error \<Rightarrow> string) \<Rightarrow> io_error + unit \<Rightarrow> ctrl_c_task \<Rightarrow> 't \<Rightarrow> ctrl_c_task \<times> 't" where
  "ctrl_c_ready K debug r task s =
     (case task of
        AwaitingSignal child \<Rightarrow>
          (case r of
             Inl e \<Rightarrow> (HandlerPanicked (''failed to install Ctrl+C handler: '' @ debug e), s)
           | Inr _ \<Rightarrow> (SignalHandled, tk_cancel K child s))
      | _ \<Rightarrow> (task, s))"

text \<open>
  The token is not cancelled until the signal arrives, which cancels it. If the handler cannot be
  installed the caller still gets a token, and it is not cancelled: the panic that is meant to make
  the failure loud happens in the spawned task.
\<close>

lemma cancel_on_ctrl_c_token:
  assumes "cancellation K below" "cancel_on_ctrl_c K s = (token, task, s')"
  shows "\<not> tk_is_cancelled K token s'"
    and "ctrl_c_ready K debug (Inr ()) task s' = (task1, s1) \<Longrightarrow> tk_is_cancelled K token s1"
    and "ctrl_c_ready K debug (Inl e) task s' = (task1, s1) \<Longrightarrow> \<not> tk_is_cancelled K token s1"
proof -
  have new: "tk_new K s = (token, s')" "task = AwaitingSignal token"
    using assms(2) by (auto simp: cancel_on_ctrl_c_def split: prod.splits)
  note law = cancellation.new_token [OF assms(1) new(1)]
  show "\<not> tk_is_cancelled K token s'"
    using law by blast
  then show "ctrl_c_ready K debug (Inl e) task s' = (task1, s1) \<Longrightarrow> \<not> tk_is_cancelled K token s1"
    using new by (auto simp: ctrl_c_ready_def)
  show "tk_is_cancelled K token s1" if "ctrl_c_ready K debug (Inr ()) task s' = (task1, s1)"
    using that new(2) cancellation.cancelled_itself [OF assms(1), of s' token] law by (auto simp: ctrl_c_ready_def)
qed

end
