(* ===== verification/Worker_Pools.thy ===== *)
theory Worker_Pools
  imports Execution_Loop
begin

text \<open>
  The worker pools of the runtime (\<open>crates/nyarix-runtime/src/cpu_pool.rs\<close> and \<open>io_pool.rs\<close>). The
  pools themselves are those of \<open>rayon\<close> and \<open>tokio\<close>; building one is an argument, and so is the
  parallelism of the machine. Running a closure on the pool is a step relation between the worker
  and the caller, who share a oneshot channel.
\<close>

subsection \<open>Building\<close>

definition cpu_thread_name :: "nat \<Rightarrow> string" where
  "cpu_thread_name index = ''nyarix-cpu-'' @ show_nat index"

definition cpu_panic_message :: "panic_payload \<Rightarrow> string" where
  "cpu_panic_message payload =
     (case payload of
        StrPayload m \<Rightarrow> m
      | StringPayload m \<Rightarrow> m
      | OtherPayload \<Rightarrow> ''non-string panic payload'')"

definition cpu_pool_new ::
    "(usize \<Rightarrow> (nat \<Rightarrow> string) \<Rightarrow> (panic_payload \<Rightarrow> string) \<Rightarrow> 'e + 'p) \<Rightarrow> usize \<Rightarrow> 'e + 'p" where
  "cpu_pool_new build num_threads = build (max num_threads 1) cpu_thread_name cpu_panic_message"

definition cpu_pool_with_default_parallelism ::
    "(usize \<Rightarrow> (nat \<Rightarrow> string) \<Rightarrow> (panic_payload \<Rightarrow> string) \<Rightarrow> 'e + 'p) \<Rightarrow> io_error + usize \<Rightarrow> 'e + 'p" where
  "cpu_pool_with_default_parallelism build available =
     (let threads = (case available of Inl _ \<Rightarrow> 1 | Inr n \<Rightarrow> n) in cpu_pool_new build threads)"

definition io_pool_new :: "(usize \<Rightarrow> string \<Rightarrow> io_error + 'p) \<Rightarrow> usize \<Rightarrow> io_error + 'p" where
  "io_pool_new build worker_threads = build (max worker_threads 1) ''nyarix-io''"

definition io_pool_with_default_parallelism ::
    "(usize \<Rightarrow> string \<Rightarrow> io_error + 'p) \<Rightarrow> io_error + usize \<Rightarrow> io_error + 'p" where
  "io_pool_with_default_parallelism build available =
     (let threads = (case available of Inl _ \<Rightarrow> 1 | Inr n \<Rightarrow> n) in io_pool_new build threads)"

text \<open>Neither pool is ever asked for no threads.\<close>

lemma pools_have_threads:
  assumes "\<And>n name. 0 < n \<Longrightarrow> cpu_build n name = cpu_build' n name" "\<And>n. 0 < n \<Longrightarrow> io_build n = io_build' n"
  shows "cpu_pool_new cpu_build k = cpu_pool_new cpu_build' k" "io_pool_new io_build k = io_pool_new io_build' k"
    "cpu_pool_with_default_parallelism cpu_build a = cpu_pool_with_default_parallelism cpu_build' a"
    "io_pool_with_default_parallelism io_build a = io_pool_with_default_parallelism io_build' a"
  using assms
  by (simp_all add: cpu_pool_new_def io_pool_new_def cpu_pool_with_default_parallelism_def
      io_pool_with_default_parallelism_def)

subsection \<open>Running a closure\<close>

















end
