(* ===== verification/Spec2Isabelle.thy ===== *)
theory Spec2Isabelle
  imports Loader_Samples Versioning Capabilities Parallel_Samples Loop_Samples Loading_Samples
    Observability Builder_Samples Pool_Store Lifecycle_Samples Io_Budget Cancel_Tokens Worker_Pools
begin

text \<open>
  A model of the Nyarix runtime (\<open>src/crates\<close>), a host that runs packets through a directed graph
  of modules. Modules come as signed \<open>.nyp\<close> archives; a loader finds, validates and installs them;
  the runtime builds a graph from a profile and drives packets through it.

  \<^bold>\<open>Parts and theories\<close>, in the order of the crates:

  \<^item> \<open>nyarix-core\<close>, \<open>nyarix-error\<close>: \<open>Core_Types\<close> (identifiers as 128-bit words, versions, platforms),
    \<open>Errors\<close> (one datatype per error enum, and their messages).
  \<^item> \<open>nyarix-packet\<close>: \<open>Tags\<close> (flags in a 32-bit word), \<open>Packets\<close> (payload, metadata, packet, pool, with
    a packet as a value), \<open>Packet_Store\<close> and \<open>Pool_Store\<close> (packets and the pool as handles of
    shared cells, and why they are values),
    \<open>Wire_Codec\<close> (a byte format that stands for \<open>bincode\<close> in a witness).
  \<^item> \<open>nyarix-module-api\<close>: \<open>Versioning\<close>, \<open>Capabilities\<close>, \<open>Module_Api\<close> (metadata, and the traits
    \<open>Module\<close> and \<open>Node\<close> as the record \<open>node_ops\<close> of their functions), \<open>Metrics\<close>, \<open>Events\<close>,
    \<open>Runtime_Context\<close> (the context, its policies, its rate limiter and its access checks),
    \<open>Io_Budget\<close> (sequences of checks), \<open>Cancel_Tokens\<close> (sandboxes and the shutdown on Ctrl+C).
  \<^item> \<open>nyarix-graph\<close>: \<open>Channels\<close> (the interface of \<open>tokio\<close> channels and a reference), \<open>Node_Queue\<close>,
    \<open>Edges\<close>, \<open>Graph_Node\<close>, \<open>Flow_Graph\<close> (storage), \<open>Digraph\<close> (paths, cycles and the depth-first
    search shared with the loader), \<open>Graph_Cycle\<close>, \<open>Graph_Search\<close>, \<open>Graph_Validate\<close>, \<open>Graph_Edit\<close>,
    \<open>Throughput\<close>, \<open>Execution\<close> (\<open>execute_sequential\<close>), \<open>Parallel\<close> (\<open>execute_parallel\<close>).
  \<^item> \<open>nyarix-package\<close>: \<open>Package_Manifest\<close>, \<open>Package_Archive\<close>, \<open>Package_Signing\<close>.
  \<^item> \<open>nyarix-loader\<close>: \<open>File_System\<close> (the interface of files and paths), \<open>Module_Index\<close>,
    \<open>Dependency_Graph\<close>, \<open>Version_Resolver\<close>, \<open>Conflicts\<close>, \<open>Installer\<close> (with validation), \<open>Rollback\<close>
    (with the package cache), \<open>Instantiation\<close>.
  \<^item> \<open>nyarix-config\<close>: \<open>Configuration\<close>.
  \<^item> \<open>nyarix-runtime\<close>: \<open>Priority_Queue\<close>, \<open>Execution_Loop\<close> (with pause and panics), \<open>Module_Loading\<close>
    (with capability enforcement and version switch), \<open>Graph_Builder\<close>, \<open>Observability\<close>,
    \<open>Worker_Pools\<close>; \<open>Pipeline\<close> relates profiles and execution, \<open>Lifecycle\<close> packing, installation,
    loading and rollback.

  \<open>Prelude\<close> holds the names of the machine integers, the result type \<open>outcome\<close> and the shared lemmas.
  The theories named \<open>..._Samples\<close> apply the properties to concrete inputs.

  \<^bold>\<open>Correspondence.\<close> A struct is a record with the fields of the source and an enum a datatype with
  its constructors. A function that changes its receiver returns the new state, a fallible one a
  sum whose left side is the error. Code that may panic or loop has type \<open>'a outcome\<close>: \<open>Ret\<close>,
  \<open>Panic\<close> or \<open>NoFuel\<close>. An iteration over a hash map takes its order as an argument, which
  \<open>is_order\<close> ties to the keys. Integers of fixed width are words; a \<open>usize\<close> that counts elements
  in memory is a \<open>nat\<close>. Identifiers drawn at random, the clock, floating point (\<open>f64_ops\<close>), TOML,
  JSON, \<open>tar\<close> and \<open>zstd\<close> (\<open>archive_ops\<close>), Ed25519, the \<open>semver\<close> crate (\<open>semver_ops\<close>), files
  (\<open>fs_ops\<close>), \<open>mpsc\<close> and broadcast channels, cancellation tokens, thread pools and the modules
  themselves are arguments. The laws they
  are relied on for are the locales \<open>mpsc\<close>, \<open>packet_channels\<close>, \<open>priority_channels\<close>, \<open>broadcast\<close>,
  \<open>archive_codec\<close>, \<open>ed25519\<close>, \<open>semver_laws\<close>, \<open>file_store\<close>, \<open>f64_tokens\<close> and \<open>cancellation\<close>, each interpreted on an executable
  reference. \<open>lane_queue\<close> and \<open>digraph\<close> are interfaces between components of the model.

  Concurrency is a step relation: \<open>par_step\<close> interleaves the branches of \<open>execute_parallel\<close> between
  the points where they may wait, \<open>loop_step\<close> and \<open>loop_env\<close> interleave the execution loop with its
  surroundings and \<open>loop_run\<close> is a run of both, \<open>cpu_step\<close> interleaves a closure on the worker pool
  with its caller, \<open>graph_step\<close> is any editing operation of a graph.

  \<^bold>\<open>What is shown.\<close>

  \<^item> Execution: \<open>execute_sequential\<close> returns, along a route of the graph; \<open>execute_parallel\<close> has no
    infinite run, never waits for a packet that is not there, never runs more branches at once
    than it has permits and loses no permit; with nested fan-outs and too few permits it deadlocks,
    without it returns.
  \<^item> The loop: packets are taken and forwarded in order, and a cancelled loop ends within a bound that
    grows only with the packets put into its source, with the exact cases in which it does not; a pause without handles starves it.
  \<^item> The graph: well-formedness is invariant under all edits; cycle detection, path finding and
    validation are exact; insertion and removal keep reachability; a diff lists the nodes,
    modules and edges that differ.
  \<^item> Building and reporting: a profile gives a valid chain, whose reported depth is the length of
    the stack; an export lists every node and edge once. Running a packet through the built graph is
    running it through the modules of the stack in order (\<open>Pipeline\<close>).
  \<^item> Packets: sharing behind \<open>Arc\<close> with copies on write is not observable, also for packets that go
    through the pool while clones of them live; no handle dangles and no cell leaks; encoding
    is inverted by decoding, up to a millisecond and the present for the two instants.
  \<^item> Queues: each queue refines lanes that are first in first out; the scheduler's queue is a priority
    queue on the list of arrivals; drops are accounted for.
  \<^item> Packages: signatures bind members and paths without zero bytes, trust needs a signature, packing is inverted by
    opening; the load order, version resolution and conflict detection are exact.
  \<^item> Installation: what an installation writes, and the path by which it escapes its directory;
    rollback and eviction, and the log on disk. Loading accounts for every file found. Across components: a published package is the one the
    runtime finds after its installation, and after an update a rollback gets back to the very
    archive that was installed before.
  \<^item> Access: checks pass exactly when capability, limiter and whitelist allow it; any sequence of
    checks stays within the budget of its limiter, up to the rounding of \<open>f64\<close>; subscribers see the latest events.
  \<^item> Workers and sandboxes: a closure's result or panic reaches its caller in at most three steps; an
    isolated sandbox cancels nothing but itself; a failure to install the Ctrl+C handler leaves
    the token the caller got uncancelled.

  \<^bold>\<open>Fuel.\<close> \<open>execute_sequential\<close> takes one unit per hop: one more than the number of nodes is enough
  without cycles, as shown; the graph searches give themselves one unit more than there are nodes
  and are shown to return. \<open>nq_drain\<close>, \<open>pq_drain\<close> and \<open>subscription_run\<close> take one unit
  per item, and the theorems give the amount. Everything else is structural recursion.

  \<^bold>\<open>Not modelled.\<close> The texts of \<open>Display\<close> of the error types outside \<open>nyarix-error\<close> and of \<open>Debug\<close>
  that no other code reads, logging other than of packets and of panics in the worker pool, serde
  derives of plain structs, what the pools of \<open>rayon\<close> and \<open>tokio\<close> do with the tasks they are given
  (\<open>IoPool::spawn\<close>, \<open>handle\<close> and \<open>shutdown_background\<close> only pass calls on), \<open>sigusr1_signal\<close>, key
  generation and read-only accessors, which are the fields of the records. The order of memory
  operations on counters is not modelled: they are updated one at a time.
\<close>

end
